(* ===== verification/Prelude.thy ===== *)
theory Prelude
  imports Complex_Main "HOL-Library.Word"
begin

text \<open>
  Shared vocabulary of the development.

  \<^item> The result type of a C function that may not return normally: \<open>None\<close> is a call that
    does not return (an endless loop), \<open>Some (Inl e)\<close> is a run that reaches undefined
    behaviour or an abort of kind \<open>e\<close> (\<open>Uncaught\<close>: a C++ exception nobody catches), \<open>Some (Inr a)\<close> returns \<open>a\<close>.
  \<^item> The conversions of C integers: \<open>i32\<close> reduces a mathematical integer to the value an
    \<open>int\<close> holds, \<open>u32\<close> to the value an \<open>unsigned int\<close> holds.
  \<^item> The theorem collections \<open>frame\<close> (what an operation leaves alone) and \<open>preserves\<close>
    (invariants an operation keeps).
\<close>

unbundle bit_operations_syntax

named_theorems frame
named_theorems preserves

section \<open>Results of C calls\<close>

datatype fault =
    NullDeref
  | OutOfBounds
  | InvalidFree
  | DivByZero
  | UninitRead
  | AssertFail
  | Uncaught

type_synonym 'a res = "(fault + 'a) option"

definition ret :: "'a \<Rightarrow> 'a res" where
  "ret x = Some (Inr x)"

definition fail :: "fault \<Rightarrow> 'a res" where
  "fail e = Some (Inl e)"

definition res_bind :: "'a res \<Rightarrow> ('a \<Rightarrow> 'b res) \<Rightarrow> 'b res" where
  "res_bind m f = Option.bind m (\<lambda>r. case r of Inl e \<Rightarrow> Some (Inl e) | Inr x \<Rightarrow> f x)"

lemma res_bind_ret [simp]: "res_bind (ret x) f = f x"
  by (simp add: res_bind_def ret_def)

lemma res_bind_fail [simp]: "res_bind (fail e) f = fail e"
  by (simp add: res_bind_def fail_def)

lemma res_bind_None [simp]: "res_bind None f = None"
  by (simp add: res_bind_def)

lemma ret_inject [simp]: "ret x = ret y \<longleftrightarrow> x = y"
  by (simp add: ret_def)

lemma fail_inject [simp]: "fail e = fail e' \<longleftrightarrow> e = e'"
  by (simp add: fail_def)

lemma ret_distinct [simp]:
  "ret x \<noteq> fail e" "fail e \<noteq> ret x" "ret x \<noteq> None" "None \<noteq> ret x" "fail e \<noteq> None" "None \<noteq> fail e"
  by (simp_all add: ret_def fail_def)

lemma case_res_simps [simp]:
  "case_option a g (ret x) = g (Inr x)" "case_option a g (fail e) = g (Inl e)"
  by (simp_all add: ret_def fail_def)

lemma res_cases [case_names diverges fails returns]:
  obtains "m = None" | e where "m = fail e" | x where "m = ret x"
  by (cases m) (auto simp: ret_def fail_def, metis Inl_Inr_False sum.exhaust)

lemma res_bind_eq_ret [simp]: "res_bind m f = ret y \<longleftrightarrow> (\<exists>x. m = ret x \<and> f x = ret y)"
  by (cases m rule: res_cases) auto

lemma res_bind_cong [fundef_cong]:
  "m = m' \<Longrightarrow> (\<And>x. m' = ret x \<Longrightarrow> f x = g x) \<Longrightarrow> res_bind m f = res_bind m' g"
  by (cases m' rule: res_cases) auto

lemma res_bind_mono [partial_function_mono]:
  assumes "mono_option B" "\<And>y. mono_option (\<lambda>f. C y f)"
  shows "mono_option (\<lambda>f. res_bind (B f) (\<lambda>y. C y f))"
  unfolding res_bind_def
proof (rule bind_mono [OF assms(1)])
  fix y :: "fault + 'c"
  show "mono_option (\<lambda>f. case y of Inl e \<Rightarrow> Some (Inl e) | Inr x \<Rightarrow> C x f)"
    by (cases y) (simp_all add: assms(2) option.const_mono)
qed

section \<open>C integers\<close>

type_synonym byte = "8 word"
type_synonym u16 = "16 word"
type_synonym u32 = "32 word"
type_synonym u64 = "64 word"

definition i32 :: "int \<Rightarrow> int" where
  "i32 x = (x + 2147483648) mod 4294967296 - 2147483648"

definition u32_of :: "int \<Rightarrow> int" where
  "u32_of x = x mod 4294967296"

lemma i32_id [simp]: "- 2147483648 \<le> x \<Longrightarrow> x < 2147483648 \<Longrightarrow> i32 x = x"
  by (simp add: i32_def mod_pos_pos_trivial)

lemma i32_range: "- 2147483648 \<le> i32 x" "i32 x < 2147483648"
  by (simp_all add: i32_def)

lemma i32_u32 [simp]: "i32 (u32_of x) = i32 x"
  by (simp add: i32_def u32_of_def mod_simps)

lemma i32_i32 [simp]: "i32 (i32 x) = i32 x"
  using i32_range [of x] by simp

section \<open>Lists\<close>

lemma nth_update_frame [simp]:
  "i < length xs \<Longrightarrow> f (x) = f (xs ! i) \<Longrightarrow> f (xs[i := x] ! j) = f (xs ! j)"
  by (cases "i = j") auto

lemma map_update_same:
  "i < length xs \<Longrightarrow> f x = f (xs ! i) \<Longrightarrow> map f (xs[i := x]) = map f xs"
  by (rule nth_equalityI) (auto simp: nth_list_update)

section \<open>Invariants of a step relation\<close>

locale step_invariant =
  fixes stp :: "'s \<Rightarrow> 's \<Rightarrow> bool"
    and inv :: "'s \<Rightarrow> bool"
  assumes stp_inv: "stp s s' \<Longrightarrow> inv s \<Longrightarrow> inv s'"
begin

lemma runs_inv: "stp\<^sup>*\<^sup>* s0 s \<Longrightarrow> inv s0 \<Longrightarrow> inv s"
  by (induction rule: rtranclp_induct) (auto intro: stp_inv)

end

end
