(* ===== verification/Queue.thy ===== *)
theory Queue
  imports Prelude
begin

text \<open>
  \<open>scheduler/g_queue.c\<close>: the linked queue of waiting thread indices.

  A pointer is \<open>addr option\<close> with \<open>None\<close> for \<open>NULL\<close>; the allocated queue items are a
  partial map from addresses. Reading or writing through \<open>NULL\<close> or through an address that
  is not allocated is a fault. \<open>malloc\<close> is an argument of the operation that calls it: the
  address it returned with the indeterminate contents of the block, or \<open>None\<close> for \<open>NULL\<close>.

  The operations refine a list: \<open>queue_rep\<close> relates the pointers and cells to the list of
  indices, and to the cells \<open>G\<close> of the heap that are not the queue's. The interface the
  semaphores rely on is the locale \<open>fifo\<close>, which the linked queue interprets.
\<close>

type_synonym addr = nat
type_synonym ptr = "addr option"

record queue_item =
  thread_idx :: int
  item_next :: ptr

record queue_t =
  head :: ptr
  tail :: ptr

type_synonym item_heap = "addr \<Rightarrow> queue_item option"
type_synonym item_block = "(addr \<times> queue_item) option"

section \<open>Access through pointers\<close>

definition load :: "ptr \<Rightarrow> item_heap \<Rightarrow> queue_item res" where
  "load p h =
     (case p of None \<Rightarrow> fail NullDeref
      | Some a \<Rightarrow> (case h a of None \<Rightarrow> fail OutOfBounds | Some it \<Rightarrow> ret it))"

definition store :: "ptr \<Rightarrow> (queue_item \<Rightarrow> queue_item) \<Rightarrow> item_heap \<Rightarrow> item_heap res" where
  "store p f h =
     (case p of None \<Rightarrow> fail NullDeref
      | Some a \<Rightarrow> (case h a of None \<Rightarrow> fail OutOfBounds | Some it \<Rightarrow> ret (h(a \<mapsto> f it))))"

definition free_item :: "ptr \<Rightarrow> item_heap \<Rightarrow> item_heap res" where
  "free_item p h =
     (case p of None \<Rightarrow> ret h
      | Some a \<Rightarrow> (if h a = None then fail InvalidFree else ret (h(a := None))))"

lemma load_simps [simp]:
  "load None h = fail NullDeref"
  "h a = Some it \<Longrightarrow> load (Some a) h = ret it"
  "h a = None \<Longrightarrow> load (Some a) h = fail OutOfBounds"
  by (simp_all add: load_def)

lemma store_simps [simp]:
  "store None f h = fail NullDeref"
  "h a = Some it \<Longrightarrow> store (Some a) f h = ret (h(a \<mapsto> f it))"
  "h a = None \<Longrightarrow> store (Some a) f h = fail OutOfBounds"
  by (simp_all add: store_def)

lemma free_item_simps [simp]:
  "free_item None h = ret h"
  "h a = Some it \<Longrightarrow> free_item (Some a) h = ret (h(a := None))"
  by (simp_all add: free_item_def)

section \<open>The operations\<close>

definition queue_init :: queue_t where
  "queue_init = \<lparr>head = None, tail = None\<rparr>"

definition queue_is_empty :: "queue_t \<Rightarrow> bool" where
  "queue_is_empty queue \<longleftrightarrow> head queue = None"

definition queue_push :: "queue_t \<times> item_heap \<Rightarrow> int \<Rightarrow> item_block \<Rightarrow> (queue_t \<times> item_heap) res" where
  "queue_push qh idx blk =
     (let queue = fst qh;
          (thread, h0) = (case blk of None \<Rightarrow> (None, snd qh)
                          | Some (a, junk) \<Rightarrow> (Some a, (snd qh)(a \<mapsto> junk)))
      in res_bind (store thread (\<lambda>it. it\<lparr>thread_idx := idx\<rparr>) h0) (\<lambda>h1.
         res_bind
           (if queue_is_empty queue
            then ret (queue\<lparr>head := thread, tail := thread\<rparr>, h1)
            else res_bind (store (tail queue) (\<lambda>it. it\<lparr>item_next := thread\<rparr>) h1) (\<lambda>h2.
                 ret (queue\<lparr>tail := thread\<rparr>, h2)))
           (\<lambda>(queue', h2).
         res_bind (store thread (\<lambda>it. it\<lparr>item_next := None\<rparr>) h2) (\<lambda>h3.
           ret (queue', h3)))))"

definition queue_pop :: "queue_t \<times> item_heap \<Rightarrow> (int \<times> queue_t \<times> item_heap) res" where
  "queue_pop qh =
     (let (queue, h) = qh
      in if queue_is_empty queue then ret (- 1, queue, h)
         else let thread = head queue
         in res_bind (load thread h) (\<lambda>it.
            let idx = thread_idx it;
                queue1 = queue\<lparr>head := item_next it\<rparr>;
                queue2 = (if queue_is_empty queue1 then queue1\<lparr>tail := None\<rparr> else queue1)
            in res_bind (free_item thread h) (\<lambda>h'. ret (idx, queue2, h'))))"

section \<open>The list a queue stands for\<close>

primrec linked :: "item_heap \<Rightarrow> ptr \<Rightarrow> addr list \<Rightarrow> ptr \<Rightarrow> bool" where
  "linked h p [] e \<longleftrightarrow> p = e"
| "linked h p (a # as) e \<longleftrightarrow>
     p = Some a \<and> (\<exists>it. h a = Some it \<and> linked h (item_next it) as e)"

definition cell_idx :: "item_heap \<Rightarrow> addr \<Rightarrow> int" where
  "cell_idx h a = thread_idx (the (h a))"

definition queue_rep :: "item_heap \<Rightarrow> queue_t \<times> item_heap \<Rightarrow> int list \<Rightarrow> bool" where
  "queue_rep G qh xs \<longleftrightarrow>
     (\<exists>as. linked (snd qh) (head (fst qh)) as None \<and> distinct as \<and>
           (as \<noteq> [] \<longrightarrow> tail (fst qh) = Some (last as)) \<and> (as = [] \<longrightarrow> tail (fst qh) = None) \<and>
           (snd qh) |` (- set as) = G \<and> xs = map (cell_idx (snd qh)) as)"

lemma linked_append:
  "linked h p (as @ bs) e \<longleftrightarrow> (\<exists>q. linked h p as q \<and> linked h q bs e)"
  by (induction as arbitrary: p) auto

lemma linked_frame:
  "(\<And>a. a \<in> set as \<Longrightarrow> h' a = h a) \<Longrightarrow> linked h' p as e = linked h p as e"
  by (induction as arbitrary: p) auto

lemma linked_alloc: "linked h p as e \<Longrightarrow> a \<in> set as \<Longrightarrow> h a \<noteq> None"
  by (induction as arbitrary: p) auto

lemma queue_rep_init: "queue_rep h (queue_init, h) []"
  by (auto simp: queue_rep_def queue_init_def)

lemma queue_rep_empty: "queue_rep G (q, h) xs \<Longrightarrow> queue_is_empty q \<longleftrightarrow> xs = []"
  by (auto simp: queue_rep_def queue_is_empty_def neq_Nil_conv)
     (case_tac as; simp)

lemma queue_rep_heap_empty: "queue_rep G (q, h) [] \<Longrightarrow> h = G"
  by (auto simp: queue_rep_def)

lemma queue_push_rep:
  assumes "queue_rep G (q, h) xs" "h a = None"
  shows "\<exists>q' h'. queue_push (q, h) idx (Some (a, junk)) = ret (q', h') \<and>
           queue_rep G (q', h') (xs @ [idx])"
proof -
  let ?new = "\<lparr>thread_idx = idx, item_next = None\<rparr> :: queue_item"
  obtain as where as: "linked h (head q) as None" "distinct as"
    "as \<noteq> [] \<Longrightarrow> tail q = Some (last as)" "h |` (- set as) = G" "xs = map (cell_idx h) as"
    using assms(1) by (auto simp: queue_rep_def)
  have fresh: "a \<notin> set as" using linked_alloc [OF as(1)] assms(2) by blast
  show ?thesis
  proof (cases "as = []")
    case True
    then have "queue_push (q, h) idx (Some (a, junk)) =
        ret (\<lparr>head = Some a, tail = Some a\<rparr>, h(a \<mapsto> ?new))"
      using as(1) by (cases q, cases junk) (auto simp: queue_push_def queue_is_empty_def)
    moreover have "queue_rep G (\<lparr>head = Some a, tail = Some a\<rparr>, h(a \<mapsto> ?new)) (xs @ [idx])"
      unfolding queue_rep_def fst_conv snd_conv
    proof (intro exI [of _ "[a]"] conjI)
      show "h(a \<mapsto> ?new) |` (- set [a]) = G"
        using True as(4) assms(2) by (auto simp: restrict_map_def fun_eq_iff)
    qed (use True as(5) in \<open>simp_all add: cell_idx_def\<close>)
    ultimately show ?thesis by blast
  next
    case False
    then obtain bs t where bs: "as = bs @ [t]" by (metis rev_exhaust)
    obtain it where it: "h t = Some it" "linked h (head q) bs (Some t)"
      using as(1) by (auto simp: bs linked_append)
    define h' where "h' = h(t \<mapsto> it\<lparr>item_next := Some a\<rparr>, a \<mapsto> ?new)"
    obtain b where ne: "head q = Some b" using it(2) as(1) by (cases bs) (auto simp: bs)
    have at: "a \<noteq> t" "t \<notin> set bs" "a \<notin> set bs" using fresh as(2) by (auto simp: bs)
    have push: "queue_push (q, h) idx (Some (a, junk)) = ret (q\<lparr>tail := Some a\<rparr>, h')"
      using ne as(3) it at
      by (cases junk) (simp add: queue_push_def queue_is_empty_def bs h'_def fun_upd_twist)
    have "linked h' (head q) bs (Some t)"
      using it(2) at by (subst linked_frame [where h = h]) (auto simp: h'_def)
    then have "linked h' (head q) (as @ [a]) None"
      using at by (auto simp: bs linked_append h'_def)
    moreover have "map (cell_idx h') (as @ [a]) = xs @ [idx]"
      using at it(1) as(5) by (auto simp: bs h'_def cell_idx_def)
    moreover have "h' |` (- set (as @ [a])) = G"
      unfolding as(4) [symmetric] using assms(2)
      by (auto simp: bs h'_def restrict_map_def fun_eq_iff)
    moreover have "distinct (as @ [a])" using fresh as(2) by simp
    ultimately have "queue_rep G (q\<lparr>tail := Some a\<rparr>, h') (xs @ [idx])"
      unfolding queue_rep_def by (intro exI [of _ "as @ [a]"]) simp
    then show ?thesis using push by blast
  qed
qed

lemma queue_pop_rep:
  assumes "queue_rep G (q, h) (x # xs)"
  shows "\<exists>q' h'. queue_pop (q, h) = ret (x, q', h') \<and> queue_rep G (q', h') xs"
proof -
  obtain a bs where as: "linked h (head q) (a # bs) None" "distinct (a # bs)"
    "tail q = Some (last (a # bs))" "h |` (- set (a # bs)) = G" "x # xs = map (cell_idx h) (a # bs)"
    using assms by (auto simp: queue_rep_def Cons_eq_map_conv)
  obtain it where it: "h a = Some it" "linked h (item_next it) bs None" "head q = Some a"
    using as(1) by auto
  define q' where "q' = (if bs = [] then \<lparr>head = None, tail = None\<rparr> else q\<lparr>head := item_next it\<rparr>)"
  have hn: "item_next it = None \<longleftrightarrow> bs = []" using it(2) by (cases bs) auto
  have pop: "queue_pop (q, h) = ret (x, q', h(a := None))"
    using it as(5) hn by (cases q) (auto simp: queue_pop_def queue_is_empty_def q'_def cell_idx_def)
  have "linked (h(a := None)) (item_next it) bs None"
    using it(2) as(2) by (subst linked_frame [where h = h]) auto
  moreover have "(h(a := None)) |` (- set bs) = G"
    unfolding as(4) [symmetric] by (auto simp: restrict_map_def fun_eq_iff)
  moreover have "xs = map (cell_idx (h(a := None))) bs"
    using as(2,5) by (auto simp: cell_idx_def)
  moreover have "tail q' = (if bs = [] then None else Some (last bs))" "head q' = item_next it"
    using as(3) hn by (auto simp: q'_def)
  ultimately have "queue_rep G (q', h(a := None)) xs"
    using as(2) unfolding queue_rep_def by (intro exI [of _ bs]) auto
  with pop show ?thesis by blast
qed

lemma queue_pop_empty: "queue_rep G (q, h) [] \<Longrightarrow> queue_pop (q, h) = ret (- 1, q, h)"
  using queue_rep_empty [of G q h "[]"] by (simp add: queue_pop_def)

section \<open>The interface of a queue\<close>

definition block_fresh :: "queue_t \<times> item_heap \<Rightarrow> item_block \<Rightarrow> bool" where
  "block_fresh qh blk \<longleftrightarrow> (case blk of None \<Rightarrow> False | Some (a, _) \<Rightarrow> snd qh a = None)"

datatype 'b queue_op = Push int 'b | Pop

fun queue_run ::
  "('s \<Rightarrow> int \<Rightarrow> 'b \<Rightarrow> 's res) \<Rightarrow> ('s \<Rightarrow> (int \<times> 's) res) \<Rightarrow>
   'b queue_op list \<Rightarrow> 's \<Rightarrow> (int list \<times> 's) res" where
  "queue_run push pop [] s = ret ([], s)"
| "queue_run push pop (Push x b # ops) s = res_bind (push s x b) (queue_run push pop ops)"
| "queue_run push pop (Pop # ops) s =
     res_bind (pop s) (\<lambda>(x, s'). res_bind (queue_run push pop ops s') (\<lambda>(xs, s''). ret (x # xs, s'')))"

fun mallocs_ok ::
  "('s \<Rightarrow> int \<Rightarrow> 'b \<Rightarrow> 's res) \<Rightarrow> ('s \<Rightarrow> (int \<times> 's) res) \<Rightarrow> ('s \<Rightarrow> 'b \<Rightarrow> bool) \<Rightarrow>
   'b queue_op list \<Rightarrow> 's \<Rightarrow> bool" where
  "mallocs_ok push pop fresh [] s \<longleftrightarrow> True"
| "mallocs_ok push pop fresh (Push x b # ops) s \<longleftrightarrow>
     fresh s b \<and> (case push s x b of Some (Inr s') \<Rightarrow> mallocs_ok push pop fresh ops s' | _ \<Rightarrow> True)"
| "mallocs_ok push pop fresh (Pop # ops) s \<longleftrightarrow>
     (case pop s of Some (Inr (_, s')) \<Rightarrow> mallocs_ok push pop fresh ops s' | _ \<Rightarrow> True)"

text \<open>The same operations on a list: append at the end, take from the front, \<open>-1\<close> if empty.\<close>

fun list_run :: "'b queue_op list \<Rightarrow> int list \<Rightarrow> int list \<times> int list" where
  "list_run [] xs = ([], xs)"
| "list_run (Push x b # ops) xs = list_run ops (xs @ [x])"
| "list_run (Pop # ops) [] = (case list_run ops [] of (ys, zs) \<Rightarrow> (- 1 # ys, zs))"
| "list_run (Pop # ops) (x # xs) = (case list_run ops xs of (ys, zs) \<Rightarrow> (x # ys, zs))"

locale fifo =
  fixes rep :: "'g \<Rightarrow> 's \<Rightarrow> int list \<Rightarrow> bool"
    and is_empty :: "'s \<Rightarrow> bool"
    and push :: "'s \<Rightarrow> int \<Rightarrow> 'b \<Rightarrow> 's res"
    and pop :: "'s \<Rightarrow> (int \<times> 's) res"
    and fresh :: "'s \<Rightarrow> 'b \<Rightarrow> bool"
  assumes is_empty_rep: "rep G s xs \<Longrightarrow> is_empty s \<longleftrightarrow> xs = []"
    and push_rep: "rep G s xs \<Longrightarrow> fresh s b \<Longrightarrow> \<exists>s'. push s x b = ret s' \<and> rep G s' (xs @ [x])"
    and pop_rep: "rep G s (x # xs) \<Longrightarrow> \<exists>s'. pop s = ret (x, s') \<and> rep G s' xs"
    and pop_empty: "rep G s [] \<Longrightarrow> pop s = ret (- 1, s)"
begin

lemma run_refines:
  "rep G s xs \<Longrightarrow> mallocs_ok push pop fresh ops s \<Longrightarrow>
   \<exists>s'. queue_run push pop ops s = ret (fst (list_run ops xs), s') \<and> rep G s' (snd (list_run ops xs))"
proof (induction ops xs arbitrary: s rule: list_run.induct)
  case (2 x b ops xs)
  then obtain s' where "push s x b = ret s'" "rep G s' (xs @ [x])"
    using push_rep [of G s xs b x] by auto
  with 2 show ?case by simp
next
  case (3 ops)
  then have "pop s = ret (- 1, s)" by (simp add: pop_empty)
  with 3 obtain s'' where "queue_run push pop ops s = ret (fst (list_run ops []), s'')"
    "rep G s'' (snd (list_run ops []))"
    by auto
  then show ?case by (simp add: \<open>pop s = ret (- 1, s)\<close> case_prod_beta)
next
  case (4 ops x xs)
  then obtain s' where s': "pop s = ret (x, s')" "rep G s' xs"
    using pop_rep [of G s x xs] by auto
  with 4 obtain s'' where "queue_run push pop ops s' = ret (fst (list_run ops xs), s'')"
    "rep G s'' (snd (list_run ops xs))"
    by auto
  with s' show ?case by (simp add: case_prod_beta)
qed simp

end

interpretation lq: fifo queue_rep "\<lambda>qh. queue_is_empty (fst qh)" queue_push queue_pop block_fresh
proof
  fix G qh xs
  assume "queue_rep G qh xs"
  then show "queue_is_empty (fst qh) \<longleftrightarrow> xs = []"
    by (cases qh) (auto dest: queue_rep_empty)
next
  fix G qh xs b x
  assume rep: "queue_rep G qh xs" and fresh: "block_fresh qh b"
  obtain q h a j where "qh = (q, h)" "b = Some (a, j)" "h a = None"
    using fresh by (cases qh; cases b) (auto simp: block_fresh_def)
  then show "\<exists>s'. queue_push qh x b = ret s' \<and> queue_rep G s' (xs @ [x])"
    using queue_push_rep [of G q h xs a x j] rep by auto
next
  fix G qh x xs
  assume "queue_rep G qh (x # xs)"
  then show "\<exists>s'. queue_pop qh = ret (x, s') \<and> queue_rep G s' xs"
    using queue_pop_rep by (cases qh) auto
next
  fix G qh
  assume "queue_rep G qh []"
  then show "queue_pop qh = ret (- 1, qh)"
    using queue_pop_empty by (cases qh) auto
qed

text \<open>
  Claim C7. The linked queue is a first-in first-out queue: any sequence of
  \<open>queue_push\<close> and \<open>queue_pop\<close> calls on an initialised queue, in which every \<open>malloc\<close>
  returns a block that is not in use, runs without a fault and pops what the list
  operations pop (\<open>-1\<close> on an empty queue); afterwards the cells hold the remaining
  list, and the rest of the heap is what it was, so no cell is leaked.
\<close>

theorem queue_refines_list:
  assumes "mallocs_ok queue_push queue_pop block_fresh ops (queue_init, h)"
  shows "\<exists>qh'. queue_run queue_push queue_pop ops (queue_init, h) = ret (fst (list_run ops []), qh') \<and>
    queue_rep h qh' (snd (list_run ops []))"
  by (rule lq.run_refines [OF queue_rep_init assms])

theorem queue_refines_list_witness:
  "\<exists>qh'. queue_run queue_push queue_pop
     [Push 4 (Some (0, \<lparr>thread_idx = 9, item_next = Some 7\<rparr>)),
      Push 2 (Some (1, \<lparr>thread_idx = 9, item_next = None\<rparr>)), Pop,
      Push 3 (Some (0, \<lparr>thread_idx = 9, item_next = Some 7\<rparr>)), Pop, Pop, Pop]
     (queue_init, Map.empty) = ret ([4, 2, 3, - 1], qh')"
proof -
  let ?ops = "[Push 4 (Some (0, \<lparr>thread_idx = 9, item_next = Some 7\<rparr>)),
      Push 2 (Some (1, \<lparr>thread_idx = 9, item_next = None\<rparr>)), Pop,
      Push 3 (Some (0, \<lparr>thread_idx = 9, item_next = Some 7\<rparr>)), Pop, Pop, Pop] :: item_block queue_op list"
  have "mallocs_ok queue_push queue_pop block_fresh ?ops (queue_init, Map.empty)"
    by (simp add: block_fresh_def queue_push_def queue_pop_def queue_init_def queue_is_empty_def
        res_bind_def ret_def store_def load_def free_item_def)
  from queue_refines_list [OF this] show ?thesis by auto
qed

end
