(* ===== verification/Timeval.thy ===== *)
theory Timeval
  imports Prelude
begin

text \<open>
  The time arithmetic of \<open>scheduler/gthr.c\<close>: \<open>struct timeval\<close>, the helpers
  \<open>timeval_subtract\<close>, \<open>timeval_add\<close>, \<open>timeval_to_microseconds\<close>, \<open>init_timeval\<close>,
  \<open>timeval_is_zero\<close> and the on-line statistics \<open>update_running_stats\<close>.

  The two members of a \<open>timeval\<close> are 64-bit signed integers, modelled as \<open>int\<close>; a \<open>double\<close>
  is a \<open>real\<close>, so rounding is not modelled. A C function that writes through pointers
  returns the values it writes.
\<close>

record timeval =
  tv_sec :: int
  tv_usec :: int

definition timeval_subtract :: "timeval \<Rightarrow> timeval \<Rightarrow> timeval" where
  "timeval_subtract x y =
     (let s = tv_sec x - tv_sec y; u = tv_usec x - tv_usec y
      in if u < 0 then \<lparr>tv_sec = s - 1, tv_usec = u + 1000000\<rparr>
         else \<lparr>tv_sec = s, tv_usec = u\<rparr>)"

definition timeval_add :: "timeval \<Rightarrow> timeval \<Rightarrow> timeval" where
  "timeval_add x y =
     (let s = tv_sec x + tv_sec y; u = tv_usec x + tv_usec y
      in if u \<ge> 1000000 then \<lparr>tv_sec = s + 1, tv_usec = u - 1000000\<rparr>
         else \<lparr>tv_sec = s, tv_usec = u\<rparr>)"

definition timeval_to_microseconds :: "timeval \<Rightarrow> real" where
  "timeval_to_microseconds tv = of_int (tv_sec tv) * 1000000 + of_int (tv_usec tv)"

definition init_timeval :: timeval where
  "init_timeval = \<lparr>tv_sec = 0, tv_usec = 0\<rparr>"

definition timeval_is_zero :: "timeval \<Rightarrow> bool" where
  "timeval_is_zero tv \<longleftrightarrow> tv_sec tv = 0 \<and> tv_usec tv = 0"

text \<open>
  \<open>update_running_stats new min max avg var count\<close> returns the new values of
  \<open>*min_time\<close>, \<open>*max_time\<close>, \<open>*avg\<close> and \<open>*var\<close>.
\<close>

definition update_running_stats ::
  "timeval \<Rightarrow> timeval \<Rightarrow> timeval \<Rightarrow> real \<Rightarrow> real \<Rightarrow> nat \<Rightarrow> timeval \<times> timeval \<times> real \<times> real" where
  "update_running_stats new_time min_time max_time avg var count =
     (let new_value = timeval_to_microseconds new_time;
          min' = (if timeval_is_zero min_time \<or>
                     (tv_sec new_time < tv_sec min_time \<or>
                      (tv_sec new_time = tv_sec min_time \<and> tv_usec new_time < tv_usec min_time))
                  then new_time else min_time);
          max' = (if timeval_is_zero max_time \<or>
                     (tv_sec new_time > tv_sec max_time \<or>
                      (tv_sec new_time = tv_sec max_time \<and> tv_usec new_time > tv_usec max_time))
                  then new_time else max_time);
          delta = new_value - avg;
          avg' = avg + delta / of_nat count;
          delta2 = new_value - avg';
          var' = var + delta * delta2
      in (min', max', avg', var'))"

section \<open>Exactness of the arithmetic\<close>

text \<open>The value of a time in microseconds, and the normal form \<open>gettimeofday\<close> delivers.\<close>

definition usecs :: "timeval \<Rightarrow> int" where
  "usecs tv = tv_sec tv * 1000000 + tv_usec tv"

definition normal :: "timeval \<Rightarrow> bool" where
  "normal tv \<longleftrightarrow> 0 \<le> tv_usec tv \<and> tv_usec tv < 1000000"

lemma to_microseconds_usecs: "timeval_to_microseconds tv = of_int (usecs tv)"
  by (simp add: timeval_to_microseconds_def usecs_def)

lemma usecs_subtract [simp]: "usecs (timeval_subtract x y) = usecs x - usecs y"
  by (simp add: timeval_subtract_def usecs_def Let_def algebra_simps)

lemma usecs_add [simp]: "usecs (timeval_add x y) = usecs x + usecs y"
  by (simp add: timeval_add_def usecs_def Let_def algebra_simps)

lemma usecs_init [simp]: "usecs init_timeval = 0"
  by (simp add: usecs_def init_timeval_def)

lemma normal_subtract [preserves]: "normal x \<Longrightarrow> normal y \<Longrightarrow> normal (timeval_subtract x y)"
  by (auto simp: timeval_subtract_def normal_def Let_def)

lemma normal_add [preserves]: "normal x \<Longrightarrow> normal y \<Longrightarrow> normal (timeval_add x y)"
  by (auto simp: timeval_add_def normal_def Let_def)

lemma normal_init [preserves]: "normal init_timeval"
  by (simp add: normal_def init_timeval_def)

lemma normal_div_mod:
  assumes "normal x"
  shows "usecs x div 1000000 = tv_sec x" "usecs x mod 1000000 = tv_usec x"
  using assms by (simp_all add: normal_def usecs_def)

lemma normal_usecs_inject:
  assumes "normal x" "normal y"
  shows "usecs x = usecs y \<longleftrightarrow> x = y"
proof
  assume "usecs x = usecs y"
  with assms have "tv_sec x = tv_sec y" "tv_usec x = tv_usec y"
    by (metis normal_div_mod)+
  then show "x = y" by simp
qed simp

lemma normal_usecs_less:
  "normal x \<Longrightarrow> normal y \<Longrightarrow>
   (tv_sec x < tv_sec y \<or> tv_sec x = tv_sec y \<and> tv_usec x < tv_usec y) \<longleftrightarrow> usecs x < usecs y"
  by (auto simp: normal_def usecs_def)

lemma is_zero_usecs: "normal x \<Longrightarrow> timeval_is_zero x \<longleftrightarrow> usecs x = 0"
  by (metis add_0 div_0 mod_0 mult_zero_left normal_div_mod timeval_is_zero_def usecs_def)

text \<open>
  For times in normal form the subtraction undoes the addition and the other way round,
  and both stay in normal form.
\<close>

lemma add_subtract: "normal x \<Longrightarrow> normal y \<Longrightarrow> timeval_add (timeval_subtract x y) y = x"
  by (subst normal_usecs_inject [symmetric]) (auto intro: preserves)

lemma subtract_add: "normal x \<Longrightarrow> normal y \<Longrightarrow> timeval_subtract (timeval_add x y) y = x"
  by (subst normal_usecs_inject [symmetric]) (auto intro: preserves)

section \<open>The on-line statistics compute mean, variance and extremes\<close>

text \<open>
  The four statistics of a thread after a list of samples (newest first): every new sample
  is folded in with its number as \<open>count\<close>, as \<open>update_thread_state\<close> does.
\<close>

primrec stats_of :: "timeval list \<Rightarrow> timeval \<times> timeval \<times> real \<times> real" where
  "stats_of [] = (init_timeval, init_timeval, 0, 0)"
| "stats_of (x # xs) =
     (case stats_of xs of (mn, mx, avg, var) \<Rightarrow>
        update_running_stats x mn mx avg var (Suc (length xs)))"

abbreviation stat_min where "stat_min r \<equiv> fst r"
abbreviation stat_max where "stat_max r \<equiv> fst (snd r)"
abbreviation stat_avg where "stat_avg r \<equiv> fst (snd (snd r))"
abbreviation stat_var where "stat_var r \<equiv> snd (snd (snd r))"

lemma update_running_stats_sel:
  fixes avg :: real
  defines "r new mn mx v c \<equiv> update_running_stats new mn mx avg v c"
  shows "stat_avg (r new mn mx v c) = avg + (of_int (usecs new) - avg) / of_nat c"
    and "stat_var (r new mn mx v c) =
      v + (of_int (usecs new) - avg) *
          (of_int (usecs new) - (avg + (of_int (usecs new) - avg) / of_nat c))"
  by (simp_all add: r_def update_running_stats_def Let_def to_microseconds_usecs)

lemma welford_step:
  fixes a x n :: real
  assumes n: "n + 1 \<noteq> 0"
  defines "a' \<equiv> a + (x - a) / (n + 1)"
  shows "(n + 1) * a' = n * a + x"
    and "- n * a\<^sup>2 + (x - a) * (x - a') = x\<^sup>2 - (n + 1) * a'\<^sup>2"
proof -
  show 1: "(n + 1) * a' = n * a + x"
    using n by (simp add: a'_def distrib_left) (simp add: algebra_simps)
  have "(n + 1) * a'\<^sup>2 = (n * a + x) * a'"
    using 1 by (simp add: power2_eq_square mult.assoc [symmetric])
  moreover have "(n + 1) * a' * a = (n * a + x) * a"
    using 1 by simp
  ultimately show "- n * a\<^sup>2 + (x - a) * (x - a') = x\<^sup>2 - (n + 1) * a'\<^sup>2"
    by (simp add: power2_eq_square algebra_simps)
qed

lemma stats_of_sums:
  "of_nat (length xs) * stat_avg (stats_of xs) = (\<Sum>x\<leftarrow>xs. of_int (usecs x))"
  "stat_var (stats_of xs) =
     (\<Sum>x\<leftarrow>xs. (of_int (usecs x))\<^sup>2) - of_nat (length xs) * (stat_avg (stats_of xs))\<^sup>2"
proof (induction xs)
  case (Cons x xs)
  let ?n = "of_nat (length xs) :: real"
  have n: "?n + 1 \<noteq> 0" by (simp add: add_nonneg_eq_0_iff)
  obtain mn mx avg var where r: "stats_of xs = (mn, mx, avg, var)"
    by (cases "stats_of xs")
  note step = welford_step [OF n, of avg "of_int (usecs x)"]
  { case 1
    from Cons.IH(1) step(1) show ?case
      by (simp add: r update_running_stats_sel add.commute)
  next
    case 2
    from Cons.IH(2) step(2) show ?case
      by (simp add: r update_running_stats_sel add.commute [of 1])
  }
qed simp_all

lemma sum_list_square_diff:
  fixes m :: real
  shows "(\<Sum>x\<leftarrow>xs. (f x - m)\<^sup>2) =
    (\<Sum>x\<leftarrow>xs. (f x)\<^sup>2) - 2 * m * (\<Sum>x\<leftarrow>xs. f x) + of_nat (length xs) * m\<^sup>2"
  by (induction xs) (simp_all add: power2_eq_square algebra_simps)

lemma stats_extremes_step:
  fixes a v :: real and c :: nat
  assumes "normal x" "normal mn" "normal mx" "usecs x > 0"
  defines "r \<equiv> update_running_stats x mn mx a v c"
  shows "stat_min r = (if usecs mn = 0 \<or> usecs x < usecs mn then x else mn)"
    and "stat_max r = (if usecs mx = 0 \<or> usecs mx < usecs x then x else mx)"
  using assms by (auto simp: r_def update_running_stats_def Let_def is_zero_usecs
    simp flip: normal_usecs_less)

lemma stats_extremes:
  "(\<And>x. x \<in> set xs \<Longrightarrow> normal x \<and> usecs x > 0) \<Longrightarrow>
   (if xs = [] then stat_min (stats_of xs) = init_timeval \<and> stat_max (stats_of xs) = init_timeval
    else stat_min (stats_of xs) \<in> set xs \<and> stat_max (stats_of xs) \<in> set xs \<and>
      (\<forall>y\<in>set xs. usecs (stat_min (stats_of xs)) \<le> usecs y \<and>
                  usecs y \<le> usecs (stat_max (stats_of xs))))"
proof (induction xs)
  case (Cons x xs)
  obtain mn mx avg var where r: "stats_of xs = (mn, mx, avg, var)"
    by (cases "stats_of xs")
  have nrm: "normal mn" "normal mx"
    using Cons r normal_init by (cases "xs = []"; auto)+
  have x: "normal x" "usecs x > 0" using Cons.prems by auto
  note step = stats_extremes_step [OF x(1) nrm x(2)]
  show ?case
  proof (cases "xs = []")
    case True
    then show ?thesis
      by (simp add: stats_extremes_step [OF x(1) normal_init normal_init x(2)])
  next
    case False
    with Cons have IH: "mn \<in> set xs" "mx \<in> set xs"
      "\<And>y. y \<in> set xs \<Longrightarrow> usecs mn \<le> usecs y \<and> usecs y \<le> usecs mx"
      by (auto simp: r)
    then have "usecs mn > 0" "usecs mx > 0" using Cons.prems by auto
    with IH show ?thesis by (force simp: r step)
  qed
qed simp

lemma stats_exact:
  assumes "xs \<noteq> []"
  shows "stat_avg (stats_of xs) = (\<Sum>x\<leftarrow>xs. of_int (usecs x)) / of_nat (length xs) \<and>
    stat_var (stats_of xs) = (\<Sum>x\<leftarrow>xs. (of_int (usecs x) - stat_avg (stats_of xs))\<^sup>2)"
proof -
  let ?m = "stat_avg (stats_of xs)" and ?n = "of_nat (length xs) :: real"
  have n: "?n \<noteq> 0" using assms by simp
  have S: "?n * ?m = (\<Sum>x\<leftarrow>xs. of_int (usecs x))" by (rule stats_of_sums(1))
  have "(\<Sum>x\<leftarrow>xs. (of_int (usecs x) - ?m)\<^sup>2) =
      (\<Sum>x\<leftarrow>xs. (of_int (usecs x))\<^sup>2) - 2 * ?m * (?n * ?m) + ?n * ?m\<^sup>2"
    by (simp add: sum_list_square_diff S)
  also have "\<dots> = stat_var (stats_of xs)"
    by (simp add: stats_of_sums(2) power2_eq_square)
  finally show ?thesis using S n by (simp add: field_simps)
qed

text \<open>
  In real arithmetic the on-line update is exact: after any non-empty sequence of
  samples, counted from 1, \<open>*avg\<close> is their arithmetic mean in microseconds and \<open>*var\<close> the
  sum of the squared distances from that mean. The doubles of the code round; and \<open>*var\<close>
  is not the variance \<open>gthr.h\<close> calls it, which only \<open>gt_print_stats\<close> computes from it.
\<close>

lemma welford_correct:
  assumes "xs \<noteq> []"
  shows "stat_avg (stats_of xs) = (\<Sum>x\<leftarrow>xs. of_int (usecs x)) / of_nat (length xs) \<and>
    stat_var (stats_of xs) = (\<Sum>x\<leftarrow>xs. (of_int (usecs x) - stat_avg (stats_of xs))\<^sup>2)"
  by (rule stats_exact [OF assms])

lemma welford_correct_witness:
  "let r = stats_of [\<lparr>tv_sec = 0, tv_usec = 30\<rparr>, \<lparr>tv_sec = 0, tv_usec = 10\<rparr>]
   in stat_avg r = 20 \<and> stat_var r = 200"
proof -
  let ?xs = "[\<lparr>tv_sec = 0, tv_usec = 30\<rparr>, \<lparr>tv_sec = 0, tv_usec = 10\<rparr>]"
  have "?xs \<noteq> []" by simp
  from welford_correct [OF this] have a: "stat_avg (stats_of ?xs) = 20"
    and "stat_var (stats_of ?xs) = (\<Sum>x\<leftarrow>?xs. (of_int (usecs x) - stat_avg (stats_of ?xs))\<^sup>2)"
    by (simp_all add: usecs_def)
  then have "stat_var (stats_of ?xs) = 200"
    unfolding a by (simp add: usecs_def power2_eq_square)
  with a show ?thesis by (simp add: Let_def)
qed

text \<open>
  As long as every sample is a normalised time of at least one microsecond,
  \<open>*min_time\<close> and \<open>*max_time\<close> are the least and the greatest sample. (A sample of zero
  length is forgotten by \<open>*min_time\<close>, since zero also stands for "no sample yet".)
\<close>

lemma extremes_correct:
  assumes "xs \<noteq> []" "\<And>x. x \<in> set xs \<Longrightarrow> normal x \<and> usecs x > 0"
  shows "stat_min (stats_of xs) \<in> set xs \<and> stat_max (stats_of xs) \<in> set xs \<and>
    (\<forall>y\<in>set xs. usecs (stat_min (stats_of xs)) \<le> usecs y \<and>
                usecs y \<le> usecs (stat_max (stats_of xs)))"
  using stats_extremes [of xs] assms by auto

lemma extremes_correct_witness:
  "stat_min (stats_of [\<lparr>tv_sec = 1, tv_usec = 5\<rparr>, \<lparr>tv_sec = 0, tv_usec = 7\<rparr>])
     \<in> {\<lparr>tv_sec = 1, tv_usec = 5\<rparr>, \<lparr>tv_sec = 0, tv_usec = 7\<rparr>}"
proof -
  let ?xs = "[\<lparr>tv_sec = 1, tv_usec = 5\<rparr>, \<lparr>tv_sec = 0, tv_usec = 7\<rparr>] :: timeval list"
  have "?xs \<noteq> []" "\<And>x. x \<in> set ?xs \<Longrightarrow> normal x \<and> usecs x > 0"
    by (auto simp: normal_def usecs_def)
  from extremes_correct [OF this] show ?thesis by simp
qed

text \<open>A sample of zero length does not survive as the minimum.\<close>

lemma zero_sample_forgotten:
  "stat_min (stats_of [\<lparr>tv_sec = 0, tv_usec = 5\<rparr>, \<lparr>tv_sec = 0, tv_usec = 0\<rparr>]) =
     \<lparr>tv_sec = 0, tv_usec = 5\<rparr>"
  by (simp add: update_running_stats_def Let_def timeval_is_zero_def init_timeval_def)

end
