(* ===== verification/Gthr_State.thy ===== *)
theory Gthr_State
  imports Timeval
begin

text \<open>
  The data of \<open>scheduler/gthr.h\<close> and \<open>scheduler/gthr_struct.h\<close>, and the two functions of
  \<open>scheduler/gthr.c\<close> that write the statistics of a thread: \<open>init_thread_stats\<close> and
  \<open>update_thread_state\<close>.

  \<^item> \<open>gt\<close> is \<open>struct gt\<close> with its fields; a \<open>double\<close> is a \<open>real\<close>, an \<open>int\<close> a mathematical
    integer, an \<open>unsigned long\<close> a 64-bit word.
  \<^item> \<open>sched\<close> is the process state: the globals \<open>gt_table\<close>, \<open>gt_current\<close>, \<open>get_next_thread\<close>,
    \<open>total_tickets\<close>; what the code sets up in the kernel (signal handlers, signal mask,
    interval timer); the machine (callee-saved registers, instruction pointer, stack
    memory, live stack blocks); and the values the C library will deliver (\<open>tod k\<close> is the
    result of the \<open>k\<close>-th \<open>gettimeofday\<close>, \<open>rand_seq seed k\<close> that of the \<open>k\<close>-th \<open>rand\<close> after
    \<open>srand seed\<close>).
  \<^item> A \<open>struct gt *\<close> is an index into \<open>gt_table\<close>.
\<close>

abbreviation (input) MaxGThreads :: nat where "MaxGThreads \<equiv> 5"
abbreviation (input) StackSize :: int where "StackSize \<equiv> 0x400000"
abbreviation (input) MinPriority :: int where "MinPriority \<equiv> 10"
abbreviation (input) MaxPriority :: int where "MaxPriority \<equiv> 0"

datatype e_state = Unused | Running | Ready | Blocked

record gt_context =
  rsp :: u64
  r15 :: u64
  r14 :: u64
  r13 :: u64
  r12 :: u64
  rbx :: u64
  rbp :: u64

record gt =
  ctx :: gt_context
  state :: e_state
  creation_time :: timeval
  total_running :: timeval
  total_waiting :: timeval
  last_state_change :: timeval
  run_count :: u64
  min_run_time :: timeval
  max_run_time :: timeval
  last_run_time :: timeval
  avg_run_time_us :: real
  var_run_time_us :: real
  wait_count :: u64
  min_wait_time :: timeval
  max_wait_time :: timeval
  last_wait_time :: timeval
  avg_wait_time_us :: real
  var_wait_time_us :: real
  priority :: int
  skip_count :: int
  tickets_lo :: int
  tickets_hi :: int

datatype signal = SIGALRM | SIGINT

datatype handler = Gt_alarm_handle | Gt_int_handle

datatype algorithm = Round_robin | Round_robin_prio | Lottery

record sched =
  gt_table :: "gt list"
  gt_current :: nat
  get_next_thread :: "algorithm option"
  total_tickets :: int
  handlers :: "signal \<Rightarrow> handler option"
  sigmask :: "signal set"
  itimer :: "(nat \<times> nat) option"
  regs :: gt_context
  rip :: u64
  mem :: "u64 \<Rightarrow> u64"
  blocks :: "u64 list"
  tod :: "nat \<Rightarrow> timeval"
  tod_next :: nat
  rand_seq :: "int \<Rightarrow> nat \<Rightarrow> nat"
  rand_seed :: int
  rand_next :: nat

section \<open>Library calls\<close>

definition gettimeofday :: "sched \<Rightarrow> timeval \<times> sched" where
  "gettimeofday s = (tod s (tod_next s), s\<lparr>tod_next := Suc (tod_next s)\<rparr>)"

definition SIG_BLOCK :: "signal set \<Rightarrow> sched \<Rightarrow> sched" where
  "SIG_BLOCK new s = s\<lparr>sigmask := sigmask s \<union> new\<rparr>"

definition SIG_UNBLOCK :: "signal set \<Rightarrow> sched \<Rightarrow> sched" where
  "SIG_UNBLOCK new s = s\<lparr>sigmask := sigmask s - new\<rparr>"

definition SIG_SETMASK :: "signal set \<Rightarrow> sched \<Rightarrow> sched" where
  "SIG_SETMASK m s = s\<lparr>sigmask := m\<rparr>"

section \<open>init\_thread\_stats and update\_thread\_state\<close>

definition init_thread_stats :: "nat \<Rightarrow> sched \<Rightarrow> sched" where
  "init_thread_stats i s =
     (let (t1, s1) = gettimeofday s;
          (t2, s2) = gettimeofday s1;
          th = (gt_table s ! i)
            \<lparr>creation_time := t1, last_state_change := t2,
             total_running := init_timeval, total_waiting := init_timeval,
             run_count := 0, min_run_time := init_timeval, max_run_time := init_timeval,
             last_run_time := init_timeval, avg_run_time_us := 0, var_run_time_us := 0,
             wait_count := 0, min_wait_time := init_timeval, max_wait_time := init_timeval,
             last_wait_time := init_timeval, avg_wait_time_us := 0, var_wait_time_us := 0\<rparr>
      in s2\<lparr>gt_table := (gt_table s)[i := th]\<rparr>)"

text \<open>
  What \<open>update_thread_state\<close> does to the thread itself at time \<open>now\<close> when the new state
  differs from the old one: the time since the last change is a slice of running time or of
  waiting time, depending on the state that ends.
\<close>

definition end_run_slice :: "timeval \<Rightarrow> gt \<Rightarrow> gt" where
  "end_run_slice elapsed th =
     (let c = run_count th + 1;
          (mn, mx, avg, var) = update_running_stats elapsed (min_run_time th) (max_run_time th)
                                 (avg_run_time_us th) (var_run_time_us th) (unat c)
      in th\<lparr>total_running := timeval_add (total_running th) elapsed,
            run_count := c, last_run_time := elapsed,
            min_run_time := mn, max_run_time := mx, avg_run_time_us := avg, var_run_time_us := var\<rparr>)"

definition end_wait_slice :: "timeval \<Rightarrow> gt \<Rightarrow> gt" where
  "end_wait_slice elapsed th =
     (let c = wait_count th + 1;
          (mn, mx, avg, var) = update_running_stats elapsed (min_wait_time th) (max_wait_time th)
                                 (avg_wait_time_us th) (var_wait_time_us th) (unat c)
      in th\<lparr>total_waiting := timeval_add (total_waiting th) elapsed,
            wait_count := c, last_wait_time := elapsed,
            min_wait_time := mn, max_wait_time := mx, avg_wait_time_us := avg, var_wait_time_us := var\<rparr>)"

definition change_state :: "timeval \<Rightarrow> e_state \<Rightarrow> gt \<Rightarrow> gt" where
  "change_state now new_state th =
     (if state th \<noteq> new_state
      then let elapsed = timeval_subtract now (last_state_change th);
               th' = (if state th = Running then end_run_slice elapsed th
                      else if state th = Ready \<or> state th = Blocked then end_wait_slice elapsed th
                      else th)
           in th'\<lparr>state := new_state, last_state_change := now\<rparr>
      else th)"

definition update_thread_state :: "nat \<Rightarrow> e_state \<Rightarrow> sched \<Rightarrow> sched" where
  "update_thread_state i new_state s =
     (let old_mask = sigmask s;
          s1 = SIG_BLOCK {SIGINT} s;
          (now, s2) = gettimeofday s1;
          s3 = s2\<lparr>gt_table := (gt_table s2)[i := change_state now new_state (gt_table s2 ! i)]\<rparr>
      in SIG_SETMASK old_mask s3)"

section \<open>What they leave alone\<close>

lemma change_state_sel [simp]:
  "state (change_state now new th) = new"
  "ctx (change_state now new th) = ctx th"
  "creation_time (change_state now new th) = creation_time th"
  "priority (change_state now new th) = priority th"
  "skip_count (change_state now new th) = skip_count th"
  "tickets_lo (change_state now new th) = tickets_lo th"
  "tickets_hi (change_state now new th) = tickets_hi th"
  by (simp_all add: change_state_def end_run_slice_def end_wait_slice_def Let_def split: prod.split)

lemma update_thread_state_sel [simp]:
  "gt_current (update_thread_state i new s) = gt_current s"
  "get_next_thread (update_thread_state i new s) = get_next_thread s"
  "total_tickets (update_thread_state i new s) = total_tickets s"
  "handlers (update_thread_state i new s) = handlers s"
  "sigmask (update_thread_state i new s) = sigmask s"
  "itimer (update_thread_state i new s) = itimer s"
  "regs (update_thread_state i new s) = regs s"
  "rip (update_thread_state i new s) = rip s"
  "mem (update_thread_state i new s) = mem s"
  "blocks (update_thread_state i new s) = blocks s"
  "tod (update_thread_state i new s) = tod s"
  "tod_next (update_thread_state i new s) = Suc (tod_next s)"
  "rand_seq (update_thread_state i new s) = rand_seq s"
  "rand_seed (update_thread_state i new s) = rand_seed s"
  "rand_next (update_thread_state i new s) = rand_next s"
  by (simp_all add: update_thread_state_def Let_def gettimeofday_def SIG_BLOCK_def SIG_SETMASK_def)

lemma gt_table_update_thread_state [simp]:
  "gt_table (update_thread_state i new s) =
     (gt_table s)[i := change_state (tod s (tod_next s)) new (gt_table s ! i)]"
  by (simp add: update_thread_state_def Let_def gettimeofday_def SIG_BLOCK_def SIG_SETMASK_def)

lemma init_thread_stats_sel [simp]:
  "gt_current (init_thread_stats i s) = gt_current s"
  "get_next_thread (init_thread_stats i s) = get_next_thread s"
  "total_tickets (init_thread_stats i s) = total_tickets s"
  "handlers (init_thread_stats i s) = handlers s"
  "sigmask (init_thread_stats i s) = sigmask s"
  "itimer (init_thread_stats i s) = itimer s"
  "regs (init_thread_stats i s) = regs s"
  "rip (init_thread_stats i s) = rip s"
  "mem (init_thread_stats i s) = mem s"
  "blocks (init_thread_stats i s) = blocks s"
  "tod (init_thread_stats i s) = tod s"
  "rand_seq (init_thread_stats i s) = rand_seq s"
  "length (gt_table (init_thread_stats i s)) = length (gt_table s)"
  by (simp_all add: init_thread_stats_def Let_def gettimeofday_def)

section \<open>The part of a thread that scheduling decides on\<close>

record view =
  v_state :: e_state
  v_priority :: int
  v_skip :: int
  v_lo :: int
  v_hi :: int

definition view :: "gt \<Rightarrow> view" where
  "view th = \<lparr>v_state = state th, v_priority = priority th, v_skip = skip_count th,
              v_lo = tickets_lo th, v_hi = tickets_hi th\<rparr>"

lemma view_change_state [simp]: "view (change_state now new th) = (view th)\<lparr>v_state := new\<rparr>"
  by (simp add: view_def)

lemma view_init_thread_stats [simp]:
  "i < length (gt_table s) \<Longrightarrow>
   view (gt_table (init_thread_stats i s) ! j) = view (gt_table s ! j)"
  by (cases "i = j") (simp_all add: init_thread_stats_def Let_def gettimeofday_def view_def)

section \<open>Program start\<close>

text \<open>Static storage is zero before \<open>main\<close> runs.\<close>

definition zero_context :: gt_context where
  "zero_context = \<lparr>rsp = 0, r15 = 0, r14 = 0, r13 = 0, r12 = 0, rbx = 0, rbp = 0\<rparr>"

definition zero_thread :: gt where
  "zero_thread = \<lparr>ctx = zero_context, state = Unused, creation_time = init_timeval,
     total_running = init_timeval, total_waiting = init_timeval, last_state_change = init_timeval,
     run_count = 0, min_run_time = init_timeval, max_run_time = init_timeval,
     last_run_time = init_timeval, avg_run_time_us = 0, var_run_time_us = 0,
     wait_count = 0, min_wait_time = init_timeval, max_wait_time = init_timeval,
     last_wait_time = init_timeval, avg_wait_time_us = 0, var_wait_time_us = 0,
     priority = 0, skip_count = 0, tickets_lo = 0, tickets_hi = 0\<rparr>"

definition program_start ::
  "(nat \<Rightarrow> timeval) \<Rightarrow> (int \<Rightarrow> nat \<Rightarrow> nat) \<Rightarrow> gt_context \<Rightarrow> u64 \<Rightarrow> (u64 \<Rightarrow> u64) \<Rightarrow> sched" where
  "program_start clock rands c ip m =
     \<lparr>gt_table = replicate MaxGThreads zero_thread, gt_current = 0, get_next_thread = None,
      total_tickets = 0, handlers = (\<lambda>_. None), sigmask = {}, itimer = None,
      regs = c, rip = ip, mem = m, blocks = [], tod = clock, tod_next = 0,
      rand_seq = rands, rand_seed = 1, rand_next = 0\<rparr>"

text \<open>A small state the concrete instances below are built from.\<close>

definition sample_sched :: "gt list \<Rightarrow> nat \<Rightarrow> sched" where
  "sample_sched tab cur =
     (program_start (\<lambda>k. \<lparr>tv_sec = int k, tv_usec = 0\<rparr>) (\<lambda>_ k. 5 * k + 13) zero_context 0 (\<lambda>_. 77))
       \<lparr>gt_table := tab, gt_current := cur, total_tickets := 36, get_next_thread := Some Round_robin\<rparr>"

definition in_state :: "e_state \<Rightarrow> int \<Rightarrow> gt" where
  "in_state st prio = zero_thread\<lparr>state := st, priority := prio\<rparr>"

definition sample_table :: "gt list" where
  "sample_table = [in_state Running 0, in_state Ready 3, in_state Ready 0, in_state Unused 0, in_state Blocked 6]"

lemma sample_sel [simp]:
  "gt_table (sample_sched tab cur) = tab" "gt_current (sample_sched tab cur) = cur"
  "total_tickets (sample_sched tab cur) = 36" "get_next_thread (sample_sched tab cur) = Some Round_robin"
  "mem (sample_sched tab cur) a = 77" "regs (sample_sched tab cur) = zero_context"
  "tod (sample_sched tab cur) k = \<lparr>tv_sec = int k, tv_usec = 0\<rparr>" "tod_next (sample_sched tab cur) = 0"
  "state (in_state st prio) = st" "priority (in_state st prio) = prio" "skip_count (in_state st prio) = 0"
  "ctx (in_state st prio) = zero_context"
  by (simp_all add: sample_sched_def program_start_def in_state_def zero_thread_def)

lemma sample_table_sel [simp]:
  "length sample_table = 5" "sample_table ! 0 = in_state Running 0" "sample_table ! 1 = in_state Ready 3"
  "sample_table ! Suc 0 = in_state Ready 3" "sample_table ! 2 = in_state Ready 0"
  "sample_table ! 3 = in_state Unused 0" "sample_table ! 4 = in_state Blocked 6"
  by (simp_all add: sample_table_def)

section \<open>Time accounting\<close>

definition accounted :: "gt \<Rightarrow> int" where
  "accounted th = usecs (total_running th) + usecs (total_waiting th)"

text \<open>
  Time accounting is exact: whenever \<open>update_thread_state\<close> ends a state other
  than \<open>Unused\<close>, the microseconds since the last change are added once to running or
  waiting time, so total running time plus total waiting time minus the time of the last
  change stays constant.
\<close>

lemma time_accounting:
  assumes "i < length (gt_table s)" "state (gt_table s ! i) \<noteq> Unused"
  shows "accounted (gt_table (update_thread_state i new s) ! i)
           - usecs (last_state_change (gt_table (update_thread_state i new s) ! i)) =
         accounted (gt_table s ! i) - usecs (last_state_change (gt_table s ! i))"
  using assms
  by (cases "state (gt_table s ! i)")
     (auto simp: change_state_def end_run_slice_def end_wait_slice_def accounted_def Let_def
           split: prod.split)

lemma time_accounting_witness:
  "let th = gt_table (update_thread_state 0 Ready (sample_sched sample_table 0)) ! 0
   in accounted th - usecs (last_state_change th) = 0"
proof -
  have "0 < length (gt_table (sample_sched sample_table 0))"
    "state (gt_table (sample_sched sample_table 0) ! 0) \<noteq> Unused" by simp_all
  from time_accounting [OF this, of Ready] show ?thesis
    by (simp add: accounted_def in_state_def zero_thread_def)
qed

end
