(* ===== verification/Gthr_Pick.thy ===== *)
theory Gthr_Pick
  imports Gthr_State
begin

text \<open>
  The three scheduling policies of \<open>scheduler/gthr.c\<close>: \<open>round_robin\<close>, \<open>round_robin_prio\<close>
  and \<open>lottery\<close>. Each takes the index \<open>*thread\<close> starts at and returns the boolean result,
  the index left in \<open>*thread\<close> and the new state; \<open>None\<close> is a loop that does not end.

  The first two are loops over the ring of slots. They are compared with one lap over an
  explicit list of slots, which gives their full behaviour, and for the priority policy a
  potential bounds how long a ready thread can be passed over.
\<close>

section \<open>The ring of slots\<close>

text \<open>\<open>++(*thread) == &gt_table[MaxGThreads]\<close> wraps to the first slot.\<close>

definition advance :: "nat \<Rightarrow> nat" where
  "advance p = (if Suc p = MaxGThreads then 0 else Suc p)"

primrec orbit :: "nat \<Rightarrow> nat \<Rightarrow> nat list" where
  "orbit p 0 = []"
| "orbit p (Suc n) = advance p # orbit (advance p) n"

definition steps :: "nat \<Rightarrow> nat \<Rightarrow> nat" where
  "steps p t = (if p < t then t - p else MaxGThreads - p + t)"

lemma advance_less [simp]: "p < 5 \<Longrightarrow> advance p < 5"
  by (simp add: advance_def)

lemma steps_advance:
  "p < 5 \<Longrightarrow> t < 5 \<Longrightarrow> advance p = t \<Longrightarrow> steps p t = 1"
  "p < 5 \<Longrightarrow> t < 5 \<Longrightarrow> advance p \<noteq> t \<Longrightarrow> steps p t = Suc (steps (advance p) t)"
  by (auto simp: steps_def advance_def split: if_splits)

lemma steps_self [simp]: "p < 5 \<Longrightarrow> steps p p = 5"
  by (simp add: steps_def)

lemma steps_pos: "p < 5 \<Longrightarrow> t < 5 \<Longrightarrow> 0 < steps p t"
  by (auto simp: steps_def)

lemma steps_le: "p < 5 \<Longrightarrow> t < 5 \<Longrightarrow> steps p t \<le> 5"
  by (auto simp: steps_def)

lemma set_orbit_lap: "p < 5 \<Longrightarrow> set (orbit p 5) = {..<5}"
  by (auto simp: eval_nat_numeral advance_def less_Suc_eq)

section \<open>The policies\<close>

abbreviation thread_state :: "sched \<Rightarrow> nat \<Rightarrow> e_state" where
  "thread_state s i \<equiv> state (gt_table s ! i)"

partial_function (option) round_robin :: "nat \<Rightarrow> sched \<Rightarrow> (bool \<times> nat \<times> sched) res" where
  "round_robin p s =
     (if thread_state s p = Ready then ret (True, p, s)
      else let p' = advance p in
        if thread_state s p' = Blocked then round_robin p' s
        else if p' = gt_current s then ret (True, p', s)
        else round_robin p' s)"

definition set_skip :: "nat \<Rightarrow> int \<Rightarrow> sched \<Rightarrow> sched" where
  "set_skip i k s = s\<lparr>gt_table := (gt_table s)[i := (gt_table s ! i)\<lparr>skip_count := k\<rparr>]\<rparr>"

definition eligible :: "gt \<Rightarrow> bool" where
  "eligible th \<longleftrightarrow> state th = Ready \<and> priority th - skip_count th \<le> MaxPriority"

partial_function (option) round_robin_prio :: "nat \<Rightarrow> sched \<Rightarrow> (bool \<times> nat \<times> sched) res" where
  "round_robin_prio p s =
     (let p' = advance p in
      if thread_state s p' = Blocked then round_robin_prio p' s
      else if eligible (gt_table s ! p') then ret (True, p', set_skip p' 0 s)
      else let s' = set_skip p' (skip_count (gt_table s ! p') + 1) s in
        if p' = gt_current s then ret (True, p', s')
        else round_robin_prio p' s')"

definition rand :: "sched \<Rightarrow> nat \<times> sched" where
  "rand s = (rand_seq s (rand_seed s) (rand_next s), s\<lparr>rand_next := Suc (rand_next s)\<rparr>)"

function lottery_scan :: "gt list \<Rightarrow> int \<Rightarrow> nat \<Rightarrow> nat option" where
  "lottery_scan tab winning_ticket p =
     (if p < MaxGThreads
      then if state (tab ! p) = Blocked then lottery_scan tab winning_ticket (Suc p)
           else if (state (tab ! p) = Ready \<or> state (tab ! p) = Running) \<and>
                   winning_ticket \<ge> tickets_lo (tab ! p) \<and> winning_ticket \<le> tickets_hi (tab ! p)
           then Some p
           else lottery_scan tab winning_ticket (Suc p)
      else None)"
  by pat_completeness auto
termination
  by (relation "measure (\<lambda>(tab, w, p). MaxGThreads - p)") auto

declare lottery_scan.simps [simp del]

definition lottery :: "nat \<Rightarrow> sched \<Rightarrow> (bool \<times> nat \<times> sched) res" where
  "lottery p s =
     (let (r, s1) = rand s in
      if total_tickets s1 = 0 then fail DivByZero
      else case lottery_scan (gt_table s1) (int r mod total_tickets s1) 0 of
             Some q \<Rightarrow> ret (True, q, s1)
           | None \<Rightarrow> round_robin p s1)"

text \<open>The call through the function pointer \<open>get_next_thread\<close>.\<close>

fun next_thread :: "algorithm option \<Rightarrow> nat \<Rightarrow> sched \<Rightarrow> (bool \<times> nat \<times> sched) res" where
  "next_thread None p s = fail NullDeref"
| "next_thread (Some Round_robin) p s = round_robin p s"
| "next_thread (Some Round_robin_prio) p s = round_robin_prio p s"
| "next_thread (Some Lottery) p s = lottery p s"

section \<open>round\_robin\<close>

lemma round_robin_ready [simp]: "thread_state s p = Ready \<Longrightarrow> round_robin p s = ret (True, p, s)"
  by (simp add: round_robin.simps)

lemma round_robin_lap:
  assumes "p < 5" "gt_current s < 5" "thread_state s p \<noteq> Ready"
    and "n = steps p (gt_current s)"
  shows "round_robin p s =
    (case find (\<lambda>i. thread_state s i = Ready) (orbit p n) of
       Some i \<Rightarrow> ret (True, i, s)
     | None \<Rightarrow> if thread_state s (gt_current s) = Blocked then round_robin (gt_current s) s
              else ret (True, gt_current s, s))"
  using assms
proof (induction n arbitrary: p)
  case 0
  then show ?case using steps_pos [of p "gt_current s"] by simp
next
  case (Suc n)
  let ?q = "advance p"
  show ?case
  proof (cases "?q = gt_current s")
    case True
    then have "n = 0" using Suc.prems steps_advance(1) [of p "gt_current s"] by simp
    with True Suc.prems(1-3) show ?thesis
      by (subst round_robin.simps) (simp add: Let_def)
  next
    case False
    then have n: "n = steps ?q (gt_current s)"
      using Suc.prems steps_advance(2) [of p "gt_current s"] by simp
    show ?thesis
    proof (cases "thread_state s ?q = Ready")
      case True
      then show ?thesis using False Suc.prems(1-3)
        by (subst round_robin.simps) (simp add: Let_def)
    next
      case nr: False
      have "round_robin p s = round_robin ?q s"
        using False Suc.prems(1-3) by (subst round_robin.simps) (simp add: Let_def)
      then show ?thesis using nr Suc.IH [OF _ Suc.prems(2) nr n] Suc.prems(1) by simp
    qed
  qed
qed

lemma round_robin_stuck:
  assumes nr: "\<forall>i<5. thread_state s i \<noteq> Ready" and b: "thread_state s (gt_current s) = Blocked"
    and p: "p < 5"
  shows "round_robin p s = None"
proof (rule ccontr)
  assume "round_robin p s \<noteq> None"
  then obtain r where "round_robin p s = Some r" by blast
  then have "(\<forall>i<5. thread_state s i \<noteq> Ready) \<longrightarrow> thread_state s (gt_current s) = Blocked \<longrightarrow>
      p < 5 \<longrightarrow> False"
  proof (rule round_robin.raw_induct [rotated])
    fix f :: "nat \<Rightarrow> sched \<Rightarrow> (bool \<times> nat \<times> sched) res" and p s r
    assume IH: "\<And>p s r. f p s = Some r \<Longrightarrow>
        (\<forall>i<5. thread_state s i \<noteq> Ready) \<longrightarrow> thread_state s (gt_current s) = Blocked \<longrightarrow> p < 5 \<longrightarrow> False"
      and eq: "(if thread_state s p = Ready then ret (True, p, s)
         else let p' = advance p in
           if thread_state s p' = Blocked then f p' s
           else if p' = gt_current s then ret (True, p', s) else f p' s) = Some r"
    show "(\<forall>i<5. thread_state s i \<noteq> Ready) \<longrightarrow> thread_state s (gt_current s) = Blocked \<longrightarrow> p < 5 \<longrightarrow> False"
    proof (intro impI)
      assume H: "\<forall>i<5. thread_state s i \<noteq> Ready" "thread_state s (gt_current s) = Blocked" "p < 5"
      then have "f (advance p) s = Some r"
        using eq by (auto simp: Let_def split: if_splits)
      from IH [OF this] H show False by simp
    qed
  qed
  with assms show False by blast
qed

lemma find_orbit_None:
  "p < 5 \<Longrightarrow> find P (orbit p 5) = None \<longleftrightarrow> (\<forall>i<5. \<not> P i)"
  by (simp add: find_None_iff set_orbit_lap Ball_def)

lemma find_orbit_Some: "p < 5 \<Longrightarrow> find P (orbit p 5) = Some i \<Longrightarrow> i < 5 \<and> P i"
  by (metis find_Some_iff nth_mem set_orbit_lap lessThan_iff)

text \<open>
  Claim C9. \<open>round_robin\<close>, started as \<open>gt_schedule\<close> starts it, keeps a current thread
  that is ready; otherwise it picks the first ready thread in ring order after the current
  one; with none ready it falls back to the current thread, unless that one is blocked: then
  the loop never ends.
\<close>

theorem round_robin_correct:
  assumes "gt_current s < 5"
  shows "round_robin (gt_current s) s =
    (if thread_state s (gt_current s) = Ready then ret (True, gt_current s, s)
     else case find (\<lambda>i. thread_state s i = Ready) (orbit (gt_current s) 5) of
            Some i \<Rightarrow> ret (True, i, s)
          | None \<Rightarrow> if thread_state s (gt_current s) = Blocked then None
                   else ret (True, gt_current s, s))"
proof (cases "find (\<lambda>i. thread_state s i = Ready) (orbit (gt_current s) 5)")
  case None
  then have nr: "\<forall>i<5. thread_state s i \<noteq> Ready" by (simp add: find_orbit_None assms)
  show ?thesis
  proof (cases "thread_state s (gt_current s) = Blocked")
    case True
    then show ?thesis using None nr assms round_robin_stuck [OF nr True assms] by simp
  next
    case False
    have "round_robin (gt_current s) s = ret (True, gt_current s, s)"
      by (subst round_robin_lap [where n = 5]) (use None nr False assms in simp_all)
    then show ?thesis using None nr assms False by simp
  qed
next
  case (Some i)
  then show ?thesis using assms
    by (cases "thread_state s (gt_current s) = Ready") (simp, subst round_robin_lap [where n = 5], simp_all)
qed

theorem round_robin_correct_witness:
  "round_robin 0 (sample_sched sample_table 0) = ret (True, 1, sample_sched sample_table 0)"
  using round_robin_correct [of "sample_sched sample_table 0"]
  by (simp add: eval_nat_numeral advance_def)

section \<open>round\_robin\_prio\<close>

text \<open>One lap over a list of slots: the first eligible slot, and the table it leaves.\<close>

fun prio_lap :: "nat list \<Rightarrow> gt list \<Rightarrow> nat option \<times> gt list" where
  "prio_lap [] tab = (None, tab)"
| "prio_lap (i # is) tab =
     (if state (tab ! i) = Blocked then prio_lap is tab
      else if eligible (tab ! i) then (Some i, tab[i := (tab ! i)\<lparr>skip_count := 0\<rparr>])
      else prio_lap is (tab[i := (tab ! i)\<lparr>skip_count := skip_count (tab ! i) + 1\<rparr>]))"

lemma set_skip_sel [simp]:
  "gt_current (set_skip i k s) = gt_current s"
  "gt_table (set_skip i k s) = (gt_table s)[i := (gt_table s ! i)\<lparr>skip_count := k\<rparr>]"
  by (simp_all add: set_skip_def)

lemma set_skip_state [simp]: "thread_state (set_skip i k s) j = thread_state s j"
  by (cases "i = j"; cases "i < length (gt_table s)") (simp_all add: list_update_beyond)

lemma round_robin_prio_lap:
  assumes "p < 5" "gt_current s < 5" "length (gt_table s) = 5"
    "thread_state s (gt_current s) \<noteq> Blocked" "n = steps p (gt_current s)"
  shows "round_robin_prio p s =
    (case prio_lap (orbit p n) (gt_table s) of
       (r, tab) \<Rightarrow> ret (True, case r of Some i \<Rightarrow> i | None \<Rightarrow> gt_current s, s\<lparr>gt_table := tab\<rparr>))"
  using assms
proof (induction n arbitrary: p s)
  case 0
  then show ?case using steps_pos [of p "gt_current s"] by simp
next
  case (Suc n)
  let ?q = "advance p" and ?c = "gt_current s"
  show ?case
  proof (cases "?q = ?c")
    case True
    then have "n = 0" using Suc.prems steps_advance(1) [of p ?c] by simp
    with True Suc.prems(1-4) show ?thesis
      by (subst round_robin_prio.simps) (simp add: Let_def set_skip_def)
  next
    case False
    then have n: "n = steps ?q ?c" using Suc.prems steps_advance(2) [of p ?c] by simp
    let ?s' = "set_skip ?q (skip_count (gt_table s ! ?q) + 1) s"
    have q: "?q < 5" using Suc.prems by simp
    have 1: "round_robin_prio ?q s = (case prio_lap (orbit ?q n) (gt_table s) of
       (r, tab) \<Rightarrow> ret (True, case r of Some i \<Rightarrow> i | None \<Rightarrow> ?c, s\<lparr>gt_table := tab\<rparr>))"
      by (rule Suc.IH [OF q Suc.prems(2-4) n])
    have 2: "round_robin_prio ?q ?s' = (case prio_lap (orbit ?q n) (gt_table ?s') of
       (r, tab) \<Rightarrow> ret (True, case r of Some i \<Rightarrow> i | None \<Rightarrow> ?c, ?s'\<lparr>gt_table := tab\<rparr>))"
      by (rule Suc.IH [of ?q ?s', unfolded set_skip_sel(1)]) (use q n Suc.prems(2-4) in simp_all)
    show ?thesis
      using False 1 2 Suc.prems(1-4)
      by (subst round_robin_prio.simps) (simp add: Let_def set_skip_def split: prod.split)
  qed
qed

text \<open>
  Claim C8. With a current thread that is not blocked, \<open>round_robin_prio\<close> returns after
  one lap of the ring: it picks the first ready thread whose skip count has reached its
  priority and clears that count, adds one to the skip count of every slot it passes that is
  not blocked, and picks the current thread if no slot is eligible.
\<close>

theorem round_robin_prio_correct:
  assumes "gt_current s < 5" "length (gt_table s) = 5" "thread_state s (gt_current s) \<noteq> Blocked"
  shows "round_robin_prio (gt_current s) s =
    (case prio_lap (orbit (gt_current s) 5) (gt_table s) of
       (r, tab) \<Rightarrow> ret (True, case r of Some i \<Rightarrow> i | None \<Rightarrow> gt_current s, s\<lparr>gt_table := tab\<rparr>))"
  by (rule round_robin_prio_lap) (simp_all add: assms)

theorem round_robin_prio_correct_witness:
  "\<exists>s'. round_robin_prio 0 (sample_sched sample_table 0) = ret (True, 2, s') \<and>
     skip_count (gt_table s' ! 1) = 1 \<and> skip_count (gt_table s' ! 2) = 0"
proof -
  have "prio_lap (orbit 0 5) sample_table = (Some 2, sample_table
      [1 := (in_state Ready 3)\<lparr>skip_count := 1\<rparr>, 2 := (in_state Ready 0)\<lparr>skip_count := 0\<rparr>])"
    by (simp add: eval_nat_numeral advance_def eligible_def sample_table_def)
  then show ?thesis
    using round_robin_prio_correct [of "sample_sched sample_table 0"] by simp
qed

text \<open>
  The potential of a ready thread \<open>t\<close>: five times the laps it still has to be skipped, plus
  its distance from the cursor. Every turn of the loop that does not pick \<open>t\<close> lowers it.
\<close>

definition potential :: "nat \<Rightarrow> nat \<Rightarrow> sched \<Rightarrow> nat" where
  "potential t p s =
     5 * nat (priority (gt_table s ! t) - skip_count (gt_table s ! t)) + steps p t"

text \<open>All a policy changes: skip counts, and the number of \<open>rand\<close> values drawn.\<close>

definition skips_only :: "sched \<Rightarrow> sched \<Rightarrow> bool" where
  "skips_only s s' \<longleftrightarrow>
     s' = s\<lparr>gt_table := gt_table s', rand_next := rand_next s'\<rparr> \<and>
     length (gt_table s') = length (gt_table s) \<and>
     (\<forall>i<length (gt_table s). \<exists>k. gt_table s' ! i = (gt_table s ! i)\<lparr>skip_count := k\<rparr> \<and>
        (0 \<le> skip_count (gt_table s ! i) \<longrightarrow> 0 \<le> k))"

lemma same_skip: "\<exists>k. th = th\<lparr>skip_count := k\<rparr> \<and> (0 \<le> skip_count th \<longrightarrow> 0 \<le> k)"
  by (rule exI [of _ "skip_count th"]) simp

lemma skips_only_refl [simp]: "skips_only s s"
  by (simp add: skips_only_def same_skip)

lemma skips_only_trans:
  assumes "skips_only s s'" "skips_only s' s''"
  shows "skips_only s s''"
  unfolding skips_only_def
proof (intro conjI allI impI)
  have "s'' = (s\<lparr>gt_table := gt_table s', rand_next := rand_next s'\<rparr>)
      \<lparr>gt_table := gt_table s'', rand_next := rand_next s''\<rparr>"
    using assms unfolding skips_only_def by metis
  then show "s'' = s\<lparr>gt_table := gt_table s'', rand_next := rand_next s''\<rparr>" by simp
  show "length (gt_table s'') = length (gt_table s)" using assms by (simp add: skips_only_def)
  fix i assume i: "i < length (gt_table s)"
  obtain k where k: "gt_table s' ! i = (gt_table s ! i)\<lparr>skip_count := k\<rparr>"
    "0 \<le> skip_count (gt_table s ! i) \<longrightarrow> 0 \<le> k"
    using assms(1) i unfolding skips_only_def by blast
  obtain k' where k': "gt_table s'' ! i = (gt_table s' ! i)\<lparr>skip_count := k'\<rparr>"
    "0 \<le> skip_count (gt_table s' ! i) \<longrightarrow> 0 \<le> k'"
    using assms i unfolding skips_only_def by metis
  from k k' show "\<exists>k. gt_table s'' ! i = (gt_table s ! i)\<lparr>skip_count := k\<rparr> \<and>
      (0 \<le> skip_count (gt_table s ! i) \<longrightarrow> 0 \<le> k)"
    by (intro exI [of _ k']) simp
qed

lemma skips_only_set_skip [simp]:
  assumes "0 \<le> skip_count (gt_table s ! i) \<longrightarrow> 0 \<le> k"
  shows "skips_only s (set_skip i k s)"
  unfolding skips_only_def
proof (intro conjI allI impI)
  fix j assume "j < length (gt_table s)"
  then show "\<exists>k'. gt_table (set_skip i k s) ! j = (gt_table s ! j)\<lparr>skip_count := k'\<rparr> \<and>
      (0 \<le> skip_count (gt_table s ! j) \<longrightarrow> 0 \<le> k')"
    using assms by (cases "i = j") (auto intro: same_skip)
qed (simp_all add: set_skip_def)

lemma skips_only_inc:
  "skips_only (set_skip i (skip_count (gt_table s ! i) + 1) s) s' \<Longrightarrow> skips_only s s'"
  by (erule skips_only_trans [rotated]) (rule skips_only_set_skip, simp)

lemma skips_only_sel:
  assumes "skips_only s s'"
  shows "gt_current s' = gt_current s" "get_next_thread s' = get_next_thread s"
    "total_tickets s' = total_tickets s" "handlers s' = handlers s" "sigmask s' = sigmask s"
    "itimer s' = itimer s" "regs s' = regs s" "rip s' = rip s" "mem s' = mem s"
    "blocks s' = blocks s" "tod s' = tod s" "tod_next s' = tod_next s"
    "length (gt_table s') = length (gt_table s)"
proof -
  obtain tab k where s': "s' = s\<lparr>gt_table := tab, rand_next := k\<rparr>"
    using assms unfolding skips_only_def by blast
  show "gt_current s' = gt_current s" "get_next_thread s' = get_next_thread s"
    "total_tickets s' = total_tickets s" "handlers s' = handlers s" "sigmask s' = sigmask s"
    "itimer s' = itimer s" "regs s' = regs s" "rip s' = rip s" "mem s' = mem s"
    "blocks s' = blocks s" "tod s' = tod s" "tod_next s' = tod_next s"
    by (simp_all add: s')
  show "length (gt_table s') = length (gt_table s)"
    using assms by (simp add: skips_only_def)
qed

lemma skips_only_thread:
  assumes "skips_only s s'" "i < length (gt_table s)"
  shows "thread_state s' i = thread_state s i" "priority (gt_table s' ! i) = priority (gt_table s ! i)"
    "ctx (gt_table s' ! i) = ctx (gt_table s ! i)"
    "tickets_lo (gt_table s' ! i) = tickets_lo (gt_table s ! i)"
    "tickets_hi (gt_table s' ! i) = tickets_hi (gt_table s ! i)"
    "0 \<le> skip_count (gt_table s ! i) \<Longrightarrow> 0 \<le> skip_count (gt_table s' ! i)"
proof -
  obtain k where "gt_table s' ! i = (gt_table s ! i)\<lparr>skip_count := k\<rparr>"
    "0 \<le> skip_count (gt_table s ! i) \<longrightarrow> 0 \<le> k"
    using assms unfolding skips_only_def by blast
  then show "thread_state s' i = thread_state s i"
    "priority (gt_table s' ! i) = priority (gt_table s ! i)"
    "ctx (gt_table s' ! i) = ctx (gt_table s ! i)"
    "tickets_lo (gt_table s' ! i) = tickets_lo (gt_table s ! i)"
    "tickets_hi (gt_table s' ! i) = tickets_hi (gt_table s ! i)"
    "0 \<le> skip_count (gt_table s ! i) \<Longrightarrow> 0 \<le> skip_count (gt_table s' ! i)"
    by simp_all
qed

lemma round_robin_prio_progress:
  assumes "p < 5" "t < 5" "length (gt_table s) = 5" "thread_state s t = Ready"
  shows "\<exists>p' s'. round_robin_prio p s = ret (True, p', s') \<and> p' < 5 \<and> skips_only s s' \<and>
    (p' = t \<or> potential t p' s' < potential t p s)"
  using assms
proof (induction "potential t p s" arbitrary: p s rule: less_induct)
  case less
  let ?q = "advance p" and ?s1 = "set_skip (advance p) (skip_count (gt_table s ! advance p) + 1) s"
  have q: "?q < 5" using less.prems by simp
  have near: "?q \<noteq> t \<Longrightarrow> potential t ?q s < potential t p s"
    using steps_advance(2) [of p t] less.prems by (simp add: potential_def)
  consider (blocked) "thread_state s ?q = Blocked"
    | (pick) "thread_state s ?q \<noteq> Blocked" "eligible (gt_table s ! ?q)"
    | (skip) "thread_state s ?q \<noteq> Blocked" "\<not> eligible (gt_table s ! ?q)" by blast
  then show ?case
  proof cases
    case blocked
    then have "?q \<noteq> t" using less.prems by auto
    from near [OF this] obtain p' s' where "round_robin_prio ?q s = ret (True, p', s')" "p' < 5"
      "skips_only s s'" "p' = t \<or> potential t p' s' < potential t ?q s"
      using less.hyps [of ?q s] less.prems q by blast
    then show ?thesis
      using blocked near [OF \<open>?q \<noteq> t\<close>] by (subst round_robin_prio.simps) (auto simp: Let_def)
  next
    case pick
    then have "round_robin_prio p s = ret (True, ?q, set_skip ?q 0 s)"
      by (subst round_robin_prio.simps) (simp add: Let_def)
    moreover have "?q = t \<or> potential t ?q (set_skip ?q 0 s) < potential t p s"
      using near by (cases "?q = t") (simp_all add: potential_def)
    ultimately show ?thesis using q by auto
  next
    case skip
    have dec: "potential t ?q ?s1 < potential t p s"
    proof (cases "?q = t")
      case True
      then have "0 < priority (gt_table s ! t) - skip_count (gt_table s ! t)"
        using skip less.prems by (simp add: eligible_def)
      then show ?thesis
        using True less.prems steps_advance(1) [of p t] by (simp add: potential_def)
    next
      case False
      then show ?thesis using near by (simp add: potential_def)
    qed
    have eq: "round_robin_prio p s =
        (if ?q = gt_current s then ret (True, ?q, ?s1) else round_robin_prio ?q ?s1)"
      using skip by (subst round_robin_prio.simps) (simp add: Let_def)
    have "thread_state ?s1 t = Ready" "length (gt_table ?s1) = 5" using less.prems q by simp_all
    from less.hyps [OF dec q less.prems(2) this(2,1)]
    show ?thesis using eq dec q by (auto intro: skips_only_inc)
  qed
qed

lemma round_robin_progress:
  assumes "p < 5" "t < 5" "thread_state s t = Ready" "thread_state s p \<noteq> Ready"
  shows "\<exists>p'. round_robin p s = ret (True, p', s) \<and> p' < 5 \<and> (p' = t \<or> steps p' t < steps p t)"
  using assms
proof (induction "steps p t" arbitrary: p rule: less_induct)
  case less
  let ?q = "advance p"
  have q: "?q < 5" using less.prems by simp
  have near: "?q \<noteq> t \<Longrightarrow> steps ?q t < steps p t"
    using steps_advance(2) [of p t] less.prems by simp
  consider (ready) "thread_state s ?q = Ready"
    | (home) "thread_state s ?q \<noteq> Ready" "thread_state s ?q \<noteq> Blocked" "?q = gt_current s"
    | (on) "thread_state s ?q \<noteq> Ready" "thread_state s ?q = Blocked \<or> ?q \<noteq> gt_current s"
    by blast
  then show ?case
  proof cases
    case ready
    then have "round_robin p s = ret (True, ?q, s)"
      using less.prems by (subst round_robin.simps) (auto simp: Let_def)
    then show ?thesis using near q by auto
  next
    case home
    then have "round_robin p s = ret (True, ?q, s)"
      using less.prems by (subst round_robin.simps) (auto simp: Let_def)
    then show ?thesis using near q by auto
  next
    case on
    then have eq: "round_robin p s = round_robin ?q s"
      using less.prems by (subst round_robin.simps) (auto simp: Let_def)
    have "?q \<noteq> t" using on less.prems by auto
    from less.hyps [OF near [OF this] q less.prems(2,3) on(1)] show ?thesis
      using near [OF \<open>?q \<noteq> t\<close>] eq by auto
  qed
qed

section \<open>What holds whenever a policy returns\<close>

text \<open>
  The thread picked is ready or running, or else it is the current one; it is never blocked.
\<close>

definition picked :: "sched \<Rightarrow> nat \<Rightarrow> bool" where
  "picked s p \<longleftrightarrow> thread_state s p \<noteq> Blocked \<and>
     (thread_state s p = Ready \<or> thread_state s p = Running \<or> p = gt_current s)"

lemma picked_set_skip [simp]: "picked (set_skip i k s) p = picked s p"
  by (simp only: picked_def set_skip_state set_skip_sel(1))

lemma round_robin_ok:
  assumes "round_robin p s = Some r"
  shows "\<exists>p'. r = Inr (True, p', s) \<and> (p < 5 \<longrightarrow> p' < 5) \<and> picked s p'"
proof (rule round_robin.raw_induct
    [where P = "\<lambda>p s r. \<exists>p'. r = Inr (True, p', s) \<and> (p < 5 \<longrightarrow> p' < 5) \<and> picked s p'", OF _ assms])
  fix f :: "nat \<Rightarrow> sched \<Rightarrow> (bool \<times> nat \<times> sched) res" and p s r
  assume IH: "\<And>p s r. f p s = Some r \<Longrightarrow> \<exists>p'. r = Inr (True, p', s) \<and> (p < 5 \<longrightarrow> p' < 5) \<and> picked s p'"
    and eq: "(if thread_state s p = Ready then ret (True, p, s)
       else let p' = advance p in
         if thread_state s p' = Blocked then f p' s
         else if p' = gt_current s then ret (True, p', s) else f p' s) = Some r"
  show "\<exists>p'. r = Inr (True, p', s) \<and> (p < 5 \<longrightarrow> p' < 5) \<and> picked s p'"
    using eq IH [of "advance p" s r] advance_less [of p]
    by (auto simp: Let_def ret_def picked_def simp del: advance_less split: if_splits)
qed

lemma round_robin_prio_ok:
  assumes "round_robin_prio p s = Some r"
  shows "\<exists>p' s'. r = Inr (True, p', s') \<and> skips_only s s' \<and> (p < 5 \<longrightarrow> p' < 5) \<and> picked s p'"
proof (rule round_robin_prio.raw_induct
    [where P = "\<lambda>p s r. \<exists>p' s'. r = Inr (True, p', s') \<and> skips_only s s' \<and> (p < 5 \<longrightarrow> p' < 5) \<and> picked s p'",
     OF _ assms])
  fix f :: "nat \<Rightarrow> sched \<Rightarrow> (bool \<times> nat \<times> sched) res" and p s r
  let ?s1 = "set_skip (advance p) (skip_count (gt_table s ! advance p) + 1) s"
  assume IH: "\<And>p s r. f p s = Some r \<Longrightarrow>
      \<exists>p' s'. r = Inr (True, p', s') \<and> skips_only s s' \<and> (p < 5 \<longrightarrow> p' < 5) \<and> picked s p'"
    and eq: "(let p' = advance p in
      if thread_state s p' = Blocked then f p' s
      else if eligible (gt_table s ! p') then ret (True, p', set_skip p' 0 s)
      else let s' = set_skip p' (skip_count (gt_table s ! p') + 1) s in
        if p' = gt_current s then ret (True, p', s')
        else f p' s') = Some r"
  then consider "f (advance p) s = Some r"
    | "r = Inr (True, advance p, set_skip (advance p) 0 s)" "eligible (gt_table s ! advance p)"
    | "r = Inr (True, advance p, ?s1)" "advance p = gt_current s"
      "thread_state s (gt_current s) \<noteq> Blocked" | "f (advance p) ?s1 = Some r"
    by (auto simp: Let_def ret_def split: if_splits)
  then show "\<exists>p' s'. r = Inr (True, p', s') \<and> skips_only s s' \<and> (p < 5 \<longrightarrow> p' < 5) \<and> picked s p'"
  proof cases
    case 1
    from IH [OF this] show ?thesis using advance_less [of p] by auto
  next
    case 4
    from IH [OF this] show ?thesis
      using advance_less [of p] by (auto intro: skips_only_inc)
  qed (use advance_less [of p] in \<open>auto simp: picked_def eligible_def simp del: advance_less\<close>)
qed

lemma round_robin_prio_stuck:
  assumes nr: "\<forall>i<5. thread_state s i \<noteq> Ready" and b: "thread_state s (gt_current s) = Blocked"
    and "p < 5" "length (gt_table s) = 5"
  shows "round_robin_prio p s = None"
proof (rule ccontr)
  let ?H = "\<lambda>p s. (\<forall>i<5. thread_state s i \<noteq> Ready) \<and> thread_state s (gt_current s) = Blocked \<and>
      p < 5 \<and> length (gt_table s) = 5"
  assume "round_robin_prio p s \<noteq> None"
  then obtain r where r: "round_robin_prio p s = Some r" by blast
  have "\<not> ?H p s"
  proof (rule round_robin_prio.raw_induct [where P = "\<lambda>p s r. \<not> ?H p s", OF _ r])
    fix f :: "nat \<Rightarrow> sched \<Rightarrow> (bool \<times> nat \<times> sched) res" and p s r
    let ?s1 = "set_skip (advance p) (skip_count (gt_table s ! advance p) + 1) s"
    assume IH: "\<And>p s r. f p s = Some r \<Longrightarrow> \<not> ?H p s"
      and eq: "(let p' = advance p in
      if thread_state s p' = Blocked then f p' s
      else if eligible (gt_table s ! p') then ret (True, p', set_skip p' 0 s)
      else let s' = set_skip p' (skip_count (gt_table s ! p') + 1) s in
        if p' = gt_current s then ret (True, p', s')
        else f p' s') = Some r"
    show "\<not> ?H p s"
    proof
      assume H: "?H p s"
      then have "advance p < 5" "\<not> eligible (gt_table s ! advance p)"
        by (auto simp: eligible_def)
      with H eq have "f (advance p) s = Some r \<or> f (advance p) ?s1 = Some r"
        by (auto simp: Let_def split: if_splits)
      then show False using IH H \<open>advance p < 5\<close> by fastforce
    qed
  qed
  with assms show False by blast
qed

section \<open>lottery\<close>

definition wins :: "gt \<Rightarrow> int \<Rightarrow> bool" where
  "wins th w \<longleftrightarrow> (state th = Ready \<or> state th = Running) \<and> tickets_lo th \<le> w \<and> w \<le> tickets_hi th"

lemma lottery_scan_find: "p \<le> 5 \<Longrightarrow> lottery_scan tab w p = find (\<lambda>i. wins (tab ! i) w) [p..<5]"
proof (induction tab w p rule: lottery_scan.induct)
  case (1 tab w p)
  then show ?case
    by (subst lottery_scan.simps) (auto simp: wins_def upt_conv_Cons)
qed

lemma rand_sel [simp]:
  "gt_table (snd (rand s)) = gt_table s" "total_tickets (snd (rand s)) = total_tickets s"
  "gt_current (snd (rand s)) = gt_current s" "fst (rand s) = rand_seq s (rand_seed s) (rand_next s)"
  by (simp_all add: rand_def)

lemma skips_only_rand [simp]: "skips_only s (snd (rand s))"
  by (simp add: skips_only_def rand_def same_skip)

lemma lottery_ok:
  assumes "lottery p s = Some r" "total_tickets s \<noteq> 0"
  shows "\<exists>p' s'. r = Inr (True, p', s') \<and> skips_only s s' \<and> (p < 5 \<longrightarrow> p' < 5) \<and> picked s p'"
proof (cases "lottery_scan (gt_table s) (int (fst (rand s)) mod total_tickets s) 0")
  case None
  then have "round_robin p (snd (rand s)) = Some r"
    using assms by (simp add: lottery_def case_prod_beta)
  from round_robin_ok [OF this] show ?thesis by (auto simp: picked_def)
next
  case (Some q)
  then have "q < 5" "picked s q"
    by (auto simp: lottery_scan_find find_Some_iff wins_def picked_def)
  with Some assms show ?thesis by (auto simp: lottery_def case_prod_beta ret_def)
qed

section \<open>The interface of a policy\<close>

locale picker =
  fixes pick :: "nat \<Rightarrow> sched \<Rightarrow> (bool \<times> nat \<times> sched) res"
  assumes pick_ok: "pick p s = Some r \<Longrightarrow> total_tickets s \<noteq> 0 \<Longrightarrow>
    \<exists>p' s'. r = Inr (True, p', s') \<and> skips_only s s' \<and> (p < 5 \<longrightarrow> p' < 5) \<and> picked s p'"

text \<open>
  A policy is fair if some measure of a ready thread \<open>t\<close>, which depends on nothing but the
  cursor and the priority and skip count of \<open>t\<close>, drops with every call that does not pick
  \<open>t\<close>. The current thread must not be ready itself.
\<close>

locale fair_picker = picker +
  fixes distance :: "nat \<Rightarrow> nat \<Rightarrow> sched \<Rightarrow> nat"
  assumes progress: "t < 5 \<Longrightarrow> length (gt_table s) = 5 \<Longrightarrow> gt_current s < 5 \<Longrightarrow>
      thread_state s t = Ready \<Longrightarrow> thread_state s (gt_current s) \<noteq> Ready \<Longrightarrow>
      \<exists>p' s'. pick (gt_current s) s = ret (True, p', s') \<and>
        (p' = t \<or> distance t p' s' < distance t (gt_current s) s)"
    and distance_cong: "priority (gt_table s' ! t) = priority (gt_table s ! t) \<Longrightarrow>
      skip_count (gt_table s' ! t) = skip_count (gt_table s ! t) \<Longrightarrow>
      distance t p s' = distance t p s"
    and distance_pos: "t < 5 \<Longrightarrow> p < 5 \<Longrightarrow> 0 < distance t p s"

interpretation rr: fair_picker round_robin "\<lambda>t p s. steps p t"
proof
  fix p s r
  assume "round_robin p s = Some r" "total_tickets s \<noteq> 0"
  then show "\<exists>p' s'. r = Inr (True, p', s') \<and> skips_only s s' \<and> (p < 5 \<longrightarrow> p' < 5) \<and> picked s p'"
    using round_robin_ok by fastforce
next
  fix t s
  assume "t < 5" "length (gt_table s) = 5" "gt_current s < 5"
    "thread_state s t = Ready" "thread_state s (gt_current s) \<noteq> Ready"
  then show "\<exists>p' s'. round_robin (gt_current s) s = ret (True, p', s') \<and>
      (p' = t \<or> steps p' t < steps (gt_current s) t)"
    using round_robin_progress by blast
qed (simp_all add: steps_pos)

interpretation rrp: fair_picker round_robin_prio potential
proof
  fix p s r
  assume "round_robin_prio p s = Some r" "total_tickets s \<noteq> 0"
  then show "\<exists>p' s'. r = Inr (True, p', s') \<and> skips_only s s' \<and> (p < 5 \<longrightarrow> p' < 5) \<and> picked s p'"
    using round_robin_prio_ok by blast
next
  fix t s
  assume "t < 5" "length (gt_table s) = 5" "gt_current s < 5"
    "thread_state s t = Ready" "thread_state s (gt_current s) \<noteq> Ready"
  then show "\<exists>p' s'. round_robin_prio (gt_current s) s = ret (True, p', s') \<and>
      (p' = t \<or> potential t p' s' < potential t (gt_current s) s)"
    using round_robin_prio_progress by blast
qed (simp_all add: potential_def steps_pos)

interpretation lot: picker lottery
  by unfold_locales (rule lottery_ok)

lemma round_robin_prio_total:
  assumes "gt_current s < 5" "length (gt_table s) = 5"
    and "thread_state s (gt_current s) \<noteq> Blocked \<or> (\<exists>t<5. thread_state s t = Ready)"
  shows "\<exists>p s'. round_robin_prio (gt_current s) s = ret (True, p, s')"
  using assms(3) round_robin_prio_lap [OF assms(1,1,2) _ refl]
    round_robin_prio_progress [OF assms(1) _ assms(2)]
  by (auto simp: case_prod_beta) blast

lemma round_robin_total:
  assumes "gt_current s < 5"
    and "thread_state s (gt_current s) \<noteq> Blocked \<or> (\<exists>t<5. thread_state s t = Ready)"
  shows "\<exists>p. round_robin (gt_current s) s = ret (True, p, s)"
proof (cases "\<exists>t<5. thread_state s t = Ready")
  case True
  then show ?thesis
    using round_robin_progress [OF assms(1)] by (cases "thread_state s (gt_current s) = Ready") auto
next
  case False
  then have "thread_state s (gt_current s) \<noteq> Ready" "thread_state s (gt_current s) \<noteq> Blocked"
    using assms by auto
  with False assms(1) find_orbit_None [OF assms(1), of "\<lambda>i. thread_state s i = Ready"] show ?thesis
    by (subst round_robin_lap [where n = 5]) auto
qed

lemma next_thread_total:
  assumes "gt_current s < 5" "length (gt_table s) = 5" "total_tickets s \<noteq> 0"
    and "thread_state s (gt_current s) \<noteq> Blocked \<or> (\<exists>t<5. thread_state s t = Ready)"
  shows "\<exists>p s'. next_thread (Some a) (gt_current s) s = ret (True, p, s')"
proof (cases a)
  case Lottery
  have "\<exists>p. round_robin (gt_current s) (snd (rand s)) = ret (True, p, snd (rand s))"
    using round_robin_total [of "snd (rand s)"] assms by simp
  then show ?thesis
    using assms(3) by (auto simp: Lottery lottery_def case_prod_beta split: option.split)
qed (use round_robin_total [OF assms(1,4)] round_robin_prio_total [OF assms(1,2,4)] in auto)

text \<open>
  Claim C38. \<open>round_robin_prio\<close> comes to an end if and only if the current thread is not
  blocked or some thread is ready; otherwise its loop runs for ever.
\<close>

theorem round_robin_prio_terminates:
  assumes "gt_current s < 5" "length (gt_table s) = 5"
  shows "(\<exists>r. round_robin_prio (gt_current s) s = ret r) \<longleftrightarrow>
    thread_state s (gt_current s) \<noteq> Blocked \<or> (\<exists>t<5. thread_state s t = Ready)"
proof
  assume "\<exists>r. round_robin_prio (gt_current s) s = ret r"
  then show "thread_state s (gt_current s) \<noteq> Blocked \<or> (\<exists>t<5. thread_state s t = Ready)"
    using round_robin_prio_stuck [of s "gt_current s"] assms by (metis ret_distinct(3))
next
  assume "thread_state s (gt_current s) \<noteq> Blocked \<or> (\<exists>t<5. thread_state s t = Ready)"
  then show "\<exists>r. round_robin_prio (gt_current s) s = ret r"
    using round_robin_prio_total [OF assms] by blast
qed

theorem round_robin_prio_terminates_witness:
  "\<exists>r. round_robin_prio 4 (sample_sched sample_table 4) = ret r"
  using round_robin_prio_terminates [of "sample_sched sample_table 4"] by (auto intro: exI [of _ 2])

end
