(* ===== verification/Gthr_Sched.thy ===== *)
theory Gthr_Sched
  imports Gthr_Pick
begin

text \<open>
  The rest of \<open>scheduler/gthr.c\<close> but the printing: the context switch of
  \<open>scheduler/gthr_switch.S\<close>, \<open>gt_reset_sig\<close>, \<open>gt_schedule\<close>, the signal handler
  \<open>gt_alarm_handle\<close>, \<open>gt_init\<close>, \<open>gt_create\<close>, \<open>gt_return\<close>, \<open>gt_stop\<close>,
  \<open>set_scheduling_algorithm\<close> and \<open>gt_uninterruptible_nanosleep\<close>.

  \<open>gt_switch\<close> is modelled from its entry: \<open>regs\<close> then holds the callee-saved registers,
  with \<open>rsp\<close> pointing at the return address. Stack memory is a map from the addresses of
  8-byte cells. What \<open>malloc\<close> returns and the address the linker gave \<open>gt_stop\<close> are
  arguments. \<open>gt_schedule\<close> returns the value its caller sees once the caller runs again,
  with the state right after the switch.
\<close>

section \<open>gt\_switch\<close>

definition gt_switch :: "nat \<Rightarrow> nat \<Rightarrow> sched \<Rightarrow> sched" where
  "gt_switch old new s =
     (let tab1 = (gt_table s)[old := (gt_table s ! old)\<lparr>ctx := regs s\<rparr>];
          c = ctx (tab1 ! new)
      in s\<lparr>gt_table := tab1, rip := mem s (rsp c), regs := c\<lparr>rsp := rsp c + 8\<rparr>\<rparr>)"

lemma gt_switch_sel [simp]:
  "gt_current (gt_switch i j s) = gt_current s"
  "get_next_thread (gt_switch i j s) = get_next_thread s"
  "total_tickets (gt_switch i j s) = total_tickets s"
  "handlers (gt_switch i j s) = handlers s"
  "sigmask (gt_switch i j s) = sigmask s"
  "itimer (gt_switch i j s) = itimer s"
  "mem (gt_switch i j s) = mem s"
  "blocks (gt_switch i j s) = blocks s"
  "length (gt_table (gt_switch i j s)) = length (gt_table s)"
  by (simp_all add: gt_switch_def Let_def)

lemma view_gt_switch [simp]:
  "i < length (gt_table s) \<Longrightarrow> view (gt_table (gt_switch i j s) ! k) = view (gt_table s ! k)"
  by (cases "i = k") (simp_all add: gt_switch_def Let_def view_def)

text \<open>
  Claim C3. The context switch loses nothing: a thread \<open>i\<close> that is switched out and later
  switched back in, with its saved context and the return address on its stack
  untouched, continues at that return address with the callee-saved registers it had and
  the stack pointer just above the return address.
\<close>

theorem gt_switch_resumes:
  assumes "i < length (gt_table s)" "i < length (gt_table u)" "k < length (gt_table u)" "k \<noteq> i"
    and "ctx (gt_table u ! i) = ctx (gt_table (gt_switch i j s) ! i)"
    and "mem u (rsp (regs s)) = mem s (rsp (regs s))"
  shows "regs (gt_switch k i u) = (regs s)\<lparr>rsp := rsp (regs s) + 8\<rparr> \<and>
    rip (gt_switch k i u) = mem s (rsp (regs s))"
proof -
  have "ctx (gt_table u ! i) = regs s"
    using assms(1,5) by (simp add: gt_switch_def Let_def)
  then show ?thesis using assms by (simp add: gt_switch_def Let_def)
qed

theorem gt_switch_resumes_witness:
  "let s = sample_sched sample_table 0; u = gt_switch 1 0 (gt_switch 0 1 s)
   in rip u = 77 \<and> regs u = zero_context\<lparr>rsp := 8\<rparr>"
proof -
  let ?s = "sample_sched sample_table 0"
  have "0 < length (gt_table ?s)" "0 < length (gt_table (gt_switch 0 1 ?s))"
    "1 < length (gt_table (gt_switch 0 1 ?s))" "(1::nat) \<noteq> 0"
    "ctx (gt_table (gt_switch 0 1 ?s) ! 0) = ctx (gt_table (gt_switch 0 1 ?s) ! 0)"
    "mem (gt_switch 0 1 ?s) (rsp (regs ?s)) = mem ?s (rsp (regs ?s))" by simp_all
  from gt_switch_resumes [OF this] show ?thesis by (simp add: Let_def zero_context_def)
qed

section \<open>gt\_schedule and the alarm\<close>

definition alarm :: "nat \<Rightarrow> sched \<Rightarrow> sched" where
  "alarm sec s = s\<lparr>itimer := (if sec = 0 then None else Some (sec * 1000000, 0))\<rparr>"

definition ualarm :: "nat \<Rightarrow> nat \<Rightarrow> sched \<Rightarrow> sched" where
  "ualarm us interval s = s\<lparr>itimer := (if us = 0 then None else Some (us, interval))\<rparr>"

definition gt_reset_sig :: "signal \<Rightarrow> sched \<Rightarrow> sched" where
  "gt_reset_sig sig s =
     (let s1 = (if sig = SIGALRM then alarm 0 s else s);
          s2 = SIG_UNBLOCK {sig} s1
      in if sig = SIGALRM then ualarm 500 500 s2 else s2)"

definition switch_to :: "nat \<Rightarrow> sched \<Rightarrow> sched" where
  "switch_to p s =
     (let cur = gt_current s;
          s1 = (if thread_state s cur \<noteq> Unused \<and> thread_state s cur \<noteq> Blocked
                then update_thread_state cur Ready s else s);
          s2 = update_thread_state p Running s1;
          s3 = s2\<lparr>gt_current := p\<rparr>
      in gt_switch cur p s3)"

definition schedule_with ::
  "(nat \<Rightarrow> sched \<Rightarrow> (bool \<times> nat \<times> sched) res) \<Rightarrow> sched \<Rightarrow> (bool \<times> sched) res" where
  "schedule_with pick s =
     (let s1 = gt_reset_sig SIGALRM s in
      res_bind (pick (gt_current s1) s1) (\<lambda>(found, p, s2).
        if \<not> found then ret (False, s2) else ret (True, switch_to p s2)))"

definition gt_schedule :: "sched \<Rightarrow> (bool \<times> sched) res" where
  "gt_schedule s = schedule_with (next_thread (get_next_thread s)) s"

definition gt_alarm_handle :: "sched \<Rightarrow> sched res" where
  "gt_alarm_handle s = res_bind (gt_schedule s) (\<lambda>(_, s'). ret s')"

text \<open>
  Delivery of a pending \<open>SIGALRM\<close>: the kernel blocks the signal while its handler runs.
\<close>

definition deliver_alarm :: "sched \<Rightarrow> sched res" where
  "deliver_alarm s =
     (if SIGALRM \<in> sigmask s \<or> handlers s SIGALRM \<noteq> Some Gt_alarm_handle then ret s
      else gt_alarm_handle (SIG_BLOCK {SIGALRM} s))"

definition set_scheduling_algorithm :: "algorithm \<Rightarrow> sched \<Rightarrow> sched" where
  "set_scheduling_algorithm a s = s\<lparr>get_next_thread := Some a\<rparr>"

section \<open>gt\_init, gt\_create, gt\_return\<close>

definition gt_init :: "int \<Rightarrow> sched \<Rightarrow> sched" where
  "gt_init time_now s =
     (let s1 = s\<lparr>rand_seed := time_now, rand_next := 0\<rparr>;
          s2 = s1\<lparr>gt_current := 0,
                  gt_table := (gt_table s1)[0 := (gt_table s1 ! 0)
                    \<lparr>state := Running, priority := MaxPriority, tickets_lo := MaxPriority,
                     tickets_hi := MinPriority, skip_count := 0\<rparr>],
                  total_tickets := i32 (total_tickets s1 + (MinPriority + 1))\<rparr>;
          s3 = init_thread_stats 0 s2
      in s3\<lparr>handlers := (handlers s3)(SIGALRM := Some Gt_alarm_handle, SIGINT := Some Gt_int_handle)\<rparr>)"

function find_slot :: "gt list \<Rightarrow> nat \<Rightarrow> nat option" where
  "find_slot tab p =
     (if MaxGThreads \<le> p then None
      else if state (tab ! p) = Unused then Some p
      else find_slot tab (Suc p))"
  by pat_completeness auto
termination
  by (relation "measure (\<lambda>(tab, p). MaxGThreads - p)") auto

declare find_slot.simps [simp del]

definition clamp_priority :: "int \<Rightarrow> int" where
  "clamp_priority prio =
     (if prio < MaxPriority then MaxPriority
      else if prio > MinPriority then MinPriority else prio)"

definition gt_create :: "u64 \<Rightarrow> u64 \<Rightarrow> int \<Rightarrow> u64 \<Rightarrow> sched \<Rightarrow> int \<times> sched" where
  "gt_create gt_stop_code f prio stack s =
     (case find_slot (gt_table s) 0 of
        None \<Rightarrow> (- 1, s)
      | Some p \<Rightarrow>
          if stack = 0 then (- 1, s)
          else let s1 = s\<lparr>blocks := stack # blocks s,
                          mem := (mem s)(stack + of_int (StackSize - 8) := gt_stop_code,
                                         stack + of_int (StackSize - 16) := f)\<rparr>;
                   th = gt_table s1 ! p;
                   prio' = clamp_priority prio;
                   th' = th\<lparr>ctx := (ctx th)\<lparr>rsp := stack + of_int (StackSize - 16)\<rparr>,
                            priority := prio', skip_count := 0,
                            tickets_lo := total_tickets s1,
                            tickets_hi := i32 (total_tickets s1 + (MinPriority - prio'))\<rparr>;
                   s2 = s1\<lparr>gt_table := (gt_table s1)[p := th'],
                           total_tickets := i32 (total_tickets s1 + (MinPriority - prio' + 1))\<rparr>;
                   s3 = init_thread_stats p s2
               in (0, update_thread_state p Ready s3))"

text \<open>
  \<open>gt_return\<close> hands control to another thread, or ends the process. For the initial thread
  one call stands for one evaluation of the condition of \<open>while (gt_schedule());\<close>, that is
  for the time until this thread is resumed and evaluates it again.
\<close>

datatype control = Switched sched | Exited int

definition free_stack :: "u64 \<Rightarrow> sched \<Rightarrow> sched res" where
  "free_stack p s =
     (if p = 0 then ret s
      else if p \<in> set (blocks s) then ret (s\<lparr>blocks := remove1 p (blocks s)\<rparr>)
      else fail InvalidFree)"

definition gt_return :: "int \<Rightarrow> sched \<Rightarrow> control res" where
  "gt_return r s =
     (let cur = gt_current s in
      if cur \<noteq> 0 then
        let s1 = s\<lparr>gt_table := (gt_table s)[cur := (gt_table s ! cur)\<lparr>state := Unused\<rparr>]\<rparr> in
        res_bind (free_stack (rsp (ctx (gt_table s1 ! cur)) + 16) s1) (\<lambda>s2.
        res_bind (gt_schedule s2) (\<lambda>(_, s3).
          if gt_current s3 = cur then fail AssertFail else ret (Switched s3)))
      else
        res_bind (gt_schedule s) (\<lambda>(again, s').
          if again then ret (Switched s') else ret (Exited r)))"

definition gt_stop :: "sched \<Rightarrow> control res" where
  "gt_stop s = gt_return 0 s"

section \<open>gt\_uninterruptible\_nanosleep\<close>

text \<open>
  The results successive \<open>nanosleep\<close> calls deliver: slept to the end, interrupted with the
  remaining time (seconds, nanoseconds) left in \<open>req\<close>, or another error.
\<close>

datatype sleep_result = Slept | Interrupted int int | Sleep_error

fun gt_uninterruptible_nanosleep :: "int \<times> int \<Rightarrow> sleep_result list \<Rightarrow> int option" where
  "gt_uninterruptible_nanosleep req [] = None"
| "gt_uninterruptible_nanosleep req (Slept # rs) = Some 0"
| "gt_uninterruptible_nanosleep req (Sleep_error # rs) = Some (- 1)"
| "gt_uninterruptible_nanosleep req (Interrupted sec nsec # rs) =
     (if sec > 0 \<or> nsec > 0 then gt_uninterruptible_nanosleep (sec, nsec) rs else Some 0)"

text \<open>
  The kernel sleeps at least part of the time it is asked for: an interrupted call reports
  less time to go than it was given.
\<close>

abbreviation nanos :: "int \<times> int \<Rightarrow> int" where
  "nanos req \<equiv> fst req * 1000000000 + snd req"

fun kernel_sleeps :: "int \<times> int \<Rightarrow> sleep_result list \<Rightarrow> bool" where
  "kernel_sleeps req [] \<longleftrightarrow> True"
| "kernel_sleeps req (Slept # rs) \<longleftrightarrow> True"
| "kernel_sleeps req (Sleep_error # rs) \<longleftrightarrow> False"
| "kernel_sleeps req (Interrupted sec nsec # rs) \<longleftrightarrow>
     0 \<le> sec \<and> 0 \<le> nsec \<and> nanos (sec, nsec) < nanos req \<and> kernel_sleeps (sec, nsec) rs"

text \<open>
  \<open>gt_uninterruptible_nanosleep\<close> is not cut short by the alarms of the scheduler:
  however often it is interrupted it goes on with the rest, and it returns 0 after at most
  as many calls of \<open>nanosleep\<close> as nanoseconds were asked for, plus one.
\<close>

lemma nanosleep_completes:
  assumes "kernel_sleeps req rs" "nanos req < int (length rs)" "0 \<le> nanos req"
  shows "gt_uninterruptible_nanosleep req rs = Some 0"
  using assms by (induction req rs rule: gt_uninterruptible_nanosleep.induct) auto

lemma nanosleep_completes_witness:
  "gt_uninterruptible_nanosleep (0, 3) [Interrupted 0 2, Interrupted 0 1, Slept, Slept] = Some 0"
  using nanosleep_completes [of "(0, 3)" "[Interrupted 0 2, Interrupted 0 1, Slept, Slept]"] by simp

section \<open>The invariant of the thread table\<close>

abbreviation thread_view :: "sched \<Rightarrow> nat \<Rightarrow> view" where
  "thread_view s i \<equiv> view (gt_table s ! i)"

definition tickets_ok :: "(nat \<Rightarrow> view) \<Rightarrow> int \<Rightarrow> bool" where
  "tickets_ok v tot \<longleftrightarrow>
     (\<forall>i<5. v_state (v i) \<noteq> Unused \<longrightarrow>
        0 \<le> v_lo (v i) \<and> v_hi (v i) = v_lo (v i) + (MinPriority - v_priority (v i)) \<and> v_hi (v i) < tot) \<and>
     (\<forall>i<5. \<forall>j<5. i \<noteq> j \<longrightarrow> v_state (v i) \<noteq> Unused \<longrightarrow> v_state (v j) \<noteq> Unused \<longrightarrow>
        v_hi (v i) < v_lo (v j) \<or> v_hi (v j) < v_lo (v i))"

definition views_ok :: "(nat \<Rightarrow> view) \<Rightarrow> nat \<Rightarrow> int \<Rightarrow> bool" where
  "views_ok v cur tot \<longleftrightarrow>
     cur < 5 \<and> 0 < tot \<and>
     (\<forall>i<5. i \<noteq> cur \<longrightarrow> v_state (v i) \<noteq> Running) \<and>
     (\<forall>i<5. v_state (v i) \<noteq> Unused \<longrightarrow>
        MaxPriority \<le> v_priority (v i) \<and> v_priority (v i) \<le> MinPriority \<and> 0 \<le> v_skip (v i)) \<and>
     tickets_ok v tot"

definition sched_wf :: "sched \<Rightarrow> bool" where
  "sched_wf s \<longleftrightarrow>
     length (gt_table s) = 5 \<and> views_ok (thread_view s) (gt_current s) (total_tickets s)"

lemma view_sel [simp]:
  "v_state (view th) = state th" "v_priority (view th) = priority th"
  "v_skip (view th) = skip_count th" "v_lo (view th) = tickets_lo th" "v_hi (view th) = tickets_hi th"
  by (simp_all add: view_def)

lemma sched_wfD:
  assumes "sched_wf s"
  shows "length (gt_table s) = 5" "gt_current s < 5" "0 < total_tickets s"
    "i < 5 \<Longrightarrow> i \<noteq> gt_current s \<Longrightarrow> thread_state s i \<noteq> Running"
    "i < 5 \<Longrightarrow> thread_state s i \<noteq> Unused \<Longrightarrow> 0 \<le> priority (gt_table s ! i)"
    "i < 5 \<Longrightarrow> thread_state s i \<noteq> Unused \<Longrightarrow> priority (gt_table s ! i) \<le> 10"
    "i < 5 \<Longrightarrow> thread_state s i \<noteq> Unused \<Longrightarrow> 0 \<le> skip_count (gt_table s ! i)"
    "tickets_ok (thread_view s) (total_tickets s)"
  using assms by (auto simp: sched_wf_def views_ok_def)

text \<open>
  Any change of states alone keeps the invariant as long as no thread comes to life and
  nobody but the current thread runs.
\<close>

lemma tickets_ok_mono:
  assumes "tickets_ok v tot"
    and "\<And>i. i < 5 \<Longrightarrow> v_state (w i) \<noteq> Unused \<Longrightarrow>
      v_state (v i) \<noteq> Unused \<and> v_priority (w i) = v_priority (v i) \<and> v_lo (w i) = v_lo (v i) \<and> v_hi (w i) = v_hi (v i)"
  shows "tickets_ok w tot"
  using assms unfolding tickets_ok_def by (metis (no_types, lifting))

lemma views_ok_change:
  assumes "views_ok v cur tot" "cur' < 5"
    and "\<And>i. i < 5 \<Longrightarrow> v_state (w i) \<noteq> Unused \<Longrightarrow>
      v_state (v i) \<noteq> Unused \<and> v_priority (w i) = v_priority (v i) \<and> v_lo (w i) = v_lo (v i) \<and>
      v_hi (w i) = v_hi (v i) \<and> 0 \<le> v_skip (w i)"
    and "\<And>i. i < 5 \<Longrightarrow> i \<noteq> cur' \<Longrightarrow> v_state (w i) \<noteq> Running"
  shows "views_ok w cur' tot"
  unfolding views_ok_def
  using assms tickets_ok_mono [of v tot w] by (auto simp: views_ok_def)

section \<open>What a schedule does\<close>

lemma gt_reset_sig_sel [simp]:
  "gt_table (gt_reset_sig sig s) = gt_table s" "gt_current (gt_reset_sig sig s) = gt_current s"
  "get_next_thread (gt_reset_sig sig s) = get_next_thread s"
  "total_tickets (gt_reset_sig sig s) = total_tickets s" "handlers (gt_reset_sig sig s) = handlers s"
  "sigmask (gt_reset_sig sig s) = sigmask s - {sig}" "regs (gt_reset_sig sig s) = regs s"
  "mem (gt_reset_sig sig s) = mem s" "blocks (gt_reset_sig sig s) = blocks s"
  "itimer (gt_reset_sig SIGALRM s) = Some (500, 500)"
  by (simp_all add: gt_reset_sig_def Let_def alarm_def ualarm_def SIG_UNBLOCK_def)

lemma switch_to_sel [simp]:
  "gt_current (switch_to p s) = p" "get_next_thread (switch_to p s) = get_next_thread s"
  "total_tickets (switch_to p s) = total_tickets s" "handlers (switch_to p s) = handlers s"
  "sigmask (switch_to p s) = sigmask s" "itimer (switch_to p s) = itimer s"
  "mem (switch_to p s) = mem s" "blocks (switch_to p s) = blocks s"
  "length (gt_table (switch_to p s)) = length (gt_table s)"
  by (simp_all add: switch_to_def Let_def)

lemma view_switch_to:
  assumes "length (gt_table s) = 5" "gt_current s < 5" "p < 5" "i < 5"
  shows "thread_view (switch_to p s) i =
    (thread_view s i)\<lparr>v_state :=
       (if i = p then Running
        else if i = gt_current s \<and> thread_state s i \<noteq> Unused \<and> thread_state s i \<noteq> Blocked then Ready
        else thread_state s i)\<rparr>"
proof -
  have same: "th = (view u)\<lparr>v_state := state u\<rparr> \<longleftrightarrow> th = view u" for th u
    by (simp add: view_def)
  show ?thesis
    using assms by (auto simp: switch_to_def Let_def nth_list_update same)
qed

context picker
begin

lemma schedule_returns:
  assumes "schedule_with pick s = Some r" "total_tickets s \<noteq> 0"
  shows "\<exists>p s2. r = Inr (True, switch_to p s2) \<and> skips_only (gt_reset_sig SIGALRM s) s2 \<and>
    (gt_current s < 5 \<longrightarrow> p < 5) \<and> picked s p"
proof -
  let ?s1 = "gt_reset_sig SIGALRM s"
  obtain r1 where r1: "pick (gt_current ?s1) ?s1 = Some r1"
    using assms(1) by (cases "pick (gt_current ?s1) ?s1") (auto simp: schedule_with_def)
  obtain p s2 where p: "r1 = Inr (True, p, s2)" "skips_only ?s1 s2" "gt_current s < 5 \<longrightarrow> p < 5" "picked s p"
    using pick_ok [OF r1] assms(2) by (auto simp: picked_def)
  have "pick (gt_current ?s1) ?s1 = ret (True, p, s2)" using r1 p(1) by (simp add: ret_def)
  then have "r = Inr (True, switch_to p s2)"
    using assms(1) by (simp add: schedule_with_def) (simp add: ret_def)
  with p show ?thesis by blast
qed

lemma schedule_views:
  assumes "schedule_with pick s = ret (b, s')" "sched_wf s"
  shows "b" "gt_current s' < 5" "picked s (gt_current s')"
    "total_tickets s' = total_tickets s" "length (gt_table s') = 5"
    "sigmask s' = sigmask s - {SIGALRM}" "itimer s' = Some (500, 500)"
    "handlers s' = handlers s" "get_next_thread s' = get_next_thread s"
    "mem s' = mem s" "blocks s' = blocks s"
    "\<And>i. i < 5 \<Longrightarrow> \<exists>k. (0 \<le> skip_count (gt_table s ! i) \<longrightarrow> 0 \<le> k) \<and>
       thread_view s' i = (thread_view s i)\<lparr>v_skip := k, v_state :=
         (if i = gt_current s' then Running
          else if i = gt_current s \<and> thread_state s i \<noteq> Unused \<and> thread_state s i \<noteq> Blocked then Ready
          else thread_state s i)\<rparr>"
proof -
  note wf = sched_wfD [OF assms(2)]
  obtain p s2 where p: "b" "s' = switch_to p s2" "skips_only (gt_reset_sig SIGALRM s) s2" "p < 5"
    "picked s p"
    using schedule_returns [OF assms(1) [unfolded ret_def]] wf by auto
  note sel = skips_only_sel [OF p(3)] and th = skips_only_thread [OF p(3)]
  show "b" "gt_current s' < 5" "picked s (gt_current s')"
    "total_tickets s' = total_tickets s" "length (gt_table s') = 5"
    "sigmask s' = sigmask s - {SIGALRM}" "itimer s' = Some (500, 500)"
    "handlers s' = handlers s" "get_next_thread s' = get_next_thread s"
    "mem s' = mem s" "blocks s' = blocks s"
    using p sel wf by simp_all
  fix i :: nat assume i: "i < 5"
  have v: "thread_view s2 i = (thread_view s i)\<lparr>v_skip := skip_count (gt_table s2 ! i)\<rparr>"
    using th [of i] i wf by (simp add: view_def)
  have "thread_state s2 i = thread_state s i" using th [of i] i wf by simp
  then show "\<exists>k. (0 \<le> skip_count (gt_table s ! i) \<longrightarrow> 0 \<le> k) \<and>
       thread_view s' i = (thread_view s i)\<lparr>v_skip := k, v_state :=
         (if i = gt_current s' then Running
          else if i = gt_current s \<and> thread_state s i \<noteq> Unused \<and> thread_state s i \<noteq> Blocked then Ready
          else thread_state s i)\<rparr>"
    using th(6) [of i] i wf sel p v
    by (intro exI [of _ "skip_count (gt_table s2 ! i)"]; cases "i = gt_current s"; cases "i = p")
       (simp_all add: view_switch_to)
qed

lemma schedule_wf:
  assumes "schedule_with pick s = ret (b, s')" "sched_wf s"
    and "gt_current s' = gt_current s \<Longrightarrow> thread_state s (gt_current s) \<noteq> Unused"
  shows "sched_wf s'"
proof -
  note sv = schedule_views [OF assms(1,2)] and wf = sched_wfD [OF assms(2)]
  have live: "thread_state s (gt_current s') \<noteq> Unused"
    using sv(3) assms(3) by (auto simp: picked_def)
  have "views_ok (thread_view s') (gt_current s') (total_tickets s)"
  proof (rule views_ok_change)
    show "views_ok (thread_view s) (gt_current s) (total_tickets s)"
      using assms(2) by (simp add: sched_wf_def)
    fix i :: nat assume i: "i < 5"
    from sv(12) [OF i] obtain k where k: "0 \<le> skip_count (gt_table s ! i) \<longrightarrow> 0 \<le> k"
      "thread_view s' i = (thread_view s i)\<lparr>v_skip := k, v_state :=
         (if i = gt_current s' then Running
          else if i = gt_current s \<and> thread_state s i \<noteq> Unused \<and> thread_state s i \<noteq> Blocked then Ready
          else thread_state s i)\<rparr>" by blast
    { assume "v_state (thread_view s' i) \<noteq> Unused"
      then have "thread_state s i \<noteq> Unused" using k(2) live by (auto split: if_splits)
      with k wf(7) [OF i] show "v_state (thread_view s i) \<noteq> Unused \<and>
        v_priority (thread_view s' i) = v_priority (thread_view s i) \<and>
        v_lo (thread_view s' i) = v_lo (thread_view s i) \<and>
        v_hi (thread_view s' i) = v_hi (thread_view s i) \<and> 0 \<le> v_skip (thread_view s' i)"
        unfolding k(2) by auto }
    assume "i \<noteq> gt_current s'"
    then show "v_state (thread_view s' i) \<noteq> Running"
      unfolding k(2) using wf(4) [OF i] by (cases "i = gt_current s") auto
  qed (rule sv(2))
  then show ?thesis using sv by (simp add: sched_wf_def)
qed

end

section \<open>Bounded waiting\<close>

text \<open>
  \<open>rounds pick env n s\<close> runs \<open>n\<close> schedules from \<open>s\<close>; between two of them the running
  threads and the signal handlers change the state by \<open>env\<close>.
\<close>

primrec rounds ::
  "(nat \<Rightarrow> sched \<Rightarrow> (bool \<times> nat \<times> sched) res) \<Rightarrow> (nat \<Rightarrow> sched \<Rightarrow> sched) \<Rightarrow> nat \<Rightarrow> sched \<Rightarrow> sched res" where
  "rounds pick env 0 s = ret s"
| "rounds pick env (Suc n) s =
     res_bind (rounds pick env n s) (\<lambda>s'. res_bind (schedule_with pick s') (\<lambda>(_, s''). ret (env n s'')))"

text \<open>
  What the environment must respect while thread \<open>t\<close> waits: it does not schedule, leaves
  \<open>t\<close> ready with its priority and skip count, does not make the running thread ready, and
  keeps some tickets in play. Once \<open>t\<close> runs it may do anything.
\<close>

definition lets_wait :: "nat \<Rightarrow> (nat \<Rightarrow> sched \<Rightarrow> sched) \<Rightarrow> bool" where
  "lets_wait t env \<longleftrightarrow>
     (\<forall>n s. gt_current s \<noteq> t \<longrightarrow> thread_state s (gt_current s) = Running \<longrightarrow>
        gt_current (env n s) = gt_current s \<and>
        length (gt_table (env n s)) = length (gt_table s) \<and>
        thread_state (env n s) (gt_current s) \<noteq> Ready \<and>
        thread_state (env n s) t = thread_state s t \<and>
        priority (gt_table (env n s) ! t) = priority (gt_table s ! t) \<and>
        skip_count (gt_table (env n s) ! t) = skip_count (gt_table s ! t) \<and>
        (total_tickets s \<noteq> 0 \<longrightarrow> total_tickets (env n s) \<noteq> 0))"

definition waiting :: "nat \<Rightarrow> sched \<Rightarrow> bool" where
  "waiting t s \<longleftrightarrow> t < 5 \<and> length (gt_table s) = 5 \<and> gt_current s < 5 \<and> gt_current s \<noteq> t \<and>
     thread_state s t = Ready \<and> thread_state s (gt_current s) \<noteq> Ready \<and> total_tickets s \<noteq> 0"

context fair_picker
begin

lemma schedule_progress:
  assumes w: "waiting t s"
  shows "\<exists>s'. schedule_with pick s = ret (True, s') \<and> length (gt_table s') = 5 \<and> gt_current s' < 5 \<and>
    total_tickets s' = total_tickets s \<and> thread_state s' (gt_current s') = Running \<and>
    (gt_current s' = t \<or>
     (thread_state s' t = Ready \<and>
      distance t (gt_current s') s' < distance t (gt_current s) s))"
proof -
  let ?s1 = "gt_reset_sig SIGALRM s"
  have "waiting t ?s1" using w by (simp add: waiting_def)
  then obtain p s2 where p: "pick (gt_current ?s1) ?s1 = ret (True, p, s2)"
    "p = t \<or> distance t p s2 < distance t (gt_current ?s1) ?s1"
    using progress [of t ?s1] by (auto simp: waiting_def)
  have sk: "skips_only ?s1 s2" and p5: "p < 5"
    using pick_ok [OF p(1) [unfolded ret_def]] w by (auto simp: waiting_def)
  note sel = skips_only_sel [OF sk] and th = skips_only_thread [OF sk]
  have len: "length (gt_table s2) = 5" "gt_current s2 = gt_current s"
    using sel w by (simp_all add: waiting_def)
  have dc: "distance t (gt_current ?s1) ?s1 = distance t (gt_current s) s"
    using distance_cong [of ?s1 t s] by simp
  have v: "thread_view (switch_to p s2) i = (thread_view s2 i)\<lparr>v_state :=
       (if i = p then Running
        else if i = gt_current s2 \<and> thread_state s2 i \<noteq> Unused \<and> thread_state s2 i \<noteq> Blocked then Ready
        else thread_state s2 i)\<rparr>" if "i < 5" for i
    using view_switch_to [of s2 p i] that len p5 w by (simp add: waiting_def)
  have st: "thread_state s2 t = Ready" using th(1) [of t] w by (simp add: waiting_def)
  have t: "thread_state (switch_to p s2) t = (if t = p then Running else Ready)"
    "priority (gt_table (switch_to p s2) ! t) = priority (gt_table s2 ! t)"
    "skip_count (gt_table (switch_to p s2) ! t) = skip_count (gt_table s2 ! t)"
    using arg_cong [OF v [of t], of v_state] arg_cong [OF v [of t], of v_priority]
      arg_cong [OF v [of t], of v_skip] w st by (auto simp: waiting_def)
  have "distance t p (switch_to p s2) = distance t p s2" by (rule distance_cong [OF t(2,3)])
  moreover have "thread_state (switch_to p s2) p = Running"
    using arg_cong [OF v [OF p5], of v_state] by simp
  moreover have "schedule_with pick s = ret (True, switch_to p s2)"
    using p(1) by (simp add: schedule_with_def)
  ultimately show ?thesis
    using p(2) dc t(1) len p5 sel w by (auto simp: waiting_def)
qed

lemma bounded_wait:
  assumes "waiting t s" "lets_wait t env"
  shows "\<exists>n s'. n < distance t (gt_current s) s \<and> rounds pick env n s = ret s' \<and>
    (\<exists>s''. schedule_with pick s' = ret (True, s'') \<and> gt_current s'' = t)"
proof -
  have step: "\<exists>s'. (n \<le> distance t (gt_current s) s \<longrightarrow> rounds pick env n s = ret s' \<and> waiting t s' \<and>
        distance t (gt_current s') s' + n \<le> distance t (gt_current s) s)"
    if none: "\<forall>m s'. m < n \<longrightarrow> rounds pick env m s = ret s' \<longrightarrow>
        (\<forall>s''. schedule_with pick s' = ret (True, s'') \<longrightarrow> gt_current s'' \<noteq> t)" for n
    using none
  proof (induction n)
    case 0
    show ?case using assms(1) by (intro exI [of _ s]) simp
  next
    case (Suc n)
    show ?case
    proof (cases "Suc n \<le> distance t (gt_current s) s")
      case True
      with Suc obtain s' where s': "rounds pick env n s = ret s'" "waiting t s'"
        "distance t (gt_current s') s' + n \<le> distance t (gt_current s) s"
        by (metis Suc_leD less_Suc_eq)
      from schedule_progress [OF s'(2)] obtain s2 where s2: "schedule_with pick s' = ret (True, s2)"
        "length (gt_table s2) = 5" "gt_current s2 < 5" "total_tickets s2 = total_tickets s'"
        "thread_state s2 (gt_current s2) = Running"
        "gt_current s2 = t \<or> thread_state s2 t = Ready \<and>
           distance t (gt_current s2) s2 < distance t (gt_current s') s'" by blast
      have ne: "gt_current s2 \<noteq> t" using Suc.prems s'(1) s2(1) by blast
      note env = assms(2) [unfolded lets_wait_def, rule_format, OF ne s2(5), of n]
      have "waiting t (env n s2)"
        using s2 ne env s'(2) by (simp add: waiting_def)
      moreover have "distance t (gt_current (env n s2)) (env n s2) = distance t (gt_current s2) s2"
        using env distance_cong [of "env n s2" t s2] by simp
      ultimately show ?thesis
        using s' s2 ne True by (intro exI [of _ "env n s2"]) auto
    qed auto
  qed
  let ?D = "distance t (gt_current s) s"
  show ?thesis
  proof (rule ccontr)
    assume neg: "\<not> ?thesis"
    then have "\<forall>m s'. m < ?D \<longrightarrow> rounds pick env m s = ret s' \<longrightarrow>
        (\<forall>s''. schedule_with pick s' = ret (True, s'') \<longrightarrow> gt_current s'' \<noteq> t)"
      by blast
    from step [OF this] obtain s' where "waiting t s'" "distance t (gt_current s') s' = 0" by auto
    then show False using distance_pos [of t "gt_current s'" s'] by (simp add: waiting_def)
  qed
qed

end

text \<open>
  Claim C17. Under \<open>round_robin\<close> a ready thread waits at most as many schedules as it is
  slots away from the current thread in the ring (at most four): whatever the other threads
  do in between, as long as they leave it ready and do not make the running thread ready,
  every schedule returns and the thread is switched to.
\<close>

theorem round_robin_bounded_wait:
  assumes "waiting t s" "lets_wait t env"
  shows "\<exists>n s' s''. n < steps (gt_current s) t \<and> rounds round_robin env n s = ret s' \<and>
    schedule_with round_robin s' = ret (True, s'') \<and> gt_current s'' = t"
  using rr.bounded_wait [OF assms] by blast

lemma sample_waiting: "waiting 1 (sample_sched sample_table 0)" "lets_wait t (\<lambda>_ s. s)"
  by (simp_all add: waiting_def lets_wait_def)

theorem round_robin_bounded_wait_witness:
  "\<exists>s' s''. rounds round_robin (\<lambda>_ s. s) 0 (sample_sched sample_table 0) = ret s' \<and>
    schedule_with round_robin s' = ret (True, s'') \<and> gt_current s'' = 1"
  using round_robin_bounded_wait [OF sample_waiting] by (simp add: steps_def)

text \<open>
  Claim C4. Under \<open>round_robin_prio\<close> no ready thread starves: a thread with priority \<open>k\<close>
  and a fresh skip count is switched to after at most \<open>5 * k + 4\<close> schedules, whatever the
  other threads do in between as long as they leave it alone.
\<close>

theorem round_robin_prio_bounded_wait:
  assumes "waiting t s" "lets_wait t env" "0 \<le> skip_count (gt_table s ! t)"
  shows "\<exists>n s' s''. n < 5 * nat (priority (gt_table s ! t)) + 4 \<and>
    rounds round_robin_prio env n s = ret s' \<and>
    schedule_with round_robin_prio s' = ret (True, s'') \<and> gt_current s'' = t"
proof -
  have t: "gt_current s < 5" "t < 5" "gt_current s \<noteq> t"
    using assms(1) by (auto simp: waiting_def)
  then have "steps (gt_current s) t \<le> 4" by (auto simp: steps_def)
  moreover have "nat (priority (gt_table s ! t) - skip_count (gt_table s ! t))
      \<le> nat (priority (gt_table s ! t))" using assms(3) by simp
  ultimately have "potential t (gt_current s) s \<le> 5 * nat (priority (gt_table s ! t)) + 4"
    by (simp add: potential_def)
  moreover obtain n s' s'' where "n < potential t (gt_current s) s"
    "rounds round_robin_prio env n s = ret s'"
    "schedule_with round_robin_prio s' = ret (True, s'')" "gt_current s'' = t"
    using rrp.bounded_wait [OF assms(1,2)] by blast
  ultimately show ?thesis by (intro exI [of _ n] exI [of _ s'] exI [of _ s'']) simp
qed

theorem round_robin_prio_bounded_wait_witness:
  "\<exists>n s' s''. n < 19 \<and> rounds round_robin_prio (\<lambda>_ s. s) n (sample_sched sample_table 0) = ret s' \<and>
    schedule_with round_robin_prio s' = ret (True, s'') \<and> gt_current s'' = 1"
  using round_robin_prio_bounded_wait [OF sample_waiting] by simp

section \<open>gt\_schedule through the function pointer\<close>

interpretation nt: picker "next_thread (Some a)" for a
proof
  fix p s r
  assume "next_thread (Some a) p s = Some r" "total_tickets s \<noteq> 0"
  then show "\<exists>p' s'. r = Inr (True, p', s') \<and> skips_only s s' \<and> (p < 5 \<longrightarrow> p' < 5) \<and> picked s p'"
    by (cases a) (simp_all add: rr.pick_ok rrp.pick_ok lot.pick_ok)
qed

lemma gt_schedule_set:
  "gt_schedule s = ret (b, s') \<Longrightarrow> \<exists>a. get_next_thread s = Some a \<and>
     schedule_with (next_thread (Some a)) s = ret (b, s')"
  by (cases "get_next_thread s") (auto simp: gt_schedule_def schedule_with_def)

lemma gt_schedule_states:
  assumes "gt_schedule s = ret (b, s')" "sched_wf s" "i < 5"
  shows "thread_state s' i = (if i = gt_current s' then Running
      else if i = gt_current s \<and> thread_state s i \<noteq> Unused \<and> thread_state s i \<noteq> Blocked then Ready
      else thread_state s i)"
proof -
  obtain a where a: "schedule_with (next_thread (Some a)) s = ret (b, s')"
    using gt_schedule_set [OF assms(1)] by blast
  obtain k where "thread_view s' i = (thread_view s i)\<lparr>v_skip := k, v_state :=
       (if i = gt_current s' then Running
        else if i = gt_current s \<and> thread_state s i \<noteq> Unused \<and> thread_state s i \<noteq> Blocked then Ready
        else thread_state s i)\<rparr>" using nt.schedule_views(12) [OF a assms(2,3)] by blast
  from arg_cong [OF this, of v_state] show ?thesis by simp
qed

lemma gt_schedule_picked:
  assumes "gt_schedule s = ret (b, s')" "total_tickets s \<noteq> 0"
  shows "\<exists>p s2. next_thread (get_next_thread s) (gt_current s) (gt_reset_sig SIGALRM s) = ret (True, p, s2) \<and>
    s' = switch_to p s2 \<and> skips_only (gt_reset_sig SIGALRM s) s2 \<and> (gt_current s < 5 \<longrightarrow> p < 5)"
proof -
  obtain a where a: "get_next_thread s = Some a" "schedule_with (next_thread (Some a)) s = ret (b, s')"
    using gt_schedule_set [OF assms(1)] by blast
  let ?s1 = "gt_reset_sig SIGALRM s"
  obtain r where r: "next_thread (Some a) (gt_current s) ?s1 = Some r"
    using a(2) by (cases "next_thread (Some a) (gt_current s) ?s1") (auto simp: schedule_with_def)
  obtain p s2 where p: "r = Inr (True, p, s2)" "skips_only ?s1 s2" "gt_current s < 5 \<longrightarrow> p < 5"
    using nt.pick_ok [OF r] assms(2) by auto
  have n: "next_thread (Some a) (gt_current s) ?s1 = ret (True, p, s2)" using r p(1) by (simp add: ret_def)
  then have "s' = switch_to p s2" using a(2) by (simp add: schedule_with_def)
  with n p a(1) show ?thesis by auto
qed

lemma switch_to_context:
  assumes "length (gt_table s) = 5" "gt_current s < 5" "p < 5"
  shows "ctx (gt_table (switch_to p s) ! gt_current s) = regs s"
    "regs (switch_to p s) = (let c = (if p = gt_current s then regs s else ctx (gt_table s ! p)) in c\<lparr>rsp := rsp c + 8\<rparr>)"
    "rip (switch_to p s) = mem s (rsp (if p = gt_current s then regs s else ctx (gt_table s ! p)))"
  using assms by (simp_all add: switch_to_def gt_switch_def Let_def)

text \<open>
  Claim C1. Whatever the policy, a \<open>gt_schedule\<close> that returns returns true and has switched
  to the thread \<open>p\<close> the policy picks: \<open>p\<close> is the current thread and the only one
  running, its registers are loaded and it goes on at its return address, and the registers
  of the thread that is left are saved. That thread is ready unless it had
  ended or was blocked, and all others keep their state. \<open>SIGALRM\<close> is unblocked and the
  timer is armed again, so preemption goes on.
\<close>

theorem gt_schedule_correct:
  assumes "gt_schedule s = ret (found, s')" "sched_wf s"
  shows "found \<and>
    (\<exists>p<5. (\<exists>s2. next_thread (get_next_thread s) (gt_current s) (gt_reset_sig SIGALRM s) = ret (True, p, s2)) \<and>
      gt_current s' = p \<and>
      (\<forall>i<5. thread_state s' i = Running \<longleftrightarrow> i = p) \<and>
      (let c = (if p = gt_current s then regs s else ctx (gt_table s ! p))
       in regs s' = c\<lparr>rsp := rsp c + 8\<rparr> \<and> rip s' = mem s (rsp c)) \<and>
      ctx (gt_table s' ! gt_current s) = regs s \<and>
      (\<forall>i<5. i \<noteq> p \<longrightarrow> thread_state s' i =
         (if i = gt_current s \<and> thread_state s i \<noteq> Unused \<and> thread_state s i \<noteq> Blocked then Ready
          else thread_state s i))) \<and>
    SIGALRM \<notin> sigmask s' \<and> itimer s' = Some (500, 500)"
proof -
  obtain a where a: "schedule_with (next_thread (Some a)) s = ret (found, s')"
    using gt_schedule_set [OF assms(1)] by blast
  note sv = nt.schedule_views [OF a assms(2)] and st = gt_schedule_states [OF assms] and wf = sched_wfD [OF assms(2)]
  obtain p s2 where p: "next_thread (get_next_thread s) (gt_current s) (gt_reset_sig SIGALRM s) = ret (True, p, s2)"
    "s' = switch_to p s2" "skips_only (gt_reset_sig SIGALRM s) s2" "p < 5"
    using gt_schedule_picked [OF assms(1)] wf(2,3) by auto
  note sel = skips_only_sel [OF p(3)] and th = skips_only_thread [OF p(3)]
  have cur: "gt_current s' = p" using p(2) by simp
  have "thread_state s' i = Running \<longleftrightarrow> i = p" if "i < 5" for i
    using st [OF that] wf(4) [OF that] cur by (cases "i = gt_current s") auto
  moreover have "let c = (if p = gt_current s then regs s else ctx (gt_table s ! p))
      in regs s' = c\<lparr>rsp := rsp c + 8\<rparr> \<and> rip s' = mem s (rsp c)" "ctx (gt_table s' ! gt_current s) = regs s"
    using switch_to_context [of s2 p] sel th [of p] wf(1,2) p(2,4) by (simp_all add: Let_def)
  ultimately show ?thesis using st sv p(1,4) cur by auto
qed

lemma gt_schedule_wf:
  assumes "gt_schedule s = ret (b, s')" "sched_wf s"
    "gt_current s' = gt_current s \<Longrightarrow> thread_state s (gt_current s) \<noteq> Unused"
  shows "sched_wf s'"
  using gt_schedule_set [OF assms(1)] nt.schedule_wf assms(2,3) by blast

lemma gt_schedule_true: "gt_schedule s = ret (b, s') \<Longrightarrow> total_tickets s \<noteq> 0 \<Longrightarrow> b"
  using gt_schedule_set nt.schedule_returns by (metis Inr_inject prod.inject ret_def)

text \<open>
  The initial thread never gets to \<open>exit\<close>: no policy ever makes
  \<open>gt_schedule\<close> return false, so \<open>while (gt_schedule());\<close> in \<open>gt_return\<close> has no way out, not
  even when all other threads have ended.
\<close>

lemma gt_return_never_exits:
  assumes "total_tickets s \<noteq> 0"
  shows "gt_return r s \<noteq> ret (Exited k)"
  using assms gt_schedule_true by (fastforce simp: gt_return_def Let_def split: if_splits)

lemma gt_return_never_exits_witness:
  "gt_return 1 (sample_sched sample_table 0) \<noteq> ret (Exited 1)"
  using gt_return_never_exits [of "sample_sched sample_table 0"] by simp

section \<open>Creating threads\<close>

lemma find_slot_find: "p \<le> 5 \<Longrightarrow> find_slot tab p = find (\<lambda>i. state (tab ! i) = Unused) [p..<5]"
proof (induction tab p rule: find_slot.induct)
  case (1 tab p)
  then show ?case by (subst find_slot.simps) (auto simp: upt_conv_Cons)
qed

lemma find_slot_Some: "find_slot tab 0 = Some p \<Longrightarrow>
    p < 5 \<and> state (tab ! p) = Unused \<and> (\<forall>i<p. state (tab ! i) \<noteq> Unused)"
  by (auto simp: find_slot_find find_Some_iff)

lemma find_slot_None: "find_slot tab 0 = None \<longleftrightarrow> (\<forall>i<5. state (tab ! i) \<noteq> Unused)"
  by (auto simp: find_slot_find find_None_iff)

lemma clamp_priority_range: "0 \<le> clamp_priority k" "clamp_priority k \<le> 10"
  by (simp_all add: clamp_priority_def)

lemma gt_create_slot:
  assumes "length (gt_table s) = 5" "find_slot (gt_table s) 0 = Some p" "stack \<noteq> 0"
    and c: "gt_create g f prio stack s = (r, s')"
  shows "r = 0" "length (gt_table s') = 5" "gt_current s' = gt_current s"
    "total_tickets s' = i32 (total_tickets s + (11 - clamp_priority prio))"
    "blocks s' = stack # blocks s" "sigmask s' = sigmask s" "get_next_thread s' = get_next_thread s"
    "mem s' = (mem s)(stack + 4194296 := g, stack + 4194288 := f)"
    "\<And>i. i \<noteq> p \<Longrightarrow> gt_table s' ! i = gt_table s ! i"
    "thread_view s' p = \<lparr>v_state = Ready, v_priority = clamp_priority prio, v_skip = 0,
       v_lo = total_tickets s, v_hi = i32 (total_tickets s + (10 - clamp_priority prio))\<rparr>"
    "rsp (ctx (gt_table s' ! p)) = stack + 4194288" "handlers s' = handlers s"
proof -
  have p: "p < 5" using find_slot_Some [OF assms(2)] by simp
  show "r = 0" "length (gt_table s') = 5" "gt_current s' = gt_current s" "handlers s' = handlers s"
    "total_tickets s' = i32 (total_tickets s + (11 - clamp_priority prio))"
    "blocks s' = stack # blocks s" "sigmask s' = sigmask s" "get_next_thread s' = get_next_thread s"
    "mem s' = (mem s)(stack + 4194296 := g, stack + 4194288 := f)"
    using c assms(1-3) by (auto simp: gt_create_def Let_def)
  show "gt_table s' ! i = gt_table s ! i" if "i \<noteq> p" for i
    using c assms(1-3) that by (auto simp: gt_create_def Let_def init_thread_stats_def gettimeofday_def)
  show "thread_view s' p = \<lparr>v_state = Ready, v_priority = clamp_priority prio, v_skip = 0,
       v_lo = total_tickets s, v_hi = i32 (total_tickets s + (10 - clamp_priority prio))\<rparr>"
    "rsp (ctx (gt_table s' ! p)) = stack + 4194288"
    using c assms(1-3) p
    by (auto simp: gt_create_def Let_def init_thread_stats_def gettimeofday_def view_def)
qed

text \<open>
  Claim C35. \<open>gt_create\<close> takes the lowest unused slot and makes it a ready thread with the
  priority clamped to 0..10, a cleared skip count and the next \<open>11 - priority\<close> tickets, in
  32-bit arithmetic; it reports failure, changing nothing, exactly if the table is full or \<open>malloc\<close> fails.
\<close>

theorem gt_create_correct:
  assumes "length (gt_table s) = 5" "gt_create g f prio stack s = (r, s')"
  shows "(r = - 1 \<and> s' = s \<and> (stack = 0 \<or> (\<forall>i<5. thread_state s i \<noteq> Unused))) \<or>
    (\<exists>p<5. r = 0 \<and> stack \<noteq> 0 \<and> thread_state s p = Unused \<and> (\<forall>i<p. thread_state s i \<noteq> Unused) \<and>
       thread_view s' p = \<lparr>v_state = Ready, v_priority = clamp_priority prio, v_skip = 0,
         v_lo = total_tickets s, v_hi = i32 (total_tickets s + (MinPriority - clamp_priority prio))\<rparr> \<and>
       (\<forall>i. i \<noteq> p \<longrightarrow> gt_table s' ! i = gt_table s ! i) \<and>
       total_tickets s' = i32 (total_tickets s + (MinPriority - clamp_priority prio + 1)) \<and>
       blocks s' = stack # blocks s)"
proof (cases "find_slot (gt_table s) 0")
  case None
  then show ?thesis using None [unfolded find_slot_None] assms(2) by (simp add: gt_create_def)
next
  case (Some p)
  show ?thesis
  proof (cases "stack = 0")
    case True
    then show ?thesis using Some assms by (simp add: gt_create_def)
  next
    case False
    note c = gt_create_slot [OF assms(1) Some False assms(2)]
    show ?thesis
      by (rule disjI2, rule exI [of _ p]) (use c False find_slot_Some [OF Some] in auto)
  qed
qed

theorem gt_create_correct_witness:
  "let (r, s') = gt_create 5 6 12 0x1000000 (sample_sched sample_table 0)
   in r = 0 \<and> thread_state s' 3 = Ready \<and> priority (gt_table s' ! 3) = 10 \<and> total_tickets s' = 37"
proof -
  obtain r s' where c: "gt_create 5 6 12 0x1000000 (sample_sched sample_table 0) = (r, s')" by fastforce
  have less5: "(\<exists>p<5. P p) \<longleftrightarrow> P 0 \<or> P 1 \<or> P 2 \<or> P 3 \<or> P 4" for P :: "nat \<Rightarrow> bool"
    by (auto simp: less_Suc_eq eval_nat_numeral)
  have "thread_view s' 3 = \<lparr>v_state = Ready, v_priority = 10, v_skip = 0, v_lo = 36, v_hi = 36\<rparr> \<and>
      r = 0 \<and> total_tickets s' = 37"
    using gt_create_correct [OF _ c] unfolding less5
    by (auto simp: clamp_priority_def dest: spec [where x = 3])
  then show ?thesis using c by (auto simp: view_def)
qed

text \<open>
  Creating a thread keeps the invariant of the thread table: states, priorities, and the
  pairwise disjoint ticket ranges below \<open>total_tickets\<close>.
\<close>

lemma gt_create_wf:
  assumes "sched_wf s" "gt_create g f prio stack s = (r, s')" "total_tickets s + 11 < 2 ^ 31"
  shows "sched_wf s'"
proof (cases "find_slot (gt_table s) 0 = None \<or> stack = 0")
  case True
  then show ?thesis using assms by (auto simp: gt_create_def split: option.splits)
next
  case False
  note wf = sched_wfD [OF assms(1)]
  from False obtain p where p: "find_slot (gt_table s) 0 = Some p" "stack \<noteq> 0" by auto
  note c = gt_create_slot [OF wf(1) p assms(2)] and cl = clamp_priority_range [of prio]
  have i: "i32 (total_tickets s + (11 - clamp_priority prio)) = total_tickets s + (11 - clamp_priority prio)"
    "i32 (total_tickets s + (10 - clamp_priority prio)) = total_tickets s + (10 - clamp_priority prio)"
    using wf(3) cl assms(3) by simp_all
  have v: "thread_view s' k = (if k = p then \<lparr>v_state = Ready, v_priority = clamp_priority prio,
      v_skip = 0, v_lo = total_tickets s, v_hi = total_tickets s + (10 - clamp_priority prio)\<rparr>
      else thread_view s k)" for k
    using c(9,10) i(2) by simp
  have "tickets_ok (thread_view s') (total_tickets s')"
    using wf(3,8) cl unfolding tickets_ok_def c(4) i v by fastforce
  then show ?thesis
    using wf c(1-4) cl i(1) unfolding sched_wf_def views_ok_def v by auto
qed

text \<open>
  The stack \<open>gt_create\<close> prepares starts the thread: the first switch to it jumps
  to \<open>f\<close>, and the word then on top of its stack is the address of \<open>gt_stop\<close>, so \<open>f\<close>
  returns into \<open>gt_stop\<close>.
\<close>

lemma gt_create_first_switch:
  assumes "length (gt_table s) = 5" "gt_create g f prio stack s = (0, s')"
    and "find_slot (gt_table s) 0 = Some p" "i < 5" "i \<noteq> p"
  shows "rip (gt_switch i p s') = f \<and> mem (gt_switch i p s') (rsp (regs (gt_switch i p s'))) = g"
proof -
  have "stack \<noteq> 0" using assms(2,3) by (auto simp: gt_create_def)
  note c = gt_create_slot [OF assms(1,3) this assms(2)]
  have "stack + 4194288 \<noteq> stack + 4194296" by simp
  then show ?thesis using c(2,8,11) assms(4,5) by (simp add: gt_switch_def Let_def)
qed

lemma gt_create_first_switch_witness:
  "rip (gt_switch 0 3 (snd (gt_create 5 6 12 0x1000000 (sample_sched sample_table 0)))) = 6"
proof -
  let ?s = "sample_sched sample_table 0"
  have slot: "find_slot (gt_table ?s) 0 = Some 3"
    by (simp add: find_slot.simps sample_table_def)
  then have c: "gt_create 5 6 12 0x1000000 ?s = (0, snd (gt_create 5 6 12 0x1000000 ?s))"
    by (simp add: gt_create_def Let_def)
  show ?thesis using gt_create_first_switch [OF _ c slot, of 0] by simp
qed

section \<open>Ending threads\<close>

text \<open>
  A created thread cannot end cleanly: the block \<open>gt_return\<close> frees is found as
  the saved stack pointer plus 16, which lies inside or at the end of the stack block, never
  at its start, so the pointer passed to \<open>free\<close> was not returned by \<open>malloc\<close>. (Stack
  blocks are taken to be separated by at least one byte of allocator data.)
\<close>

lemma gt_return_invalid_free:
  fixes s r and base :: u64
  defines "p \<equiv> rsp (ctx (gt_table s ! gt_current s))"
  assumes "gt_current s \<noteq> 0" "gt_current s < length (gt_table s)"
    and "unat base \<le> unat p" "unat p \<le> unat base + nat (StackSize - 16)"
    and "unat base + nat StackSize < 2 ^ 64"
    and apart: "\<forall>b\<in>set (blocks s). unat b \<le> unat base \<or> unat base + nat StackSize < unat b"
  shows "gt_return r s = fail InvalidFree"
proof -
  have u: "unat (p + 16) = unat p + 16"
    using assms(5,6) by (simp add: unat_word_ariths)
  then have "p + 16 \<notin> set (blocks s)" using apart assms(4,5) by auto
  moreover have "p + 16 \<noteq> 0" using u by (metis add_is_0 unat_0 zero_neq_numeral)
  ultimately have "free_stack (p + 16) s1 = fail InvalidFree" if "blocks s1 = blocks s" for s1
    using that by (simp add: free_stack_def)
  then show ?thesis using assms(2,3) by (simp add: gt_return_def Let_def p_def)
qed

lemma gt_return_invalid_free_witness:
  "gt_return 0 ((sample_sched (sample_table[1 := (in_state Running 3)
     \<lparr>ctx := zero_context\<lparr>rsp := 0x13FFFF0\<rparr>\<rparr>]) 1)\<lparr>blocks := [0x1000000]\<rparr>) = fail InvalidFree"
  by (rule gt_return_invalid_free [where base = "0x1000000"])
    (simp_all add: in_state_def)

section \<open>The lottery is fair\<close>

lemma lottery_scan_wf:
  assumes "sched_wf s" "i < 5" "thread_state s i = Ready \<or> thread_state s i = Running"
  shows "lottery_scan (gt_table s) w 0 = Some i \<longleftrightarrow>
    tickets_lo (gt_table s ! i) \<le> w \<and> w \<le> tickets_hi (gt_table s ! i)"
proof -
  have tk: "tickets_ok (thread_view s) (total_tickets s)" using assms(1) by (rule sched_wfD)
  have uniq: "j = i" if "j < 5" "wins (gt_table s ! j) w" "wins (gt_table s ! i) w" for j
    using tk that assms(2) unfolding tickets_ok_def wins_def by fastforce
  have "lottery_scan (gt_table s) w 0 = Some i \<longleftrightarrow> wins (gt_table s ! i) w"
  proof
    assume w: "wins (gt_table s ! i) w"
    have "find (\<lambda>j. wins (gt_table s ! j) w) [0..<5] \<noteq> None"
      using w assms(2) by (auto simp: find_None_iff)
    then obtain j where j: "find (\<lambda>j. wins (gt_table s ! j) w) [0..<5] = Some j" by blast
    then have "j < 5" "wins (gt_table s ! j) w" by (auto simp: find_Some_iff)
    with uniq w j show "lottery_scan (gt_table s) w 0 = Some i" by (simp add: lottery_scan_find)
  qed (auto simp: lottery_scan_find find_Some_iff)
  then show ?thesis using assms(3) by (simp add: wins_def)
qed

text \<open>
  Claim C37. Of the \<open>total_tickets\<close> equally likely draws, a ready or running thread of
  priority \<open>k\<close> wins exactly \<open>11 - k\<close>, and for those \<open>lottery\<close> picks it.
\<close>

theorem lottery_fair:
  assumes "sched_wf s" "i < 5" "thread_state s i = Ready \<or> thread_state s i = Running"
  shows "card {w. 0 \<le> w \<and> w < total_tickets s \<and> lottery_scan (gt_table s) w 0 = Some i} =
      nat (MinPriority - priority (gt_table s ! i) + 1) \<and>
    (lottery_scan (gt_table s) (int (fst (rand s)) mod total_tickets s) 0 = Some i \<longrightarrow>
      lottery p s = ret (True, i, snd (rand s)))"
proof -
  have tk: "tickets_ok (thread_view s) (total_tickets s)" and tot: "0 < total_tickets s"
    using assms(1) by (rule sched_wfD)+
  let ?lo = "tickets_lo (gt_table s ! i)" and ?hi = "tickets_hi (gt_table s ! i)"
  have r: "0 \<le> ?lo" "?hi = ?lo + (10 - priority (gt_table s ! i))" "?hi < total_tickets s"
    using tk assms(2,3) unfolding tickets_ok_def by auto
  have "{w. 0 \<le> w \<and> w < total_tickets s \<and> lottery_scan (gt_table s) w 0 = Some i} = {?lo..?hi}"
    using r by (auto simp: lottery_scan_wf [OF assms])
  then have "card {w. 0 \<le> w \<and> w < total_tickets s \<and> lottery_scan (gt_table s) w 0 = Some i} =
      nat (?hi + 1 - ?lo)" by simp
  moreover have "lottery_scan (gt_table s) (int (fst (rand s)) mod total_tickets s) 0 = Some i \<Longrightarrow>
      lottery p s = ret (True, i, snd (rand s))"
    using tot by (simp add: lottery_def case_prod_beta)
  ultimately show ?thesis using r(2) by simp
qed



section \<open>Program start\<close>

lemma gt_init_start:
  fixes clock rands c ip m now a
  defines "s \<equiv> gt_init now (set_scheduling_algorithm a (program_start clock rands c ip m))"
  shows "length (gt_table s) = 5" "gt_current s = 0" "total_tickets s = 11"
    "get_next_thread s = Some a" "sigmask s = {}" "blocks s = []"
    "handlers s SIGALRM = Some Gt_alarm_handle" "handlers s SIGINT = Some Gt_int_handle"
    "thread_view s 0 = \<lparr>v_state = Running, v_priority = 0, v_skip = 0, v_lo = 0, v_hi = 10\<rparr>"
    "\<And>i. 0 < i \<Longrightarrow> i < 5 \<Longrightarrow> gt_table s ! i = zero_thread"
  by (simp_all add: s_def gt_init_def Let_def set_scheduling_algorithm_def program_start_def
      init_thread_stats_def gettimeofday_def view_def zero_thread_def)

text \<open>
  After \<open>set_scheduling_algorithm\<close> and \<open>gt_init\<close> from program start the thread
  table satisfies its invariant: slot 0 runs with the tickets 0 to 10, the rest is unused.
\<close>

lemma gt_init_wf [preserves]:
  "sched_wf (gt_init now (set_scheduling_algorithm a (program_start clock rands c ip m)))"
proof -
  let ?s = "gt_init now (set_scheduling_algorithm a (program_start clock rands c ip m))"
  note i = gt_init_start [where now = now and a = a and clock = clock and rands = rands
      and c = c and ip = ip and m = m]
  have u: "thread_state ?s k = Unused" if "0 < k" "k < 5" for k
    using i(10) [OF that] by (simp add: zero_thread_def)
  have z: "thread_state ?s k \<noteq> Unused \<Longrightarrow> k < 5 \<Longrightarrow> k = 0" for k
    using u [of k] by (cases "k = 0") auto
  have r: "thread_state ?s k \<noteq> Running" if "k < 5" "k \<noteq> 0" for k
    using u [of k] that by auto
  show ?thesis
    unfolding sched_wf_def views_ok_def tickets_ok_def
    using i(1-3,9) r z by (auto simp: view_def dest!: z)
qed

text \<open>The state \<open>gt_init\<close> leaves, for the concrete instances of the theorems above.\<close>

definition sample_init :: sched where
  "sample_init = gt_init 7 (set_scheduling_algorithm Round_robin
     (program_start (\<lambda>_. init_timeval) (\<lambda>_ k. 5 * k + 13) zero_context 0 (\<lambda>_. 77)))"

lemma sample_init:
  "sched_wf sample_init" "thread_state sample_init 0 = Running" "priority (gt_table sample_init ! 0) = 0"
  "total_tickets sample_init = 11" "get_next_thread sample_init = Some Round_robin" "gt_current sample_init = 0"
  "length (gt_table sample_init) = 5"
proof -
  note i = gt_init_start [where now = 7 and a = Round_robin and clock = "\<lambda>_. init_timeval"
      and rands = "\<lambda>_ k. 5 * k + 13" and c = zero_context and ip = 0 and m = "\<lambda>_. 77", folded sample_init_def]
  show "sched_wf sample_init" unfolding sample_init_def by (rule gt_init_wf)
  show "thread_state sample_init 0 = Running" "priority (gt_table sample_init ! 0) = 0"
    using arg_cong [OF i(9), of v_state] arg_cong [OF i(9), of v_priority] by simp_all
qed (simp_all add: sample_init_def gt_init_start)

theorem lottery_fair_witness:
  "card {w. 0 \<le> w \<and> w < total_tickets sample_init \<and> lottery_scan (gt_table sample_init) w 0 = Some 0} = 11"
  using lottery_fair [of sample_init 0] by (simp add: sample_init)

theorem gt_schedule_correct_witness:
  "\<exists>found s'. gt_schedule sample_init = ret (found, s') \<and> found \<and> SIGALRM \<notin> sigmask s' \<and>
     thread_state s' (gt_current s') = Running"
proof -
  obtain p s2 where "next_thread (Some Round_robin) (gt_current (gt_reset_sig SIGALRM sample_init))
      (gt_reset_sig SIGALRM sample_init) = ret (True, p, s2)"
    using next_thread_total [of "gt_reset_sig SIGALRM sample_init" Round_robin] by (auto simp: sample_init)
  then have "gt_schedule sample_init = ret (True, switch_to p s2)"
    by (simp add: gt_schedule_def schedule_with_def sample_init)
  with gt_schedule_correct [OF this sample_init(1)] show ?thesis by blast
qed

end
