(* ===== verification/Semaphore.thy ===== *)
theory Semaphore
  imports Queue Gthr_Sched
begin

text \<open>
  \<open>scheduler/g_semaphore.c\<close>: \<open>sem_init\<close>, \<open>sem_wait\<close>, \<open>sem_post\<close>, \<open>sem_try_wait\<close> and
  \<open>sem_destroy\<close>.

  \<open>world\<close> holds one semaphore, the heap of queue items and the process state. The pointer
  \<open>queue\<close> of the semaphore is \<open>None\<close> once it is freed. The operations refine an abstract
  counting semaphore: a value and the list of waiting threads. The locale \<open>semaphore\<close> is
  the contract the program that uses the semaphore relies on.
\<close>

record semaphore_t =
  sem_value :: int
  sem_queue :: "queue_t option"

record world =
  sem :: semaphore_t
  items :: item_heap
  sys :: sched

text \<open>\<open>&gt_table[thread_idx]\<close>\<close>

definition thread_at :: "int \<Rightarrow> nat res" where
  "thread_at idx = (if 0 \<le> idx \<and> idx < int MaxGThreads then ret (nat idx) else fail OutOfBounds)"

definition the_queue :: "world \<Rightarrow> queue_t res" where
  "the_queue w = (case sem_queue (sem w) of None \<Rightarrow> fail NullDeref | Some q \<Rightarrow> ret q)"

definition set_queue :: "queue_t \<times> item_heap \<Rightarrow> world \<Rightarrow> world" where
  "set_queue qh w = w\<lparr>sem := (sem w)\<lparr>sem_queue := Some (fst qh)\<rparr>, items := snd qh\<rparr>"

section \<open>The operations\<close>

text \<open>\<open>Inl c\<close> is \<open>exit(c)\<close>; \<open>queue_ok\<close> tells whether \<open>malloc\<close> delivered the queue.\<close>

definition sem_init :: "int \<Rightarrow> bool \<Rightarrow> world \<Rightarrow> int + world" where
  "sem_init initial_value queue_ok w =
     (let w1 = w\<lparr>sem := \<lparr>sem_value = initial_value, sem_queue = None\<rparr>\<rparr> in
      if \<not> queue_ok then Inl 1
      else Inr (w1\<lparr>sem := (sem w1)\<lparr>sem_queue := Some queue_init\<rparr>\<rparr>))"

definition sem_wait :: "item_block \<Rightarrow> world \<Rightarrow> world res" where
  "sem_wait blk w =
     (let old_mask = sigmask (sys w);
          w1 = w\<lparr>sys := SIG_BLOCK {SIGINT, SIGALRM} (sys w)\<rparr>
      in res_bind
           (if sem_value (sem w1) > 0
            then ret (w1\<lparr>sem := (sem w1)\<lparr>sem_value := sem_value (sem w1) - 1\<rparr>\<rparr>)
            else res_bind (the_queue w1) (\<lambda>q.
                 res_bind (queue_push (q, items w1) (int (gt_current (sys w1))) blk) (\<lambda>qh.
                   let w2 = set_queue qh w1
                   in ret (w2\<lparr>sys := update_thread_state (gt_current (sys w2)) Blocked (sys w2)\<rparr>))))
           (\<lambda>w3. ret (w3\<lparr>sys := SIG_SETMASK old_mask (sys w3)\<rparr>)))"

definition sem_post :: "world \<Rightarrow> world res" where
  "sem_post w =
     (let old_mask = sigmask (sys w);
          w1 = w\<lparr>sys := SIG_BLOCK {SIGINT, SIGALRM} (sys w)\<rparr>
      in res_bind (the_queue w1) (\<lambda>q.
         res_bind
           (if queue_is_empty q
            then ret (w1\<lparr>sem := (sem w1)\<lparr>sem_value := sem_value (sem w1) + 1\<rparr>\<rparr>)
            else res_bind (queue_pop (q, items w1)) (\<lambda>(idx, qh).
                 res_bind (thread_at idx) (\<lambda>thread.
                   let w2 = set_queue qh w1
                   in ret (w2\<lparr>sys := update_thread_state thread Ready (sys w2)\<rparr>))))
           (\<lambda>w3. ret (w3\<lparr>sys := SIG_SETMASK old_mask (sys w3)\<rparr>))))"

text \<open>The second component tells whether the message \<open>Semaphore is not available\<close> is printed.\<close>

definition sem_try_wait :: "world \<Rightarrow> world \<times> bool" where
  "sem_try_wait w =
     (let old_mask = sigmask (sys w);
          w1 = w\<lparr>sys := SIG_BLOCK {SIGINT, SIGALRM} (sys w)\<rparr>;
          (w2, msg) = (if sem_value (sem w1) > 0
                       then (w1\<lparr>sem := (sem w1)\<lparr>sem_value := sem_value (sem w1) - 1\<rparr>\<rparr>, False)
                       else (w1, True))
      in (w2\<lparr>sys := SIG_SETMASK old_mask (sys w2)\<rparr>, msg))"

partial_function (option) sem_destroy_loop :: "world \<Rightarrow> world res" where
  "sem_destroy_loop w =
     res_bind (the_queue w) (\<lambda>q.
       if queue_is_empty q
       then res_bind (queue_pop (q, items w)) (\<lambda>(idx, qh).
            res_bind (thread_at idx) (\<lambda>thread.
              let w1 = set_queue qh w
              in sem_destroy_loop (w1\<lparr>sys := update_thread_state thread Ready (sys w1)\<rparr>)))
       else ret w)"

definition sem_destroy :: "world \<Rightarrow> world res" where
  "sem_destroy w =
     res_bind (sem_destroy_loop w) (\<lambda>w1. ret (w1\<lparr>sem := (sem w1)\<lparr>sem_queue := None\<rparr>\<rparr>))"

section \<open>The abstract counting semaphore\<close>

definition sem_rep :: "item_heap \<Rightarrow> world \<Rightarrow> int \<times> nat list \<Rightarrow> bool" where
  "sem_rep G w vq \<longleftrightarrow>
     sem_value (sem w) = fst vq \<and> (\<forall>i\<in>set (snd vq). i < MaxGThreads) \<and>
     (\<exists>q. sem_queue (sem w) = Some q \<and> queue_rep G (q, items w) (map int (snd vq)))"

fun abs_wait :: "nat \<Rightarrow> int \<times> nat list \<Rightarrow> int \<times> nat list" where
  "abs_wait i (v, q) = (if v > 0 then (v - 1, q) else (v, q @ [i]))"

fun abs_post :: "int \<times> nat list \<Rightarrow> int \<times> nat list" where
  "abs_post (v, []) = (v + 1, [])"
| "abs_post (v, i # q) = (v, q)"

lemma restore_mask [simp]:
  "SIG_SETMASK (sigmask s) (SIG_BLOCK m s) = s"
  "SIG_SETMASK (sigmask s) (update_thread_state i st (SIG_BLOCK m s)) = update_thread_state i st s"
  by (simp_all add: SIG_SETMASK_def SIG_BLOCK_def update_thread_state_def gettimeofday_def Let_def)

lemma SIG_BLOCK_sel [simp]:
  "gt_current (SIG_BLOCK m s) = gt_current s" "gt_table (SIG_BLOCK m s) = gt_table s"
  by (simp_all add: SIG_BLOCK_def)

lemma sem_wait_free:
  assumes "sem_rep G w (v, q)" "v > 0"
  shows "sem_wait blk w = ret (w\<lparr>sem := (sem w)\<lparr>sem_value := v - 1\<rparr>\<rparr>)"
    and "sem_rep G (w\<lparr>sem := (sem w)\<lparr>sem_value := v - 1\<rparr>\<rparr>) (v - 1, q)"
  using assms by (auto simp: sem_wait_def Let_def sem_rep_def)

lemma sem_wait_full:
  assumes "sem_rep G w (v, q)" "v \<le> 0" "block_fresh (the (sem_queue (sem w)), items w) blk"
    and "gt_current (sys w) < 5"
  shows "\<exists>w'. sem_wait blk w = ret w' \<and>
    sys w' = update_thread_state (gt_current (sys w)) Blocked (sys w) \<and>
    sem_rep G w' (v, q @ [gt_current (sys w)])"
proof -
  obtain qq where qq: "sem_queue (sem w) = Some qq" "queue_rep G (qq, items w) (map int q)"
    using assms(1) by (auto simp: sem_rep_def)
  obtain qh where qh: "queue_push (qq, items w) (int (gt_current (sys w))) blk = ret qh"
    "queue_rep G qh (map int q @ [int (gt_current (sys w))])"
    using lq.push_rep [OF qq(2), of blk "int (gt_current (sys w))"] assms(3) qq(1) by auto
  show ?thesis
    using assms qq qh
    by (intro exI [of _ "(set_queue qh w)\<lparr>sys := update_thread_state (gt_current (sys w)) Blocked (sys w)\<rparr>"])
       (auto simp: sem_wait_def Let_def the_queue_def set_queue_def sem_rep_def)
qed

lemma sem_post_free:
  assumes "sem_rep G w (v, [])"
  shows "sem_post w = ret (w\<lparr>sem := (sem w)\<lparr>sem_value := v + 1\<rparr>\<rparr>)"
    and "sem_rep G (w\<lparr>sem := (sem w)\<lparr>sem_value := v + 1\<rparr>\<rparr>) (v + 1, [])"
  using assms lq.is_empty_rep [of G]
  by (auto simp: sem_post_def Let_def sem_rep_def the_queue_def)

lemma sem_post_wake:
  assumes "sem_rep G w (v, i # q)"
  shows "\<exists>w'. sem_post w = ret w' \<and> sys w' = update_thread_state i Ready (sys w) \<and> sem_rep G w' (v, q)"
proof -
  obtain qq where qq: "sem_queue (sem w) = Some qq" "queue_rep G (qq, items w) (int i # map int q)"
    using assms by (auto simp: sem_rep_def)
  obtain qh where qh: "queue_pop (qq, items w) = ret (int i, qh)" "queue_rep G qh (map int q)"
    using lq.pop_rep [OF qq(2)] by blast
  have "\<not> queue_is_empty qq" using lq.is_empty_rep [OF qq(2)] by simp
  then show ?thesis
    using assms qq qh
    by (intro exI [of _ "(set_queue qh w)\<lparr>sys := update_thread_state i Ready (sys w)\<rparr>"])
       (auto simp: sem_post_def Let_def the_queue_def set_queue_def sem_rep_def thread_at_def)
qed

section \<open>The interface of a semaphore\<close>

definition item_fresh :: "world \<Rightarrow> item_block \<Rightarrow> bool" where
  "item_fresh w blk \<longleftrightarrow> (case blk of None \<Rightarrow> False | Some (a, _) \<Rightarrow> items w a = None)"

locale semaphore =
  fixes rep :: "'g \<Rightarrow> world \<Rightarrow> int \<times> nat list \<Rightarrow> bool"
    and wait :: "'b \<Rightarrow> world \<Rightarrow> world res"
    and post :: "world \<Rightarrow> world res"
    and fresh :: "world \<Rightarrow> 'b \<Rightarrow> bool"
  assumes wait_law: "rep G w (v, q) \<Longrightarrow> gt_current (sys w) < 5 \<Longrightarrow> fresh w b \<Longrightarrow>
      \<exists>w'. wait b w = ret w' \<and> rep G w' (abs_wait (gt_current (sys w)) (v, q)) \<and>
        sys w' = (if v > 0 then sys w else update_thread_state (gt_current (sys w)) Blocked (sys w))"
    and post_law: "rep G w (v, q) \<Longrightarrow>
      \<exists>w'. post w = ret w' \<and> rep G w' (abs_post (v, q)) \<and>
        sys w' = (case q of [] \<Rightarrow> sys w | i # _ \<Rightarrow> update_thread_state i Ready (sys w))"
begin

text \<open>Entering and leaving without contention changes nothing.\<close>

lemma enter_leave:
  assumes "rep G w (v, [])" "v > 0" "gt_current (sys w) < 5" "fresh w b"
  shows "\<exists>w1 w2. wait b w = ret w1 \<and> post w1 = ret w2 \<and> rep G w2 (v, []) \<and> sys w2 = sys w"
proof -
  obtain w1 where w1: "wait b w = ret w1" "rep G w1 (v - 1, [])" "sys w1 = sys w"
    using wait_law [OF assms(1,3,4)] assms(2) by auto
  from post_law [OF w1(2)] w1(1,3) show ?thesis by auto
qed

text \<open>A post that finds a waiting thread hands over: the value does not change.\<close>

lemma hand_over:
  assumes "rep G w (v, i # q)"
  shows "\<exists>w'. post w = ret w' \<and> rep G w' (v, q) \<and> sys w' = update_thread_state i Ready (sys w)"
  using post_law [OF assms] by auto

end

interpretation cs: semaphore sem_rep sem_wait sem_post item_fresh
proof
  fix G w v q blk
  assume a: "sem_rep G w (v, q)" "gt_current (sys w) < 5" "item_fresh w blk"
  have "block_fresh (the (sem_queue (sem w)), items w) blk"
    using a(3) by (auto simp: item_fresh_def block_fresh_def split: option.splits)
  then show "\<exists>w'. sem_wait blk w = ret w' \<and> sem_rep G w' (abs_wait (gt_current (sys w)) (v, q)) \<and>
        sys w' = (if v > 0 then sys w else update_thread_state (gt_current (sys w)) Blocked (sys w))"
    using sem_wait_free [OF a(1)] sem_wait_full [OF a(1)] a(2) by (cases "v > 0") auto
next
  fix G w v q
  assume a: "sem_rep G w (v, q)"
  show "\<exists>w'. sem_post w = ret w' \<and> sem_rep G w' (abs_post (v, q)) \<and>
        sys w' = (case q of [] \<Rightarrow> sys w | i # _ \<Rightarrow> update_thread_state i Ready (sys w))"
    using sem_post_free [of G w v] sem_post_wake [of G w v] a by (cases q) auto
qed

text \<open>
  Claim C31. \<open>sem_wait\<close> refines the abstract counting semaphore: with a positive value it
  takes one and does nothing else; otherwise it appends the calling thread to the queue and
  marks it blocked. The signal mask is restored. In both cases it returns to its caller,
  which stays the current thread.
\<close>

theorem sem_wait_refines:
  assumes "sem_rep G w (v, q)" "gt_current (sys w) < 5" "item_fresh w blk"
  shows "\<exists>w'. sem_wait blk w = ret w' \<and> sem_rep G w' (abs_wait (gt_current (sys w)) (v, q)) \<and>
    sys w' = (if v > 0 then sys w else update_thread_state (gt_current (sys w)) Blocked (sys w)) \<and>
    gt_current (sys w') = gt_current (sys w) \<and> sigmask (sys w') = sigmask (sys w)"
  using cs.wait_law [OF assms] by fastforce

text \<open>
  Claim C32. \<open>sem_post\<close> refines the abstract counting semaphore: it makes the thread that
  has waited longest ready, or adds one to the value if none waits; the signal mask is
  restored.
\<close>

theorem sem_post_refines:
  assumes "sem_rep G w (v, q)"
  shows "\<exists>w'. sem_post w = ret w' \<and> sem_rep G w' (abs_post (v, q)) \<and>
    sys w' = (case q of [] \<Rightarrow> sys w | i # _ \<Rightarrow> update_thread_state i Ready (sys w)) \<and>
    sigmask (sys w') = sigmask (sys w)"
  using cs.post_law [OF assms] by (cases q) auto

text \<open>
  \<open>sem_destroy\<close> tests for the opposite of what it needs: on a semaphore with
  no waiting thread it indexes the thread table with \<open>-1\<close>; with waiting threads it wakes
  none of them, and the queue items stay allocated with nothing pointing to them.
\<close>

lemma sem_destroy_wrong_test:
  assumes "sem_rep G w (v, q)"
  shows "sem_destroy w = (if q = [] then fail OutOfBounds
    else ret (w\<lparr>sem := (sem w)\<lparr>sem_queue := None\<rparr>\<rparr>))"
proof -
  obtain qq where qq: "sem_queue (sem w) = Some qq" "queue_rep G (qq, items w) (map int q)"
    using assms by (auto simp: sem_rep_def)
  show ?thesis
  proof (cases "q = []")
    case True
    then have "queue_is_empty qq" "queue_pop (qq, items w) = ret (- 1, qq, items w)"
      using lq.is_empty_rep [OF qq(2)] lq.pop_empty [of G "(qq, items w)"] qq(2) by auto
    then show ?thesis
      using True qq(1) by (simp add: sem_destroy_def sem_destroy_loop.simps the_queue_def thread_at_def)
  next
    case False
    then have "\<not> queue_is_empty qq" using lq.is_empty_rep [OF qq(2)] by auto
    then show ?thesis
      using False qq(1) by (simp add: sem_destroy_def sem_destroy_loop.simps the_queue_def)
  qed
qed

text \<open>
  \<open>sem_try_wait\<close> never blocks, and its caller cannot tell success from failure: only the
  message differs.
\<close>

lemma sem_try_wait_cases:
  assumes "sem_rep G w (v, q)"
  shows "sem_try_wait w = (if v > 0 then (w\<lparr>sem := (sem w)\<lparr>sem_value := v - 1\<rparr>\<rparr>, False) else (w, True))"
  using assms by (auto simp: sem_try_wait_def Let_def sem_rep_def)

section \<open>Concrete instances\<close>

definition sample_world :: "int \<Rightarrow> world" where
  "sample_world v = \<lparr>sem = \<lparr>sem_value = v, sem_queue = Some queue_init\<rparr>, items = Map.empty,
     sys = sample_sched sample_table 0\<rparr>"

lemma sample_world_rep: "sem_rep Map.empty (sample_world v) (v, [])"
  using queue_rep_init by (auto simp: sem_rep_def sample_world_def)

theorem sem_wait_refines_witness:
  "\<exists>w'. sem_wait (Some (3, \<lparr>thread_idx = 9, item_next = Some 8\<rparr>)) (sample_world 0) = ret w' \<and>
     sem_rep Map.empty w' (0, [0]) \<and> thread_state (sys w') 0 = Blocked"
  using sem_wait_refines [OF sample_world_rep, of 0 "Some (3, \<lparr>thread_idx = 9, item_next = Some 8\<rparr>)"]
  by (auto simp: sample_world_def item_fresh_def)

theorem sem_post_refines_witness:
  "\<exists>w'. sem_post (sample_world 0) = ret w' \<and> sem_rep Map.empty w' (1, [])"
  using sem_post_refines [OF sample_world_rep, of 0] by auto

lemma sem_destroy_wrong_test_witness: "sem_destroy (sample_world 1) = fail OutOfBounds"
  using sem_destroy_wrong_test [OF sample_world_rep, of 1] by simp

end
