(* ===== verification/Sched_Main.thy ===== *)
theory Sched_Main
  imports Semaphore
begin

text \<open>
  \<open>scheduler/main.c\<close>: the command line, the start-up of the demo program, and the program
  itself as a system of one main thread and four workers that run \<open>f\<close>.

  A state \<open>prog\<close> holds the world and, per slot, where the thread stands in its code. A step
  is the delivery of \<open>SIGALRM\<close>, a turn of the main thread's loop in \<open>gt_return\<close>, or the
  next call of the current thread. A thread that \<open>sem_wait\<close> has marked blocked goes on with its
  next call, as in the code, until an alarm switches it out.
\<close>

section \<open>The command line\<close>

text \<open>\<open>Inl c\<close> is \<open>exit(c)\<close>.\<close>

fun parse_args :: "string list \<Rightarrow> algorithm option \<Rightarrow> int + algorithm option" where
  "parse_args [] alg = Inr alg"
| "parse_args (arg # args) alg =
     (if arg = ''-rr'' \<or> arg = ''--round-robin'' then parse_args args (Some Round_robin)
      else if arg = ''-rrp'' \<or> arg = ''--round-robin-priority'' then parse_args args (Some Round_robin_prio)
      else if arg = ''-lot'' \<or> arg = ''--lottery'' then parse_args args (Some Lottery)
      else if arg = ''-h'' \<or> arg = ''--help'' then Inl 0
      else Inl 1)"

definition main_args :: "string list \<Rightarrow> int + algorithm option" where
  "main_args args = (if args = [] then Inl 0 else parse_args args None)"

definition policy_args :: "string list" where
  "policy_args = [''-rr'', ''--round-robin'', ''-rrp'', ''--round-robin-priority'', ''-lot'', ''--lottery'']"

lemma parse_args_Inr: "parse_args args alg = Inr r \<Longrightarrow> set args \<subseteq> set policy_args \<and> (r = None \<longrightarrow> args = [] \<and> alg = None)"
  by (induction args alg rule: parse_args.induct)
     (auto simp: policy_args_def split: if_splits)

text \<open>
  \<open>main\<close> reaches \<open>gt_init\<close> only after a scheduling algorithm was set, and only
  with arguments that all name one; every other command line exits first.
\<close>

lemma main_sets_algorithm:
  assumes "main_args args = Inr r"
  shows "r \<noteq> None \<and> set args \<subseteq> set policy_args"
  using assms parse_args_Inr [of args None r] by (auto simp: main_args_def split: if_splits)

lemma main_sets_algorithm_witness:
  "main_args [''-rr'', ''--lottery''] = Inr (Some Lottery) \<and> Some Lottery \<noteq> (None :: algorithm option)"
  using main_sets_algorithm [of "[''-rr'', ''--lottery'']" "Some Lottery"]
  by (simp add: main_args_def)

section \<open>Start-up\<close>

text \<open>
  \<open>stop\<close> and \<open>f\<close> are the addresses of \<open>gt_stop\<close> and of the function \<open>f\<close> of \<open>main.c\<close>,
  \<open>st1\<close> to \<open>st4\<close> what \<open>malloc\<close> returns for the four stacks.
\<close>

definition create_workers :: "u64 \<Rightarrow> u64 \<Rightarrow> u64 \<times> u64 \<times> u64 \<times> u64 \<Rightarrow> sched \<Rightarrow> sched" where
  "create_workers stop f stacks s =
     (case stacks of (st1, st2, st3, st4) \<Rightarrow>
        let (_, s1) = gt_create stop f 3 st1 s;
            (_, s2) = gt_create stop f 0 st2 s1;
            (_, s3) = gt_create stop f 10 st3 s2;
            (_, s4) = gt_create stop f 6 st4 s3
        in s4)"

datatype pc = Main_loop | At_wait | In_section | At_post

record prog =
  world :: world
  pcs :: "nat \<Rightarrow> pc"

definition main_start ::
  "string list \<Rightarrow> bool \<Rightarrow> int \<Rightarrow> u64 \<Rightarrow> u64 \<Rightarrow> u64 \<times> u64 \<times> u64 \<times> u64 \<Rightarrow> world \<Rightarrow> int + prog" where
  "main_start args queue_ok now stop f stacks w =
     (case sem_init 1 queue_ok w of Inl c \<Rightarrow> Inl c
      | Inr w1 \<Rightarrow>
          (case main_args args of Inl c \<Rightarrow> Inl c
           | Inr alg \<Rightarrow>
               let s1 = (case alg of None \<Rightarrow> sys w1 | Some a \<Rightarrow> set_scheduling_algorithm a (sys w1))
               in Inr \<lparr>world = w1\<lparr>sys := create_workers stop f stacks (gt_init now s1)\<rparr>,
                       pcs = (\<lambda>i. if i = 0 then Main_loop else At_wait)\<rparr>))"

abbreviation psys :: "prog \<Rightarrow> sched" where
  "psys p \<equiv> sys (world p)"

definition put_sys :: "sched \<Rightarrow> prog \<Rightarrow> prog" where
  "put_sys s p = p\<lparr>world := (world p)\<lparr>sys := s\<rparr>\<rparr>"

definition at_pc :: "prog \<Rightarrow> pc \<Rightarrow> bool" where
  "at_pc p c \<longleftrightarrow> pcs p (gt_current (psys p)) = c"

definition goto :: "pc \<Rightarrow> prog \<Rightarrow> prog" where
  "goto c p = p\<lparr>pcs := (pcs p)(gt_current (psys p) := c)\<rparr>"

section \<open>The steps of the program\<close>

inductive prog_step :: "prog \<Rightarrow> prog \<Rightarrow> bool" where
  alarm: "deliver_alarm (psys p) = ret s' \<Longrightarrow> prog_step p (put_sys s' p)"
| main_loop: "at_pc p Main_loop \<Longrightarrow> gt_return 1 (psys p) = ret (Switched s') \<Longrightarrow> prog_step p (put_sys s' p)"
| wait: "at_pc p At_wait \<Longrightarrow> item_fresh (world p) blk \<Longrightarrow>
    sem_wait blk (world p) = ret w' \<Longrightarrow> prog_step p (goto In_section p\<lparr>world := w'\<rparr>)"
| work: "at_pc p In_section \<Longrightarrow> prog_step p (goto At_post p)"
| post: "at_pc p At_post \<Longrightarrow> sem_post (world p) = ret w' \<Longrightarrow> prog_step p (goto At_wait p\<lparr>world := w'\<rparr>)"

inductive_cases prog_stepE: "prog_step p p'"

inductive reachable :: "prog \<Rightarrow> prog \<Rightarrow> bool" for p0 where
  start: "reachable p0 p0"
| step: "reachable p0 p \<Longrightarrow> prog_step p p' \<Longrightarrow> reachable p0 p'"

text \<open>A thread is inside from the return of its \<open>sem_wait\<close> to the call of its \<open>sem_post\<close>.\<close>

definition inside :: "prog \<Rightarrow> nat \<Rightarrow> bool" where
  "inside p i \<longleftrightarrow> i < 5 \<and> (pcs p i = In_section \<or> pcs p i = At_post)"

definition in_section :: "prog \<Rightarrow> nat \<Rightarrow> bool" where
  "in_section p i \<longleftrightarrow> i < 5 \<and> (pcs p i = In_section \<or> pcs p i = At_post) \<and> thread_state (psys p) i \<noteq> Blocked"

definition blocked_set :: "sched \<Rightarrow> nat set" where
  "blocked_set s = {i. i < 5 \<and> thread_state s i = Blocked}"

text \<open>
  The invariant of the program, for the value \<open>v\<close> and the queue \<open>q\<close> of its semaphore. A
  thread that was refused and went on can stand in the queue more than once, and can stand there
  while it is ready.
\<close>

definition prog_inv_at :: "item_heap \<Rightarrow> int \<Rightarrow> nat list \<Rightarrow> prog \<Rightarrow> bool" where
  "prog_inv_at G v q p \<longleftrightarrow>
     sched_wf (psys p) \<and> get_next_thread (psys p) \<noteq> None \<and>
     (\<forall>i<5. thread_state (psys p) i \<noteq> Unused) \<and>
     (\<forall>i. pcs p i = Main_loop \<longleftrightarrow> i = 0) \<and>
     sem_rep G (world p) (v, q) \<and> 0 \<le> v \<and> (0 < v \<longrightarrow> q = []) \<and>
     blocked_set (psys p) \<subseteq> set q \<and> 0 \<notin> set q \<and>
     v + int (card {i. inside p i}) = 1 + int (length q)"

definition prog_inv :: "item_heap \<Rightarrow> prog \<Rightarrow> bool" where
  "prog_inv G p \<longleftrightarrow> (\<exists>v q. prog_inv_at G v q p)"

lemma prog_inv_atD:
  assumes "prog_inv_at G v q p"
  shows "sem_rep G (world p) (v, q)" "0 \<le> v" "0 < v \<Longrightarrow> q = []"
    "blocked_set (psys p) \<subseteq> set q" "0 \<notin> set q"
    "v + int (card {i. inside p i}) = 1 + int (length q)"
    "sched_wf (psys p)" "i < 5 \<Longrightarrow> thread_state (psys p) i \<noteq> Unused"
    "pcs p i = Main_loop \<longleftrightarrow> i = 0" "get_next_thread (psys p) \<noteq> None"
  using assms unfolding prog_inv_at_def by blast+

section \<open>Every step keeps the invariant\<close>

lemma sched_wf_mask [simp]: "sched_wf (SIG_BLOCK m s) = sched_wf s"
  by (simp add: sched_wf_def SIG_BLOCK_def)

lemma schedule_keeps:
  assumes "gt_schedule s = ret (b, s')" "sched_wf s" "\<forall>i<5. thread_state s i \<noteq> Unused"
  shows "sched_wf s'" "\<forall>i<5. thread_state s' i \<noteq> Unused"
    "\<And>i. i < 5 \<Longrightarrow> thread_state s' i = Blocked \<longleftrightarrow> thread_state s i = Blocked"
    "get_next_thread s' = get_next_thread s"
proof -
  obtain a where a: "schedule_with (next_thread (Some a)) s = ret (b, s')"
    using gt_schedule_set [OF assms(1)] by blast
  have pk: "thread_state s (gt_current s') \<noteq> Blocked"
    using nt.schedule_views(3) [OF a assms(2)] by (simp add: picked_def)
  note st = gt_schedule_states [OF assms(1,2)] and wf = sched_wfD [OF assms(2)]
  show "sched_wf s'" by (rule gt_schedule_wf [OF assms(1,2)]) (use assms(3) wf in simp)
  show "\<forall>i<5. thread_state s' i \<noteq> Unused" using st assms(3) by simp
  show "get_next_thread s' = get_next_thread s" by (rule nt.schedule_views(9) [OF a assms(2)])
  fix i :: nat assume "i < 5"
  with st [of i] pk show "thread_state s' i = Blocked \<longleftrightarrow> thread_state s i = Blocked"
    by (cases "i = gt_current s'"; cases "i = gt_current s") auto
qed

lemma put_sys_sel [simp]:
  "psys (put_sys s p) = s" "pcs (put_sys s p) = pcs p" "sem (world (put_sys s p)) = sem (world p)"
  "items (world (put_sys s p)) = items (world p)"
  by (simp_all add: put_sys_def)

lemma sem_rep_put_sys [simp]: "sem_rep G (world (put_sys s p)) vq = sem_rep G (world p) vq"
  by (simp add: sem_rep_def)

lemma prog_inv_schedule:
  assumes "prog_inv G p" "gt_schedule (SIG_BLOCK m (psys p)) = ret (b, s')"
  shows "prog_inv G (put_sys s' p)"
proof -
  have wf: "sched_wf (SIG_BLOCK m (psys p))" "\<forall>i<5. thread_state (SIG_BLOCK m (psys p)) i \<noteq> Unused"
    using assms(1) by (auto simp: prog_inv_def prog_inv_at_def)
  note k = schedule_keeps [OF assms(2) wf]
  have "blocked_set s' = blocked_set (psys p)" using k(3) by (auto simp: blocked_set_def)
  moreover have "inside (put_sys s' p) = inside p" by (auto simp: inside_def)
  ultimately show ?thesis using assms(1) k(1,2,4) by (simp add: prog_inv_def prog_inv_at_def SIG_BLOCK_def)
qed

lemma SIG_BLOCK_empty [simp]: "SIG_BLOCK {} s = s"
  by (simp add: SIG_BLOCK_def)

lemma prog_inv_alarm:
  assumes "prog_inv G p" "deliver_alarm (psys p) = ret s'"
  shows "prog_inv G (put_sys s' p)"
proof (cases "SIGALRM \<in> sigmask (psys p) \<or> handlers (psys p) SIGALRM \<noteq> Some Gt_alarm_handle")
  case True
  then have "s' = psys p" using assms(2) by (simp add: deliver_alarm_def)
  then show ?thesis using assms(1) by (simp add: put_sys_def)
next
  case False
  then obtain b where "gt_schedule (SIG_BLOCK {SIGALRM} (psys p)) = ret (b, s')"
    using assms(2) by (auto simp: deliver_alarm_def gt_alarm_handle_def)
  then show ?thesis by (rule prog_inv_schedule [OF assms(1)])
qed

lemma prog_inv_main_loop:
  assumes "prog_inv G p" "gt_return 1 (psys p) = ret (Switched s')" "gt_current (psys p) = 0"
  shows "prog_inv G (put_sys s' p)"
proof -
  obtain b where "gt_schedule (SIG_BLOCK {} (psys p)) = ret (b, s')"
    using assms(2,3) by (auto simp: gt_return_def Let_def split: if_splits)
  then show ?thesis by (rule prog_inv_schedule [OF assms(1)])
qed

lemma sched_wf_update_state:
  assumes "sched_wf s" "i < 5" "thread_state s i \<noteq> Unused" "new \<noteq> Unused"
    "new = Running \<longrightarrow> i = gt_current s"
  shows "sched_wf (update_thread_state i new s)"
proof -
  note wf = sched_wfD [OF assms(1)]
  have "views_ok (thread_view (update_thread_state i new s)) (gt_current s) (total_tickets s)"
  proof (rule views_ok_change)
    show "views_ok (thread_view s) (gt_current s) (total_tickets s)"
      using assms(1) by (simp add: sched_wf_def)
  qed (use wf assms in \<open>auto simp: nth_list_update split: if_splits\<close>)
  then show ?thesis using wf by (simp add: sched_wf_def)
qed

lemma blocked_set_update:
  assumes "length (gt_table s) = 5" "i < 5"
  shows "blocked_set (update_thread_state i new s) =
    (if new = Blocked then insert i (blocked_set s) else blocked_set s - {i})"
  using assms by (auto simp: blocked_set_def nth_list_update split: if_splits)

lemma inside_finite [simp]: "finite {i. inside p i}"
  by (rule finite_subset [of _ "{..<5}"]) (auto simp: inside_def)

lemma update_state_keeps:
  assumes "sched_wf s" "\<forall>i<5. thread_state s i \<noteq> Unused" "i < 5" "new = Blocked \<or> new = Ready"
  shows "sched_wf (update_thread_state i new s)" "\<forall>k<5. thread_state (update_thread_state i new s) k \<noteq> Unused"
    "get_next_thread (update_thread_state i new s) = get_next_thread s"
    "blocked_set (update_thread_state i new s) \<subseteq> insert i (blocked_set s)"
    "new = Ready \<Longrightarrow> blocked_set (update_thread_state i new s) = blocked_set s - {i}"
proof -
  note len = sched_wfD(1) [OF assms(1)]
  show "sched_wf (update_thread_state i new s)" by (rule sched_wf_update_state) (use assms in auto)
  show "\<forall>k<5. thread_state (update_thread_state i new s) k \<noteq> Unused"
    using assms(2-4) len by (auto simp: nth_list_update)
  show "get_next_thread (update_thread_state i new s) = get_next_thread s" by simp
  show "blocked_set (update_thread_state i new s) \<subseteq> insert i (blocked_set s)"
    "new = Ready \<Longrightarrow> blocked_set (update_thread_state i new s) = blocked_set s - {i}"
    using blocked_set_update [OF len assms(3)] by auto
qed

lemma prog_inv_wait:
  assumes inv: "prog_inv G p" and pc: "at_pc p At_wait"
    and fresh: "item_fresh (world p) blk" and w': "sem_wait blk (world p) = ret w'"
  shows "prog_inv G (goto In_section p\<lparr>world := w'\<rparr>)"
proof -
  obtain v q where inv': "prog_inv_at G v q p" using inv by (auto simp: prog_inv_def)
  note I = prog_inv_atD [OF inv']
  define c where "c = gt_current (psys p)"
  note wf = sched_wfD [OF I(7)]
  have c: "c < 5" "pcs p c = At_wait" "c \<noteq> 0"
    using wf(2) pc I(9) [of c] by (auto simp: c_def at_pc_def)
  have law: "sem_rep G w' (abs_wait c (v, q))"
    "sys w' = (if v > 0 then psys p else update_thread_state c Blocked (psys p))"
    using cs.wait_law [OF I(1) wf(2) fresh] w' by (auto simp: c_def)
  let ?p' = "goto In_section p\<lparr>world := w'\<rparr>"
  have pcs': "pcs ?p' = (pcs p)(c := In_section)" by (simp add: goto_def c_def)
  have "{i. inside ?p' i} = insert c {i. inside p i}" "\<not> inside p c"
    using c by (auto simp: inside_def pcs')
  then have in': "card {i. inside ?p' i} = Suc (card {i. inside p i})" by simp
  have s: "sched_wf (sys w')" "\<forall>i<5. thread_state (sys w') i \<noteq> Unused" "get_next_thread (sys w') \<noteq> None"
    using update_state_keeps(1-3) [of "psys p" c Blocked] I(7,8,10) c(1) unfolding law(2) by auto
  show ?thesis
  proof (cases "v > 0")
    case True
    then have "sys w' = psys p" "q = []" using law(2) I(3) by auto
    with I law(1) c True s in' show ?thesis
      unfolding prog_inv_def prog_inv_at_def pcs' by (auto intro!: exI [of _ "v - 1"] exI [of _ "[]"])
  next
    case False
    then have "sys w' = update_thread_state c Blocked (psys p)" using law(2) by simp
    then have "blocked_set (sys w') \<subseteq> insert c (blocked_set (psys p))"
      using update_state_keeps(4) [of "psys p" c Blocked] I(7,8) c(1) by auto
    then have "blocked_set (sys w') \<subseteq> set (q @ [c])" using I(4) by auto
    with I law(1) c False s in' show ?thesis
      unfolding prog_inv_def prog_inv_at_def pcs' by (auto intro!: exI [of _ v] exI [of _ "q @ [c]"])
  qed
qed

lemma prog_inv_work:
  assumes inv: "prog_inv G p" and pc: "at_pc p In_section"
  shows "prog_inv G (goto At_post p)"
proof -
  obtain v q where inv': "prog_inv_at G v q p" using inv by (auto simp: prog_inv_def)
  note I = prog_inv_atD [OF inv']
  define c where "c = gt_current (psys p)"
  have c: "pcs p c = In_section" "c \<noteq> 0" using pc I(9) [of c] by (auto simp: c_def at_pc_def)
  have pcs': "pcs (goto At_post p) = (pcs p)(c := At_post)" "world (goto At_post p) = world p"
    by (simp_all add: goto_def c_def)
  have "inside (goto At_post p) = inside p" using c by (intro ext) (auto simp: inside_def pcs')
  then show ?thesis
    using I c unfolding prog_inv_def prog_inv_at_def pcs' by (auto intro!: exI [of _ v] exI [of _ q])
qed

lemma prog_inv_post:
  assumes inv: "prog_inv G p" and pc: "at_pc p At_post" and w': "sem_post (world p) = ret w'"
  shows "prog_inv G (goto At_wait p\<lparr>world := w'\<rparr>)"
proof -
  obtain v q where inv': "prog_inv_at G v q p" using inv by (auto simp: prog_inv_def)
  note I = prog_inv_atD [OF inv']
  define c where "c = gt_current (psys p)"
  have c: "c < 5" "pcs p c = At_post" "c \<noteq> 0"
    using sched_wfD(2) [OF I(7)] pc I(9) [of c] by (auto simp: c_def at_pc_def)
  have law: "sem_rep G w' (abs_post (v, q))"
    "sys w' = (case q of [] \<Rightarrow> psys p | i # _ \<Rightarrow> update_thread_state i Ready (psys p))"
    using cs.post_law [OF I(1)] w' by auto
  let ?p' = "goto At_wait p\<lparr>world := w'\<rparr>"
  have pcs': "pcs ?p' = (pcs p)(c := At_wait)" by (simp add: goto_def c_def)
  have "{i. inside ?p' i} = {i. inside p i} - {c}" "inside p c" using c by (auto simp: inside_def pcs')
  then have in': "Suc (card {i. inside ?p' i}) = card {i. inside p i}"
    using card_Suc_Diff1 [of "{i. inside p i}" c] by simp
  show ?thesis
  proof (cases q)
    case Nil
    then have "sys w' = psys p" using law(2) by simp
    with I law(1) in' Nil c show ?thesis
      unfolding prog_inv_def prog_inv_at_def pcs' by (auto intro!: exI [of _ "v + 1"] exI [of _ "[]"])
  next
    case (Cons x r)
    then have s': "sys w' = update_thread_state x Ready (psys p)" using law(2) by simp
    have x: "x < 5" using I(1) Cons by (simp add: sem_rep_def)
    note u = update_state_keeps [OF I(7) _ x, of Ready, folded s']
    have "blocked_set (sys w') \<subseteq> set r" using u(5) I(4,8) Cons by auto
    with I law(1) c in' Cons u(1-3) show ?thesis
      unfolding prog_inv_def prog_inv_at_def pcs' by (auto intro!: exI [of _ v] exI [of _ r])
  qed
qed

lemma prog_inv_step [preserves]:
  assumes "prog_inv G p" "prog_step p p'"
  shows "prog_inv G p'"
  using assms(2)
proof (rule prog_stepE)
  fix s' assume "p' = put_sys s' p" "at_pc p Main_loop" "gt_return 1 (psys p) = ret (Switched s')"
  moreover from this(2) have "gt_current (psys p) = 0"
    using assms(1) by (auto simp: at_pc_def prog_inv_def prog_inv_at_def)
  ultimately show ?thesis using prog_inv_main_loop [OF assms(1)] by simp
qed (use assms(1) prog_inv_alarm prog_inv_wait prog_inv_work prog_inv_post in blast)+

section \<open>The state main reaches before its loop\<close>

definition created :: "nat \<Rightarrow> sched \<Rightarrow> bool" where
  "created k s \<longleftrightarrow> sched_wf s \<and> gt_current s = 0 \<and>
     (\<forall>i<5. thread_state s i = (if i = 0 then Running else if i < k then Ready else Unused))"

lemma created_init: "created 1 (gt_init now (set_scheduling_algorithm a (program_start clock rands c ip m)))"
proof -
  note i = gt_init_start [where now = now and a = a and clock = clock and rands = rands
      and c = c and ip = ip and m = m]
  have "thread_state (gt_init now (set_scheduling_algorithm a (program_start clock rands c ip m))) k =
      (if k = 0 then Running else if k < 1 then Ready else Unused)" if "k < 5" for k
    using that i(10) [of k] arg_cong [OF i(9), of v_state] by (simp add: zero_thread_def)
  then show ?thesis using gt_init_wf i(2) by (simp add: created_def)
qed

lemma created_create:
  assumes cr: "created k s" and k: "0 < k" "k < 5" "stack \<noteq> 0" and s': "gt_create g f prio stack s = (r, s')"
    and small: "total_tickets s \<le> 100"
  shows "created (Suc k) s'" "priority (gt_table s' ! k) = clamp_priority prio"
    "\<And>i. i \<noteq> k \<Longrightarrow> gt_table s' ! i = gt_table s ! i"
    "total_tickets s' = total_tickets s + (11 - clamp_priority prio)"
    "get_next_thread s' = get_next_thread s" "sigmask s' = sigmask s" "handlers s' = handlers s"
proof -
  have wf: "sched_wf s" and st: "\<And>i. i < 5 \<Longrightarrow> thread_state s i =
      (if i = 0 then Running else if i < k then Ready else Unused)"
    using cr by (auto simp: created_def)
  have len: "length (gt_table s) = 5" using wf by (rule sched_wfD)
  have "find_slot (gt_table s) 0 = Some k"
  proof (cases "find_slot (gt_table s) 0")
    case None
    then show ?thesis using st [OF k(2)] k by (simp add: find_slot_None)
  next
    case (Some p)
    from find_slot_Some [OF Some] have p: "p < 5" "thread_state s p = Unused"
      "\<forall>i<p. thread_state s i \<noteq> Unused" by auto
    have "\<not> p < k" using st [OF p(1)] p(2) by (auto split: if_splits)
    moreover have "\<not> k < p" using st [OF k(2)] p(3) k(1) by auto
    ultimately show ?thesis using Some by simp
  qed
  note c = gt_create_slot [OF len this k(3) s']
  show "\<And>i. i \<noteq> k \<Longrightarrow> gt_table s' ! i = gt_table s ! i" by (rule c(9))
  show "priority (gt_table s' ! k) = clamp_priority prio"
    using arg_cong [OF c(10), of v_priority] by simp
  have "thread_state s' i = (if i = 0 then Running else if i < Suc k then Ready else Unused)"
    if "i < 5" for i
    using st [OF that] c(9) [of i] arg_cong [OF c(10), of v_state] k(1) by (cases "i = k") auto
  then show "created (Suc k) s'"
    using gt_create_wf [OF wf s'] small c(3) cr by (simp add: created_def)
  show "total_tickets s' = total_tickets s + (11 - clamp_priority prio)"
    "get_next_thread s' = get_next_thread s" "sigmask s' = sigmask s" "handlers s' = handlers s"
    using c(4,6,7,12) small clamp_priority_range [of prio] sched_wfD(3) [OF wf] by simp_all
qed

text \<open>
  The states \<open>p\<close> that \<open>main\<close> reaches when it enters \<open>gt_return\<close>, with the cells \<open>h\<close> of the
  heap allocated before: every \<open>malloc\<close> succeeded and the command line \<open>args\<close> is good.
\<close>

inductive starts :: "string list \<Rightarrow> item_heap \<Rightarrow> prog \<Rightarrow> bool" where
  "main_start args True now stop f (st1, st2, st3, st4) w = Inr p \<Longrightarrow>
   sys w = program_start clock rands c ip m \<Longrightarrow>
   st1 \<noteq> 0 \<Longrightarrow> st2 \<noteq> 0 \<Longrightarrow> st3 \<noteq> 0 \<Longrightarrow> st4 \<noteq> 0 \<Longrightarrow> starts args (items w) p"

lemma starts_facts:
  assumes "starts args h p"
  shows "created 5 (psys p)" "map (\<lambda>i. priority (gt_table (psys p) ! i)) [0..<5] = [0, 3, 0, 10, 6]"
    "total_tickets (psys p) = 36" "\<exists>a. main_args args = Inr (Some a) \<and> get_next_thread (psys p) = Some a"
    "sem_rep h (world p) (1, [])" "pcs p = (\<lambda>i. if i = 0 then Main_loop else At_wait)"
    "sigmask (psys p) = {}" "handlers (psys p) SIGALRM = Some Gt_alarm_handle"
  using assms
proof (induction rule: starts.induct)
  case (1 args now stop f st1 st2 st3 st4 w p clock rands c ip m)
  obtain alg where alg: "main_args args = Inr alg"
    using 1(1) by (cases "main_args args") (simp_all add: main_start_def sem_init_def Let_def)
  obtain a where a: "alg = Some a"
    using parse_args_Inr [of args None alg] alg by (auto simp: main_args_def split: if_splits)
  let ?s0 = "gt_init now (set_scheduling_algorithm a (sys w))"
  obtain r1 s1 where s1: "gt_create stop f 3 st1 ?s0 = (r1, s1)" by fastforce
  obtain r2 s2 where s2: "gt_create stop f 0 st2 s1 = (r2, s2)" by fastforce
  obtain r3 s3 where s3: "gt_create stop f 10 st3 s2 = (r3, s3)" by fastforce
  obtain r4 s4 where s4: "gt_create stop f 6 st4 s3 = (r4, s4)" by fastforce
  have p: "p = \<lparr>world = w\<lparr>sem := \<lparr>sem_value = 1, sem_queue = Some queue_init\<rparr>, sys := s4\<rparr>,
      pcs = (\<lambda>i. if i = 0 then Main_loop else At_wait)\<rparr>"
    using 1(1) alg a s1 s2 s3 s4
    by (auto simp: main_start_def sem_init_def Let_def create_workers_def)
  note i = gt_init_start [where now = now and a = a and clock = clock and rands = rands
      and c = c and ip = ip and m = m, folded 1(2)]
  have c0: "created 1 ?s0" unfolding 1(2) by (rule created_init)
  have cl: "clamp_priority 3 = 3" "clamp_priority 0 = 0" "clamp_priority 10 = 10" "clamp_priority 6 = 6"
    by (simp_all add: clamp_priority_def)
  note c1 = created_create [OF c0 _ _ 1(3) s1, simplified i(3) cl, simplified]
  note c2 = created_create [OF c1(1) _ _ 1(4) s2, simplified c1(4) cl, simplified]
  note c3 = created_create [OF c2(1) _ _ 1(5) s3, simplified c2(4) cl, simplified]
  note c4 = created_create [OF c3(1) _ _ 1(6) s4, simplified c3(4) cl, simplified]
  have five: "Suc (Suc (Suc (Suc (Suc 0)))) = 5" by simp
  { case 1 show ?case using c4(1) by (simp add: p five)
  next
    case 2
    have "priority (gt_table ?s0 ! 0) = 0" using arg_cong [OF i(9), of v_priority] by simp
    then show ?case
      using c1(2,3) c2(2,3) c3(2,3) c4(2,3)
      by (simp add: p upt_rec clamp_priority_def eval_nat_numeral)
  next
    case 3 show ?case using c1(4) c2(4) c3(4) c4(4) i(3) by (simp add: p clamp_priority_def)
  next
    case 4 show ?case using c1(5) c2(5) c3(5) c4(5) i(4) alg a by (simp add: p)
  next
    case 5 show ?case using queue_rep_init by (auto simp: p sem_rep_def)
  next
    case 6 show ?case by (simp add: p)
  next
    case 7 show ?case using c1(6) c2(6) c3(6) c4(6) i(5) by (simp add: p)
  next
    case 8 show ?case using c1(7) c2(7) c3(7) c4(7) i(7) by (simp add: p)
  }
qed

lemma prog_inv_start [preserves]: "starts args h p \<Longrightarrow> prog_inv h p"
proof -
  assume "starts args h p"
  note f = starts_facts [OF this]
  have "{i. inside p i} = {}" "blocked_set (psys p) = {}"
    using f(1) by (auto simp: inside_def blocked_set_def created_def f(6))
  then have "prog_inv_at h 1 [] p"
    using f by (auto simp: prog_inv_at_def created_def)
  then show ?thesis by (auto simp: prog_inv_def)
qed

lemma prog_inv_reachable:
  assumes "reachable p0 p" "starts args h p0"
  shows "prog_inv h p"
  using assms by induction (auto intro: preserves)

lemma starts_ex: "main_args args = Inr (Some a) \<Longrightarrow> \<exists>p. starts args h p"
proof -
  assume a: "main_args args = Inr (Some a)"
  let ?w = "\<lparr>sem = \<lparr>sem_value = 0, sem_queue = None\<rparr>, items = h,
    sys = program_start (\<lambda>_. init_timeval) (\<lambda>_ k. k) zero_context 0 (\<lambda>_. 0)\<rparr>"
  have "\<exists>p. main_start args True 7 1 2 (0x1000000, 0x2000000, 0x3000000, 0x4000000) ?w = Inr p"
    by (simp add: main_start_def sem_init_def a Let_def)
  then show ?thesis using starts.intros [where w = ?w] by fastforce
qed

section \<open>What the program guarantees\<close>

text \<open>
  When \<open>main\<close> reaches its loop the main thread runs, the four workers are ready
  with the priorities 3, 0, 10 and 6, the thread table satisfies its invariant with 36
  tickets in play, and a policy is set.
\<close>

lemma main_starts_workers:
  assumes "starts args h p"
  shows "sched_wf (psys p) \<and>
    (\<forall>i<5. thread_state (psys p) i = (if i = 0 then Running else Ready)) \<and>
    map (\<lambda>i. priority (gt_table (psys p) ! i)) [0..<5] = [0, 3, 0, 10, 6] \<and>
    total_tickets (psys p) = 36 \<and> get_next_thread (psys p) \<noteq> None"
  using starts_facts [OF assms] by (auto simp: created_def)

lemma main_starts_workers_witness:
  "\<exists>p. starts [''-lot''] Map.empty p \<and> sched_wf (psys p) \<and> total_tickets (psys p) = 36"
proof -
  obtain p where p: "starts [''-lot''] Map.empty p"
    using starts_ex [of "[''-lot'']" Lottery] by (auto simp: main_args_def)
  from main_starts_workers [OF p] p show ?thesis by blast
qed

text \<open>
  Claim C5. What the semaphore of the demo program guarantees: its value is 0 or 1; at 1 no
  thread is between its \<open>sem_wait\<close> and its \<open>sem_post\<close> and none waits; at 0 the threads
  there are one more than the entries of the queue. So there is at most one as long
  as the queue is empty, and every thread that is refused adds one.
\<close>

theorem section_and_queue:
  assumes "starts args h p0" "reachable p0 p"
  shows "\<exists>v q. sem_rep h (world p) (v, q) \<and> (v = 0 \<or> v = 1) \<and>
    (v = 1 \<longrightarrow> q = [] \<and> (\<forall>i. \<not> inside p i)) \<and>
    (v = 0 \<longrightarrow> card {i. inside p i} = length q + 1) \<and>
    (q = [] \<longrightarrow> (\<forall>i j. inside p i \<longrightarrow> inside p j \<longrightarrow> i = j))"
proof -
  obtain v q where "prog_inv_at h v q p"
    using prog_inv_reachable [OF assms(2,1)] by (auto simp: prog_inv_def)
  note I = prog_inv_atD [OF this]
  have v: "v = 0 \<or> v = 1" using I(2,3,6) by (cases "0 < v") auto
  have one: "v = 1 \<Longrightarrow> q = [] \<and> {i. inside p i} = {}" using I(3,6) by simp
  have zero: "v = 0 \<Longrightarrow> card {i. inside p i} = length q + 1" using I(6) by simp
  have "card {i. inside p i} \<le> 1" if "q = []" using v one zero that by auto
  then have "i = j" if "q = []" "inside p i" "inside p j" for i j
    using that by (auto simp: card_le_Suc0_iff_eq)
  with v one zero I(1) show ?thesis by blast
qed

text \<open>
  Claim C6. No wake-up is lost: while a thread of the demo program is blocked, it stands in the
  queue of the semaphore, whose value is 0, and some other thread that is not blocked is on
  its way to \<open>sem_post\<close>.
\<close>

theorem blocked_threads_have_a_waker:
  assumes "starts args h p0" "reachable p0 p" "i < 5" "thread_state (psys p) i = Blocked"
  shows "(\<exists>q. sem_rep h (world p) (0, q) \<and> i \<in> set q) \<and>
    (\<exists>j. j \<noteq> i \<and> inside p j \<and> (thread_state (psys p) j = Ready \<or> thread_state (psys p) j = Running))"
proof -
  obtain v q where "prog_inv_at h v q p"
    using prog_inv_reachable [OF assms(2,1)] by (auto simp: prog_inv_def)
  note I = prog_inv_atD [OF this]
  have i: "i \<in> set q" using I(4) assms(3,4) by (auto simp: blocked_set_def)
  then have v: "v = 0" using I(2,3) by force
  have "card (blocked_set (psys p)) \<le> length q"
    using card_mono [OF finite_set I(4)] card_length [of q] by linarith
  then have "card (blocked_set (psys p)) < card {i. inside p i}" using I(6) v by simp
  then have "\<not> {i. inside p i} \<subseteq> blocked_set (psys p)"
    using card_mono [of "blocked_set (psys p)" "{i. inside p i}"] finite_subset [OF I(4)] by auto
  then obtain j where j: "inside p j" "thread_state (psys p) j \<noteq> Blocked" "j < 5"
    by (auto simp: blocked_set_def inside_def)
  then have "thread_state (psys p) j = Ready \<or> thread_state (psys p) j = Running"
    using I(8) [of j] by (cases "thread_state (psys p) j") simp_all
  then show ?thesis using i v I(1) j assms(4) by metis
qed

text \<open>
  Claim C34. Preemption never gets stuck: in every state the demo program can reach, whatever
  the policy, \<open>gt_schedule\<close> returns. (The main thread never blocks.)
\<close>

theorem schedule_never_stuck:
  assumes "starts args h p0" "reachable p0 p"
  shows "\<exists>s'. gt_schedule (psys p) = ret (True, s')"
proof -
  obtain v q where inv: "prog_inv_at h v q p"
    using prog_inv_reachable [OF assms(2,1)] by (auto simp: prog_inv_def)
  note I = prog_inv_atD [OF inv] and wf = sched_wfD [OF prog_inv_atD(7) [OF inv]]
  have "0 \<notin> blocked_set (psys p)" using I(4,5) by blast
  then have "thread_state (psys p) 0 \<noteq> Blocked" by (simp add: blocked_set_def)
  then have "thread_state (psys p) (gt_current (psys p)) \<noteq> Blocked \<or> (\<exists>t<5. thread_state (psys p) t = Ready)"
    using wf(4) [of 0] I(8) [of 0]
    by (cases "gt_current (psys p) = 0"; cases "thread_state (psys p) 0") (auto intro: exI [of _ 0])
  moreover obtain a where a: "get_next_thread (psys p) = Some a" using I(10) by blast
  ultimately obtain p' s' where "next_thread (Some a) (gt_current (psys p)) (gt_reset_sig SIGALRM (psys p)) =
      ret (True, p', s')"
    using next_thread_total [of "gt_reset_sig SIGALRM (psys p)" a] wf(1-3) by auto
  then show ?thesis by (simp add: gt_schedule_def schedule_with_def a)
qed

theorem schedule_never_stuck_witness:
  "\<exists>p s'. starts [''-rr''] Map.empty p \<and> gt_schedule (psys p) = ret (True, s')"
proof -
  obtain p where p: "starts [''-rr''] Map.empty p"
    using starts_ex [of "[''-rr'']" Round_robin] by (auto simp: main_args_def)
  from schedule_never_stuck [OF p reachable.start] p show ?thesis by blast
qed

section \<open>A run of the program\<close>

lemma round_robin_next:
  assumes "get_next_thread s = Some Round_robin" "thread_state s (gt_current s) \<noteq> Ready"
    "thread_state s (advance (gt_current s)) = Ready"
  shows "gt_schedule s = ret (True, switch_to (advance (gt_current s)) (gt_reset_sig SIGALRM s))"
proof -
  let ?s = "gt_reset_sig SIGALRM s"
  have "round_robin (gt_current ?s) ?s = ret (True, advance (gt_current s), ?s)"
    using assms by (subst round_robin.simps) (simp add: Let_def)
  then show ?thesis by (simp add: gt_schedule_def schedule_with_def assms(1))
qed

lemma round_robin_to:
  assumes "sched_wf s" "get_next_thread s = Some Round_robin" "n = advance (gt_current s)"
    "thread_state s (gt_current s) = Running" "thread_state s n = Ready"
  shows "\<exists>s'. gt_schedule s = ret (True, s') \<and> gt_current s' = n \<and> sched_wf s' \<and>
    get_next_thread s' = Some Round_robin \<and> handlers s' = handlers s \<and> sigmask s' = sigmask s - {SIGALRM} \<and>
    (\<forall>i<5. thread_state s' i = (if i = n then Running else if i = gt_current s then Ready else thread_state s i))"
proof -
  let ?s' = "switch_to n (gt_reset_sig SIGALRM s)"
  have g: "gt_schedule s = ret (True, ?s')" using round_robin_next assms by simp
  show ?thesis
    using gt_schedule_states [OF g assms(1)] gt_schedule_wf [OF g assms(1)] assms
    by (intro exI [of _ ?s']) (simp add: g)
qed

text \<open>Under \<open>-rr\<close>: worker 1 enters the section, the alarm preempts it, worker 2 is refused.\<close>

lemma worker_two_refused:
  assumes st: "starts [''-rr''] Map.empty p0"
  shows "\<exists>p. reachable p0 p \<and> gt_current (psys p) = 2 \<and> pcs p 1 = In_section \<and> pcs p 2 = In_section \<and>
    thread_state (psys p) 1 = Ready \<and> thread_state (psys p) 2 = Blocked"
proof -
  note f = starts_facts [OF st] and cr = starts_facts(1) [OF st, unfolded created_def]
  have a: "get_next_thread (psys p0) = Some Round_robin" using f(4) by (simp add: main_args_def)
  obtain s1 where s1: "gt_schedule (psys p0) = ret (True, s1)" "gt_current s1 = 1" "sched_wf s1"
    "get_next_thread s1 = Some Round_robin" "handlers s1 = handlers (psys p0)" "sigmask s1 = {}"
    "\<forall>i<5. thread_state s1 i = (if i = 1 then Running else Ready)"
    using round_robin_to [of "psys p0" 1] a cr f(7) by (auto simp: advance_def)
  define p1 where "p1 = put_sys s1 p0"
  have r1: "prog_step p0 p1"
    unfolding p1_def by (rule prog_step.main_loop)
      (use cr f(6) s1(1) in \<open>simp_all add: at_pc_def gt_return_def\<close>)
  let ?w = "world p1\<lparr>sem := (sem (world p1))\<lparr>sem_value := 0\<rparr>\<rparr>"
  have rep1: "sem_rep Map.empty (world p1) (1, [])" using f(5) by (simp add: p1_def)
  define p2 where "p2 = goto In_section p1\<lparr>world := ?w\<rparr>"
  have fresh: "item_fresh (world p1) (Some (0, \<lparr>thread_idx = 0, item_next = None\<rparr>))"
    using rep1 queue_rep_heap_empty by (fastforce simp: item_fresh_def sem_rep_def)
  have r2: "prog_step p1 p2"
    unfolding p2_def by (rule prog_step.wait [OF _ fresh])
      (use s1(2,7) f(6) sem_wait_free(1) [OF rep1] in \<open>simp_all add: at_pc_def p1_def\<close>)
  obtain s3 where s3: "gt_schedule (SIG_BLOCK {SIGALRM} s1) = ret (True, s3)" "gt_current s3 = 2" "sched_wf s3"
    "\<forall>i<5. thread_state s3 i = (if i = 2 then Running else Ready)"
    using round_robin_to [of "SIG_BLOCK {SIGALRM} s1" 2] s1(2-7)
    by (simp add: advance_def) (auto simp: SIG_BLOCK_def)
  have "psys p2 = s1" by (simp add: p2_def p1_def)
  then have r3: "prog_step p2 (put_sys s3 p2)"
    by (intro prog_step.alarm)
      (use s1(5,6) f(8) s3(1) in \<open>simp add: deliver_alarm_def gt_alarm_handle_def\<close>)
  let ?p3 = "put_sys s3 p2"
  have rep3: "sem_rep Map.empty (world ?p3) (0, [])"
    using sem_wait_free(2) [OF rep1] by (simp add: p2_def)
  obtain w4 where w4: "sem_wait (Some (0, \<lparr>thread_idx = 0, item_next = None\<rparr>)) (world ?p3) = ret w4"
    "sys w4 = update_thread_state 2 Blocked s3"
    using cs.wait_law [OF rep3, of "Some (0, \<lparr>thread_idx = 0, item_next = None\<rparr>)"] s3(2) fresh
    by (auto simp: item_fresh_def p2_def)
  have r4: "prog_step ?p3 (goto In_section ?p3\<lparr>world := w4\<rparr>)"
    by (rule prog_step.wait [where blk = "Some (0, \<lparr>thread_idx = 0, item_next = None\<rparr>)"])
      (use s3(2,4) w4(1) f(6) s1(2) fresh in
        \<open>simp_all add: at_pc_def p2_def p1_def goto_def item_fresh_def\<close>)
  have "reachable p0 (goto In_section ?p3\<lparr>world := w4\<rparr>)"
    by (rule reachable.intros r1 r2 r3 r4)+
  then show ?thesis
    using s3 w4(2) s1(2) sched_wfD(1) [OF s3(3)]
    by (intro exI [of _ "goto In_section ?p3\<lparr>world := w4\<rparr>"]) (simp add: goto_def p2_def p1_def)
qed

lemma rr_start:
  obtains p where "starts [''-rr''] Map.empty p"
  using starts_ex [of "[''-rr'']" Round_robin] by (auto simp: main_args_def)

theorem section_and_queue_witness:
  "\<exists>p0 p v q. starts [''-rr''] Map.empty p0 \<and> reachable p0 p \<and> sem_rep Map.empty (world p) (v, q) \<and>
     (v = 0 \<longrightarrow> card {i. inside p i} = length q + 1) \<and> inside p 2"
proof -
  obtain p0 where p0: "starts [''-rr''] Map.empty p0" by (rule rr_start)
  obtain p where p: "reachable p0 p" "pcs p 2 = In_section" using worker_two_refused [OF p0] by blast
  from section_and_queue [OF p0 p(1)] p0 p show ?thesis by (auto simp: inside_def)
qed

theorem blocked_threads_have_a_waker_witness:
  "\<exists>p0 p. starts [''-rr''] Map.empty p0 \<and> reachable p0 p \<and>
     thread_state (psys p) 2 = Blocked \<and> (\<exists>j. j \<noteq> 2 \<and> inside p j)"
proof -
  obtain p0 where p0: "starts [''-rr''] Map.empty p0" by (rule rr_start)
  obtain p where p: "reachable p0 p" "thread_state (psys p) 2 = Blocked"
    using worker_two_refused [OF p0] by blast
  from blocked_threads_have_a_waker [OF p0 p(1) _ p(2)] p0 p show ?thesis by auto
qed



end
