(* ===== verification/Cformat.thy ===== *)
theory Cformat
  imports Prelude
begin

text \<open>
  What the C sources use of \<open>printf\<close> and of the string functions of the C library, on HOL
  strings: the conversions for integers with width and zero padding, the precision of
  \<open>s\<close> conversions, C strings inside longer buffers. Printed numbers can be read back.
\<close>

section \<open>Conversions\<close>

abbreviation NUL :: char where "NUL \<equiv> CHR 0x00"

definition digit :: "nat \<Rightarrow> char" where
  "digit d = char_of (if d < 10 then d + 48 else d + 55)"

fun show_base :: "nat \<Rightarrow> nat \<Rightarrow> string" where
  "show_base b n = (if n < b \<or> b < 2 then [digit n] else show_base b (n div b) @ [digit (n mod b)])"

declare show_base.simps [simp del]

definition show_nat :: "nat \<Rightarrow> string" where
  "show_nat n = show_base 10 n"

definition show_int :: "int \<Rightarrow> string" where
  "show_int i = (if i < 0 then CHR ''-'' # show_nat (nat (- i)) else show_nat (nat i))"

definition pad_left :: "nat \<Rightarrow> char \<Rightarrow> string \<Rightarrow> string" where
  "pad_left w c s = replicate (w - length s) c @ s"

definition pad_right :: "nat \<Rightarrow> char \<Rightarrow> string \<Rightarrow> string" where
  "pad_right w c s = s @ replicate (w - length s) c"

text \<open>The conversions \<open>d\<close> with width, \<open>d\<close> with zero flag and width, and \<open>X\<close> with both.\<close>

definition fmt_d :: "nat \<Rightarrow> int \<Rightarrow> string" where
  "fmt_d w i = pad_left w CHR '' '' (show_int i)"

definition fmt_0d :: "nat \<Rightarrow> int \<Rightarrow> string" where
  "fmt_0d w i = (if i < 0 then CHR ''-'' # pad_left (w - 1) CHR ''0'' (show_nat (nat (- i)))
                 else pad_left w CHR ''0'' (show_nat (nat i)))"

definition fmt_0X :: "nat \<Rightarrow> nat \<Rightarrow> string" where
  "fmt_0X w n = pad_left w CHR ''0'' (show_base 16 n)"

text \<open>The C string at the start of a buffer; \<open>s\<close> with a precision reads no further than it.\<close>

definition cstr :: "string \<Rightarrow> string" where
  "cstr buf = takeWhile (\<lambda>c. c \<noteq> NUL) buf"

definition fmt_s :: "nat \<Rightarrow> string \<Rightarrow> string" where
  "fmt_s prec buf = cstr (take prec buf)"

definition newline :: string where
  "newline = [CHR 0x0A]"

definition esc :: "string \<Rightarrow> string" where
  "esc code = CHR 0x1B # CHR ''['' # code @ ''m''"

section \<open>Reading numbers back\<close>

definition digit_value :: "char \<Rightarrow> nat" where
  "digit_value c = of_char c - 48"

definition read_nat :: "string \<Rightarrow> nat" where
  "read_nat s = fold (\<lambda>c n. 10 * n + digit_value c) s 0"

lemma digit_value_digit [simp]: "d < 10 \<Longrightarrow> digit_value (digit d) = d"
  by (simp add: digit_value_def digit_def of_char_of)

lemma read_nat_snoc [simp]: "read_nat (s @ [c]) = 10 * read_nat s + digit_value c"
  by (simp add: read_nat_def)

lemma read_nat_show [simp]: "read_nat (show_nat n) = n"
proof (induction n rule: less_induct)
  case (less n)
  show ?case
  proof (cases "n < 10")
    case True
    then show ?thesis by (simp add: show_nat_def show_base.simps [of 10 n] read_nat_def)
  next
    case False
    then have "show_nat n = show_nat (n div 10) @ [digit (n mod 10)]"
      by (simp add: show_nat_def show_base.simps [of 10 n])
    then show ?thesis using less [of "n div 10"] False by simp
  qed
qed

lemma read_nat_zeros [simp]: "read_nat (replicate k CHR ''0'' @ s) = read_nat s"
  by (induction k) (simp_all add: read_nat_def digit_value_def of_char_def)

lemma read_nat_pad [simp]: "read_nat (pad_left w CHR ''0'' s) = read_nat s"
  by (simp add: pad_left_def)

lemma read_nat_fmt_0d [simp]: "0 \<le> i \<Longrightarrow> read_nat (fmt_0d w i) = nat i"
  by (simp add: fmt_0d_def)

lemma length_show_nat: "n < 10 ^ k \<Longrightarrow> 0 < k \<Longrightarrow> length (show_nat n) \<le> k"
proof (induction k arbitrary: n)
  case (Suc k)
  show ?case
  proof (cases "n < 10")
    case True
    then show ?thesis by (simp add: show_nat_def show_base.simps [of 10 n])
  next
    case False
    then have "k \<noteq> 0" using Suc.prems by (cases k) auto
    moreover have "n div 10 < 10 ^ k" using Suc.prems by (simp add: less_mult_imp_div_less mult.commute)
    ultimately have "length (show_nat (n div 10)) \<le> k" using Suc.IH by simp
    then show ?thesis using False by (simp add: show_nat_def show_base.simps [of 10 n])
  qed
qed simp

lemma length_pad_left [simp]: "length (pad_left w c s) = max w (length s)"
  by (simp add: pad_left_def)

lemma length_fmt_0d [simp]:
  assumes "0 \<le> i" "i < 10 ^ w" "0 < w"
  shows "length (fmt_0d w i) = w"
proof -
  have "nat i < 10 ^ w" using assms by (simp add: nat_less_iff)
  from length_show_nat [OF this assms(3)] show ?thesis using assms(1) by (simp add: fmt_0d_def)
qed

lemma fmt_s_all: "NUL \<notin> set s \<Longrightarrow> length s \<le> k \<Longrightarrow> fmt_s k s = s"
  by (auto simp: fmt_s_def cstr_def takeWhile_eq_all_conv)

lemma cstr_append [simp]: "NUL \<notin> set s \<Longrightarrow> cstr (s @ NUL # r) = s"
  unfolding cstr_def by (subst takeWhile_append2) auto

lemma cstr_no_NUL [simp]: "NUL \<notin> set (cstr s)"
  by (auto simp: cstr_def dest: set_takeWhileD)

end
