(* ===== verification/Sched_Text.thy ===== *)
theory Sched_Text
  imports Sched_Main Cformat
begin

text \<open>
  The texts of \<open>scheduler/main.c\<close>: the usage, what the command line prints before it exits, and
  what the bodies of \<open>f\<close> and \<open>g\<close> do in one turn of their loops, \<open>tid\<close> being the number a thread
  got on its start and \<open>i\<close> its counter.
\<close>

definition newline_char :: char where
  "newline_char = CHR 0x0A"

definition print_usage :: "string \<Rightarrow> string" where
  "print_usage program_name =
     ''Usage: '' @ program_name @
     '' [-rr|--round-robin] [-rrp|--round-robin-priority] [-lot|--lottery] [-h|--help]'' @ [newline_char] @
     ''Press CTRL+C to display thread statistics'' @ [newline_char]"

text \<open>What is printed for the arguments.\<close>

fun args_output :: "string \<Rightarrow> string list \<Rightarrow> string" where
  "args_output program [] = []"
| "args_output program (arg # args) =
     (if arg \<in> set policy_args then args_output program args
      else if arg = ''-h'' \<or> arg = ''--help'' then print_usage program
      else ''Unknown argument: '' @ arg @ [newline_char] @ ''Use -h or --help for usage information'' @ [newline_char])"

definition main_output :: "string \<Rightarrow> string list \<Rightarrow> string" where
  "main_output program args = (if args = [] then print_usage program else args_output program args)"

datatype action = Sem_wait | Sem_post | Print string | Sleep int int

definition thread_line :: "string \<Rightarrow> int \<Rightarrow> int \<Rightarrow> string \<Rightarrow> string" where
  "thread_line name tid i what =
     name @ '' Thread id = '' @ show_int tid @ '', val = '' @ show_int i @ '' '' @ what @ [newline_char]"

definition f_turn :: "int \<Rightarrow> int \<Rightarrow> action list \<times> int" where
  "f_turn tid i =
     (let i1 = i32 (i + 1); i2 = i32 (i1 + 1)
      in ([Sem_wait, Print (thread_line ''F'' tid i1 ''BEGINNING''), Sleep 0 50000000,
           Print (thread_line ''F'' tid i2 ''END''), Sleep 0 50000000, Sem_post], i2))"

definition g_turn :: "int \<Rightarrow> int \<Rightarrow> action list \<times> int" where
  "g_turn tid i =
     (let i1 = i32 (i + 1); i2 = i32 (i1 + 1)
      in ([Print (thread_line ''G'' tid i1 ''BEGINNING''), Sleep 0 50000000,
           Print (thread_line ''G'' tid i2 ''END''), Sleep 0 50000000], i2))"

primrec f_turns :: "nat \<Rightarrow> int \<Rightarrow> int \<Rightarrow> action list" where
  "f_turns 0 tid i = []"
| "f_turns (Suc n) tid i = fst (f_turn tid i) @ f_turns n tid (snd (f_turn tid i))"

text \<open>A command line prints nothing exactly if the program goes on to start its threads.\<close>

lemma print_usage_nonempty [simp]: "print_usage program \<noteq> []"
  by (simp add: print_usage_def)

lemma args_output_empty: "args_output program args = [] \<longleftrightarrow> (\<exists>r. parse_args args alg = Inr r)"
proof (induction program args arbitrary: alg rule: args_output.induct)
  case (2 program arg args)
  show ?case
  proof (cases "arg \<in> set policy_args")
    case True
    then show ?thesis using "2.IH" [OF True] by (auto simp: policy_args_def)
  next
    case False
    then show ?thesis by (auto simp: policy_args_def)
  qed
qed simp

lemma main_silent_iff_starts: "main_output program args = [] \<longleftrightarrow> (\<exists>r. main_args args = Inr r)"
  using args_output_empty [of program args None] by (simp add: main_output_def main_args_def)

text \<open>
  Between a wait and the next post a thread prints its two lines, and its counter has grown by two
  in each turn, as long as it fits.
\<close>

lemma f_turns_actions:
  assumes "0 \<le> i" "i + 2 * int n < 2 ^ 31"
  shows "f_turns n tid i = concat (map (\<lambda>k. [Sem_wait, Print (thread_line ''F'' tid (i + 2 * int k + 1) ''BEGINNING''), Sleep 0 50000000,
      Print (thread_line ''F'' tid (i + 2 * int k + 2) ''END''), Sleep 0 50000000, Sem_post]) [0..<n])"
  using assms
proof (induction n arbitrary: i)
  case (Suc n)
  have s: "i32 (i + 1) = i + 1" "i32 (i + 2) = i + 2" using Suc.prems by simp_all
  have "f_turns n tid (i + 2) = concat (map (\<lambda>k. [Sem_wait, Print (thread_line ''F'' tid (i + 2 + 2 * int k + 1) ''BEGINNING''), Sleep 0 50000000,
      Print (thread_line ''F'' tid (i + 2 + 2 * int k + 2) ''END''), Sleep 0 50000000, Sem_post]) [0..<n])"
    by (rule Suc.IH) (use Suc.prems in simp_all)
  moreover have "[0..<Suc n] = 0 # map Suc [0..<n]" by (simp add: upt_conv_Cons map_Suc_upt del: upt_Suc)
  ultimately show ?case
    by (simp add: f_turn_def Let_def s add.assoc comp_def del: upt_Suc)
qed simp

end
