(* ===== verification/Gthr_Api.thy ===== *)
theory Gthr_Api
  imports Sched_Main
begin

text \<open>
  The library of threads as a whole: whatever sequence of its functions a program calls and
  however the alarm interrupts it, the thread table keeps its form.
\<close>

section \<open>Calls of the library\<close>

text \<open>
  One call, made by the current thread, or one alarm, behind \<open>gt_init\<close>. \<open>malloc\<close> gives \<open>sem_wait\<close> a
  block that is not in use.
\<close>

inductive library_step :: "world \<Rightarrow> world \<Rightarrow> bool" where
  create: "gt_create stop f prio stack (sys w) = (r, s') \<Longrightarrow> library_step w (w\<lparr>sys := s'\<rparr>)"
| schedule: "gt_schedule (sys w) = ret (b, s') \<Longrightarrow> library_step w (w\<lparr>sys := s'\<rparr>)"
| alarm: "deliver_alarm (sys w) = ret s' \<Longrightarrow> library_step w (w\<lparr>sys := s'\<rparr>)"
| finish: "gt_return r (sys w) = ret (Switched s') \<Longrightarrow> library_step w (w\<lparr>sys := s'\<rparr>)"
| policy: "library_step w (w\<lparr>sys := set_scheduling_algorithm a (sys w)\<rparr>)"
| init: "sem_init v queue_ok w = Inr w' \<Longrightarrow> library_step w w'"
| wait: "item_fresh w blk \<Longrightarrow> sem_wait blk w = ret w' \<Longrightarrow> library_step w w'"
| try_wait: "sem_try_wait w = (w', msg) \<Longrightarrow> library_step w w'"
| post: "sem_post w = ret w' \<Longrightarrow> library_step w w'"
| destroy: "sem_destroy w = ret w' \<Longrightarrow> library_step w w'"

section \<open>The invariant\<close>

text \<open>
  \<open>U\<close> are the slots that have ever been used. The queue of the semaphore can name a thread that
  has ended, and \<open>sem_post\<close> makes it ready again; its slot then still has the priority and the
  tickets it had, and these belong to no other slot of \<open>U\<close>.
\<close>

definition once_live :: "nat set \<Rightarrow> sched \<Rightarrow> nat \<Rightarrow> view" where
  "once_live U s i = (thread_view s i)\<lparr>v_state := (if i \<in> U \<and> thread_state s i = Unused then Ready else thread_state s i)\<rparr>"

definition table_form :: "nat set \<Rightarrow> sched \<Rightarrow> bool" where
  "table_form U s \<longleftrightarrow> length (gt_table s) = 5 \<and> views_ok (once_live U s) (gt_current s) (total_tickets s) \<and>
     (\<forall>i<5. thread_state s i \<noteq> Unused \<longrightarrow> i \<in> U)"

definition library_ok :: "world \<Rightarrow> bool" where
  "library_ok w \<longleftrightarrow> (\<exists>U. table_form U (sys w) \<and> thread_state (sys w) (gt_current (sys w)) \<noteq> Unused \<and>
     (sem_queue (sem w) = None \<or> (\<exists>G v q. sem_rep G w (v, q) \<and> set q \<subseteq> U)))"

lemma once_live_sel [simp]:
  "v_state (once_live U s i) = (if i \<in> U \<and> thread_state s i = Unused then Ready else thread_state s i)"
  "v_priority (once_live U s i) = priority (gt_table s ! i)" "v_skip (once_live U s i) = skip_count (gt_table s ! i)"
  "v_lo (once_live U s i) = tickets_lo (gt_table s ! i)" "v_hi (once_live U s i) = tickets_hi (gt_table s ! i)"
  by (simp_all add: once_live_def view_def)

lemma table_form_cong:
  assumes "gt_table s' = gt_table s" "gt_current s' = gt_current s" "total_tickets s' = total_tickets s"
  shows "table_form U s' = table_form U s"
proof -
  have "once_live U s' = once_live U s" by (rule ext) (simp add: once_live_def assms(1))
  then show ?thesis by (simp add: table_form_def assms)
qed

lemma table_form_wf: "table_form U s \<Longrightarrow> sched_wf s"
proof -
  assume a: "table_form U s"
  then have v: "views_ok (once_live U s) (gt_current s) (total_tickets s)" "length (gt_table s) = 5" by (simp_all add: table_form_def)
  have "views_ok (thread_view s) (gt_current s) (total_tickets s)"
    by (rule views_ok_change [OF v(1)]) (use v(1) in \<open>auto simp: views_ok_def\<close>)
  then show ?thesis using v(2) by (simp add: sched_wf_def)
qed

lemma library_ok_wf: "library_ok w \<Longrightarrow> sched_wf (sys w) \<and> thread_state (sys w) (gt_current (sys w)) \<noteq> Unused"
  using table_form_wf by (auto simp: library_ok_def)

lemma library_start:
  assumes "sched_wf (sys w)" "thread_state (sys w) (gt_current (sys w)) \<noteq> Unused" "sem_queue (sem w) = None"
  shows "library_ok w"
proof -
  let ?U = "{i. thread_state (sys w) i \<noteq> Unused}"
  have "once_live ?U (sys w) = thread_view (sys w)" by (rule ext) (simp add: once_live_def view_def)
  then have "table_form ?U (sys w)" using assms(1) by (simp add: table_form_def sched_wf_def)
  then show ?thesis using assms(2,3) by (auto simp: library_ok_def)
qed

text \<open>Changes of the states and the skip counts of slots of \<open>U\<close>.\<close>

lemma table_form_change:
  assumes "table_form U s" "length (gt_table s') = 5" "gt_current s' < 5" "total_tickets s' = total_tickets s"
    and "\<And>i. i < 5 \<Longrightarrow> \<exists>k st. (0 \<le> skip_count (gt_table s ! i) \<longrightarrow> 0 \<le> k) \<and>
      thread_view s' i = (thread_view s i)\<lparr>v_skip := k, v_state := st\<rparr> \<and>
      (st \<noteq> Unused \<longrightarrow> i \<in> U) \<and> (st = Running \<longrightarrow> i = gt_current s')"
  shows "table_form U s'"
proof -
  have v: "views_ok (once_live U s) (gt_current s) (total_tickets s)" using assms(1) by (simp add: table_form_def)
  have f: "priority (gt_table s' ! i) = priority (gt_table s ! i) \<and> tickets_lo (gt_table s' ! i) = tickets_lo (gt_table s ! i) \<and>
      tickets_hi (gt_table s' ! i) = tickets_hi (gt_table s ! i) \<and>
      (0 \<le> skip_count (gt_table s ! i) \<longrightarrow> 0 \<le> skip_count (gt_table s' ! i)) \<and>
      (thread_state s' i \<noteq> Unused \<longrightarrow> i \<in> U) \<and> (thread_state s' i = Running \<longrightarrow> i = gt_current s')" if i: "i < 5" for i
  proof -
    obtain k st where k: "0 \<le> skip_count (gt_table s ! i) \<longrightarrow> 0 \<le> k"
      "thread_view s' i = (thread_view s i)\<lparr>v_skip := k, v_state := st\<rparr>"
      "st \<noteq> Unused \<longrightarrow> i \<in> U" "st = Running \<longrightarrow> i = gt_current s'" using assms(5) [OF i] by blast
    show ?thesis using k(1,3,4) arg_cong [OF k(2), of v_state] arg_cong [OF k(2), of v_skip] arg_cong [OF k(2), of v_priority]
        arg_cong [OF k(2), of v_lo] arg_cong [OF k(2), of v_hi] by simp
  qed
  have "views_ok (once_live U s') (gt_current s') (total_tickets s)"
  proof (rule views_ok_change [OF v assms(3)])
    fix i :: nat assume i: "i < 5"
    have live: "i \<in> U \<Longrightarrow> v_state (once_live U s i) \<noteq> Unused" by simp
    moreover have "i \<in> U" if "v_state (once_live U s' i) \<noteq> Unused" using that f [OF i] by (auto split: if_splits)
    ultimately show "v_state (once_live U s i) \<noteq> Unused \<and> v_priority (once_live U s' i) = v_priority (once_live U s i) \<and>
        v_lo (once_live U s' i) = v_lo (once_live U s i) \<and> v_hi (once_live U s' i) = v_hi (once_live U s i) \<and>
        0 \<le> v_skip (once_live U s' i)" if "v_state (once_live U s' i) \<noteq> Unused"
      using that f [OF i] i v by (fastforce simp: views_ok_def)
    show "i \<noteq> gt_current s' \<Longrightarrow> v_state (once_live U s' i) \<noteq> Running" using f [OF i] by auto
  qed
  then show ?thesis using assms(2,4) f by (simp add: table_form_def)
qed

section \<open>Each call keeps the invariant\<close>

lemma form_schedule:
  assumes "gt_schedule s = ret (b, s')" "table_form U s"
    "gt_current s' = gt_current s \<Longrightarrow> thread_state s (gt_current s) \<noteq> Unused"
  shows "table_form U s' \<and> thread_state s' (gt_current s') \<noteq> Unused \<and> total_tickets s' = total_tickets s"
proof -
  have wf: "sched_wf s" by (rule table_form_wf [OF assms(2)])
  obtain a where a: "schedule_with (next_thread (Some a)) s = ret (b, s')"
    using gt_schedule_set [OF assms(1)] by blast
  note sv = nt.schedule_views [OF a wf]
  have live: "thread_state s (gt_current s') \<noteq> Unused" using sv(3) assms(3) by (auto simp: picked_def)
  have U: "i \<in> U" if "i < 5" "thread_state s i \<noteq> Unused" for i using assms(2) that by (simp add: table_form_def)
  have "table_form U s'"
  proof (rule table_form_change [OF assms(2) sv(5,2,4)])
    fix i :: nat assume i: "i < 5"
    let ?st = "if i = gt_current s' then Running
      else if i = gt_current s \<and> thread_state s i \<noteq> Unused \<and> thread_state s i \<noteq> Blocked then Ready else thread_state s i"
    obtain k where "0 \<le> skip_count (gt_table s ! i) \<longrightarrow> 0 \<le> k" "thread_view s' i = (thread_view s i)\<lparr>v_skip := k, v_state := ?st\<rparr>"
      using sv(12) [OF i] by blast
    moreover have "?st \<noteq> Unused \<longrightarrow> i \<in> U" using U [OF i] live by auto
    moreover have "?st = Running \<longrightarrow> i = gt_current s'" using sched_wfD(4) [OF wf i] by (cases "i = gt_current s") auto
    ultimately show "\<exists>k st. (0 \<le> skip_count (gt_table s ! i) \<longrightarrow> 0 \<le> k) \<and>
        thread_view s' i = (thread_view s i)\<lparr>v_skip := k, v_state := st\<rparr> \<and>
        (st \<noteq> Unused \<longrightarrow> i \<in> U) \<and> (st = Running \<longrightarrow> i = gt_current s')" by blast
  qed
  moreover have "thread_state s' (gt_current s') = Running" using gt_schedule_states [OF assms(1) wf sv(2)] by simp
  ultimately show ?thesis using sv(4) by simp
qed

lemma form_state:
  assumes "table_form U s" "i \<in> U" "i < 5" "new = Blocked \<or> new = Ready" "thread_state s (gt_current s) \<noteq> Unused"
  shows "table_form U (update_thread_state i new s) \<and>
    thread_state (update_thread_state i new s) (gt_current (update_thread_state i new s)) \<noteq> Unused \<and>
    total_tickets (update_thread_state i new s) = total_tickets s"
proof -
  note wf = sched_wfD [OF table_form_wf [OF assms(1)]]
  have U: "k \<in> U" if "k < 5" "thread_state s k \<noteq> Unused" for k using assms(1) that by (simp add: table_form_def)
  have "table_form U (update_thread_state i new s)"
  proof (rule table_form_change [OF assms(1)])
    fix k :: nat assume k: "k < 5"
    show "\<exists>n st. (0 \<le> skip_count (gt_table s ! k) \<longrightarrow> 0 \<le> n) \<and>
        thread_view (update_thread_state i new s) k = (thread_view s k)\<lparr>v_skip := n, v_state := st\<rparr> \<and>
        (st \<noteq> Unused \<longrightarrow> k \<in> U) \<and> (st = Running \<longrightarrow> k = gt_current (update_thread_state i new s))"
      by (rule exI [of _ "skip_count (gt_table s ! k)"], rule exI [of _ "if k = i then new else thread_state s k"])
        (use U [OF k] wf(4) [OF k] assms(2-4) wf(1) in \<open>auto simp: view_def nth_list_update\<close>)
  qed (use wf in simp_all)
  moreover have "thread_state (update_thread_state i new s) (gt_current s) \<noteq> Unused"
    using assms(3-5) wf(1) by (cases "gt_current s = i") auto
  ultimately show ?thesis by simp
qed

lemma form_return:
  assumes "gt_return r s = ret (Switched s')" "table_form U s" "thread_state s (gt_current s) \<noteq> Unused"
  shows "table_form U s' \<and> thread_state s' (gt_current s') \<noteq> Unused \<and> total_tickets s' = total_tickets s"
proof (cases "gt_current s = 0")
  case True
  then obtain b where "gt_schedule s = ret (b, s')"
    using assms(1) by (auto simp: gt_return_def Let_def split: if_splits)
  then show ?thesis using form_schedule assms(2,3) by blast
next
  case False
  let ?s1 = "s\<lparr>gt_table := (gt_table s)[gt_current s := (gt_table s ! gt_current s)\<lparr>state := Unused\<rparr>]\<rparr>"
  note wf = sched_wfD [OF table_form_wf [OF assms(2)]]
  obtain s2 b where s2: "free_stack (rsp (ctx (gt_table ?s1 ! gt_current s)) + 16) ?s1 = ret s2"
    "gt_schedule s2 = ret (b, s')" "gt_current s' \<noteq> gt_current s"
    using assms(1) False by (auto simp: gt_return_def Let_def split: if_splits)
  obtain bl where bl: "s2 = ?s1\<lparr>blocks := bl\<rparr>" using s2(1)
    by (auto simp: free_stack_def split: if_splits intro: that [of "blocks s"])
  have U: "k \<in> U" if "k < 5" "thread_state s k \<noteq> Unused" for k using assms(2) that by (simp add: table_form_def)
  have "table_form U s2"
  proof (rule table_form_change [OF assms(2)])
    fix k :: nat assume k: "k < 5"
    show "\<exists>n st. (0 \<le> skip_count (gt_table s ! k) \<longrightarrow> 0 \<le> n) \<and>
        thread_view s2 k = (thread_view s k)\<lparr>v_skip := n, v_state := st\<rparr> \<and>
        (st \<noteq> Unused \<longrightarrow> k \<in> U) \<and> (st = Running \<longrightarrow> k = gt_current s2)"
      by (rule exI [of _ "skip_count (gt_table s ! k)"], rule exI [of _ "if k = gt_current s then Unused else thread_state s k"])
        (use U [OF k] wf(4) [OF k] wf(1,2) in \<open>auto simp: bl view_def nth_list_update\<close>)
  qed (use wf in \<open>simp_all add: bl\<close>)
  moreover have "gt_current s2 = gt_current s" "total_tickets s2 = total_tickets s" by (simp_all add: bl)
  ultimately show ?thesis using form_schedule [OF s2(2)] s2(3) by simp
qed

lemma form_create:
  assumes "gt_create stop f prio stack s = (r, s')" "table_form U s" "thread_state s (gt_current s) \<noteq> Unused"
    and "total_tickets s + 11 < 2 ^ 31"
  shows "\<exists>U'. U \<subseteq> U' \<and> table_form U' s' \<and> thread_state s' (gt_current s') \<noteq> Unused \<and>
    total_tickets s \<le> total_tickets s' \<and> total_tickets s' \<le> total_tickets s + 11"
proof (cases "find_slot (gt_table s) 0 = None \<or> stack = 0")
  case True
  then have "s' = s" using assms(1) by (auto simp: gt_create_def split: option.splits)
  then show ?thesis using assms(2,3) by auto
next
  case False
  then obtain p where p: "find_slot (gt_table s) 0 = Some p" "stack \<noteq> 0" by auto
  note wf = sched_wfD [OF table_form_wf [OF assms(2)]] and cl = clamp_priority_range [of prio]
  note c = gt_create_slot [OF wf(1) p assms(1)]
  have v: "views_ok (once_live U s) (gt_current s) (total_tickets s)" "\<And>i. i < 5 \<Longrightarrow> thread_state s i \<noteq> Unused \<Longrightarrow> i \<in> U"
    using assms(2) by (simp_all add: table_form_def)
  have i: "i32 (total_tickets s + (11 - clamp_priority prio)) = total_tickets s + (11 - clamp_priority prio)"
    "i32 (total_tickets s + (10 - clamp_priority prio)) = total_tickets s + (10 - clamp_priority prio)"
    using wf(3) cl assms(4) by simp_all
  have new: "once_live (insert p U) s' k = (if k = p then \<lparr>v_state = Ready, v_priority = clamp_priority prio,
      v_skip = 0, v_lo = total_tickets s, v_hi = total_tickets s + (10 - clamp_priority prio)\<rparr> else once_live U s k)" for k
    using c(9,10) i(2) arg_cong [OF c(10), of v_state] by (simp add: once_live_def) (simp add: view_def)
  have "tickets_ok (once_live U s) (total_tickets s)" using v(1) by (simp add: views_ok_def)
  then have "tickets_ok (once_live (insert p U) s') (total_tickets s')"
    using wf(3) cl unfolding tickets_ok_def c(4) i new by fastforce
  moreover have "\<forall>k<5. thread_state s' k \<noteq> Unused \<longrightarrow> k \<in> insert p U" using v(2) c(9) by (metis insertCI)
  ultimately have "table_form (insert p U) s'"
    using v(1) c(1-4) cl i(1) unfolding table_form_def views_ok_def new by auto
  moreover have "p \<noteq> gt_current s" using find_slot_Some [OF p(1)] assms(3) by auto
  ultimately show ?thesis using c(3,4,9) i(1) cl assms(3) by (intro exI [of _ "insert p U"]) auto
qed

lemma wait_no_queue: "sem_queue (sem w) = None \<Longrightarrow> sem_wait blk w = ret w' \<Longrightarrow> sys w' = sys w \<and> sem_queue (sem w') = None"
  by (auto simp: sem_wait_def Let_def the_queue_def split: if_splits)

lemma post_no_queue: "sem_queue (sem w) = None \<Longrightarrow> sem_post w \<noteq> ret w'"
  by (simp add: sem_post_def Let_def the_queue_def)

lemma destroy_no_queue: "sem_queue (sem w) = None \<Longrightarrow> sem_destroy w \<noteq> ret w'"
  by (simp add: sem_destroy_def sem_destroy_loop.simps the_queue_def)

lemma library_ok_sys:
  assumes "library_ok w" "\<And>U. table_form U (sys w) \<Longrightarrow> \<exists>U'. U \<subseteq> U' \<and> table_form U' s' \<and> thread_state s' (gt_current s') \<noteq> Unused"
  shows "library_ok (w\<lparr>sys := s'\<rparr>)"
proof -
  obtain U where U: "table_form U (sys w)" "sem_queue (sem w) = None \<or> (\<exists>G v q. sem_rep G w (v, q) \<and> set q \<subseteq> U)"
    using assms(1) by (auto simp: library_ok_def)
  obtain U' where "U \<subseteq> U'" "table_form U' s'" "thread_state s' (gt_current s') \<noteq> Unused" using assms(2) [OF U(1)] by blast
  moreover have "sem_rep G (w\<lparr>sys := s'\<rparr>) vq = sem_rep G w vq" for G vq by (simp add: sem_rep_def)
  ultimately show ?thesis using U(2) unfolding library_ok_def by (intro exI [of _ U']) (simp, blast)
qed

lemma library_ok_sem:
  assumes "table_form U (sys w)" "thread_state (sys w) (gt_current (sys w)) \<noteq> Unused" "sem_rep G w (v, q)" "set q \<subseteq> U"
  shows "library_ok w"
  using assms by (auto simp: library_ok_def)

lemma library_wait:
  assumes "item_fresh w blk" "sem_wait blk w = ret w'" "library_ok w"
  shows "library_ok w' \<and> total_tickets (sys w') = total_tickets (sys w)"
proof -
  obtain U where U: "table_form U (sys w)" "thread_state (sys w) (gt_current (sys w)) \<noteq> Unused"
    "sem_queue (sem w) = None \<or> (\<exists>G v q. sem_rep G w (v, q) \<and> set q \<subseteq> U)" using assms(3) by (auto simp: library_ok_def)
  note wf = sched_wfD [OF table_form_wf [OF U(1)]]
  have c: "gt_current (sys w) \<in> U" using U(1,2) wf(2) by (simp add: table_form_def)
  from U(3) show ?thesis
  proof (elim disjE exE conjE)
    assume "sem_queue (sem w) = None"
    then show ?thesis using wait_no_queue [OF _ assms(2)] U(1,2) by (auto simp: library_ok_def)
  next
    fix G v q assume r: "sem_rep G w (v, q)" "set q \<subseteq> U"
    have l: "sem_rep G w' (abs_wait (gt_current (sys w)) (v, q))"
      "sys w' = (if v > 0 then sys w else update_thread_state (gt_current (sys w)) Blocked (sys w))"
      using cs.wait_law [OF r(1) wf(2) assms(1)] assms(2) by auto
    obtain v' q' where a: "abs_wait (gt_current (sys w)) (v, q) = (v', q')" "set q' \<subseteq> U" using r(2) c by (cases "v > 0") auto
    have t: "table_form U (sys w')" "thread_state (sys w') (gt_current (sys w')) \<noteq> Unused"
      "total_tickets (sys w') = total_tickets (sys w)"
      unfolding l(2) using form_state [OF U(1) c wf(2) _ U(2), of Blocked] U(1,2) by auto
    show ?thesis using library_ok_sem [OF t(1,2) l(1) [unfolded a(1)] a(2)] t(3) by simp
  qed
qed

lemma library_post:
  assumes "sem_post w = ret w'" "library_ok w"
  shows "library_ok w' \<and> total_tickets (sys w') = total_tickets (sys w)"
proof -
  obtain U G v q where U: "table_form U (sys w)" "thread_state (sys w) (gt_current (sys w)) \<noteq> Unused"
    "sem_rep G w (v, q)" "set q \<subseteq> U" using assms post_no_queue by (auto simp: library_ok_def)
  have l: "sem_rep G w' (abs_post (v, q))" "sys w' = (case q of [] \<Rightarrow> sys w | i # _ \<Rightarrow> update_thread_state i Ready (sys w))"
    using cs.post_law [OF U(3)] assms(1) by auto
  obtain v' q' where a: "abs_post (v, q) = (v', q')" "set q' \<subseteq> U" using U(4) by (cases q) auto
  have "\<forall>i\<in>set q. i < 5" using U(3) by (simp add: sem_rep_def)
  then have t: "table_form U (sys w')" "thread_state (sys w') (gt_current (sys w')) \<noteq> Unused"
    "total_tickets (sys w') = total_tickets (sys w)"
    unfolding l(2) using form_state [OF U(1), of _ Ready] U(1,2,4) by (auto split: list.split)
  show ?thesis using library_ok_sem [OF t(1,2) l(1) [unfolded a(1)] a(2)] t(3) by simp
qed

lemma library_sem_only:
  assumes "library_ok w" "sys w' = sys w"
    and "sem_queue (sem w') = None \<or> (\<exists>G v. sem_rep G w' (v, [])) \<or>
      (\<forall>G v q. sem_rep G w (v, q) \<longrightarrow> (\<exists>v'. sem_rep G w' (v', q))) \<and> (sem_queue (sem w) = None \<longrightarrow> sem_queue (sem w') = None)"
  shows "library_ok w'"
  using assms unfolding library_ok_def by (metis empty_set empty_subsetI)

lemma library_step_ok:
  assumes "library_step w w'" "library_ok w" "total_tickets (sys w) + 11 < 2 ^ 31"
  shows "library_ok w' \<and> total_tickets (sys w) \<le> total_tickets (sys w') \<and> total_tickets (sys w') \<le> total_tickets (sys w) + 11"
  using assms(1)
proof cases
  case (create stop f prio stack r s')
  have c: "thread_state (sys w) (gt_current (sys w)) \<noteq> Unused" using library_ok_wf [OF assms(2)] by simp
  note f = form_create [OF create(2) _ c assms(3)]
  obtain U where "table_form U (sys w)" using assms(2) by (auto simp: library_ok_def)
  with f have "total_tickets (sys w) \<le> total_tickets s'" "total_tickets s' \<le> total_tickets (sys w) + 11" by blast+
  moreover have "library_ok (w\<lparr>sys := s'\<rparr>)" by (rule library_ok_sys [OF assms(2)]) (use f in blast)
  ultimately show ?thesis by (simp add: create(1))
next
  case (schedule b s')
  have c: "thread_state (sys w) (gt_current (sys w)) \<noteq> Unused" using library_ok_wf [OF assms(2)] by simp
  note f = form_schedule [OF schedule(2) _ c]
  obtain U where "table_form U (sys w)" using assms(2) by (auto simp: library_ok_def)
  with f have "total_tickets s' = total_tickets (sys w)" by blast
  moreover have "library_ok (w\<lparr>sys := s'\<rparr>)" by (rule library_ok_sys [OF assms(2)]) (use f in blast)
  ultimately show ?thesis by (simp add: schedule(1))
next
  case (alarm s')
  let ?s = "SIG_BLOCK {SIGALRM} (sys w)"
  have c: "thread_state ?s (gt_current ?s) \<noteq> Unused" using library_ok_wf [OF assms(2)] by simp
  have b: "table_form U ?s = table_form U (sys w)" for U by (rule table_form_cong) (simp_all add: SIG_BLOCK_def)
  have "s' = sys w \<or> (\<exists>b. gt_schedule ?s = ret (b, s'))"
    using alarm(2) by (auto simp: deliver_alarm_def gt_alarm_handle_def split: if_splits)
  then show ?thesis
  proof (elim disjE exE)
    assume "s' = sys w"
    then show ?thesis using alarm(1) assms(2) by simp
  next
    fix b' assume g: "gt_schedule ?s = ret (b', s')"
    note f = form_schedule [OF g _ c, unfolded b]
    obtain U where "table_form U (sys w)" using assms(2) by (auto simp: library_ok_def)
    with f have "total_tickets s' = total_tickets (sys w)" by (auto simp: SIG_BLOCK_def)
    moreover have "library_ok (w\<lparr>sys := s'\<rparr>)" by (rule library_ok_sys [OF assms(2)]) (use f in blast)
    ultimately show ?thesis by (simp add: alarm(1))
  qed
next
  case (finish r s')
  have c: "thread_state (sys w) (gt_current (sys w)) \<noteq> Unused" using library_ok_wf [OF assms(2)] by simp
  note f = form_return [OF finish(2) _ c]
  obtain U where "table_form U (sys w)" using assms(2) by (auto simp: library_ok_def)
  with f have "total_tickets s' = total_tickets (sys w)" by blast
  moreover have "library_ok (w\<lparr>sys := s'\<rparr>)" by (rule library_ok_sys [OF assms(2)]) (use f in blast)
  ultimately show ?thesis by (simp add: finish(1))
next
  case (policy a)
  have "table_form U (set_scheduling_algorithm a (sys w)) = table_form U (sys w)" for U
    by (rule table_form_cong) (simp_all add: set_scheduling_algorithm_def)
  then have "library_ok (w\<lparr>sys := set_scheduling_algorithm a (sys w)\<rparr>)"
    using library_ok_wf [OF assms(2)] by (intro library_ok_sys [OF assms(2)]) (auto simp: set_scheduling_algorithm_def)
  then show ?thesis by (simp add: policy set_scheduling_algorithm_def)
next
  case (init v queue_ok)
  then have s: "sys w' = sys w" "sem_rep (items w) w' (v, [])"
    using queue_rep_init by (auto simp: sem_init_def Let_def sem_rep_def split: if_splits)
  then show ?thesis using library_sem_only [OF assms(2) s(1)] by auto
next
  case (wait blk)
  then show ?thesis using library_wait [OF wait assms(2)] by simp
next
  case (try_wait msg)
  have s: "sys w' = sys w" using try_wait by (auto simp: sem_try_wait_def Let_def split: if_splits)
  have "sem_rep G w (v, q) \<Longrightarrow> \<exists>v'. sem_rep G w' (v', q)" for G v q
    using try_wait by (auto simp: sem_try_wait_def Let_def sem_rep_def split: if_splits)
  moreover have "sem_queue (sem w) = None \<longrightarrow> sem_queue (sem w') = None"
    using try_wait by (auto simp: sem_try_wait_def Let_def split: if_splits)
  ultimately show ?thesis using library_sem_only [OF assms(2) s] s by simp
next
  case post
  then show ?thesis using library_post [OF _ assms(2)] by simp
next
  case destroy
  then obtain G v q where "sem_rep G w (v, q)" using assms(2) destroy_no_queue by (auto simp: library_ok_def)
  then have s: "sys w' = sys w" "sem_queue (sem w') = None"
    using sem_destroy_wrong_test [of G w v q] destroy by (auto split: if_splits)
  then show ?thesis using library_sem_only [OF assms(2) s(1)] by simp
qed

lemma library_runs:
  assumes "(library_step ^^ n) w0 w" "library_ok w0" "total_tickets (sys w0) + 11 * int n < 2 ^ 31"
  shows "library_ok w \<and> total_tickets (sys w0) \<le> total_tickets (sys w) \<and> total_tickets (sys w) \<le> total_tickets (sys w0) + 11 * int n"
  using assms(1,3)
proof (induction n arbitrary: w)
  case (Suc n)
  then obtain u where u: "(library_step ^^ n) w0 u" "library_step u w" by auto
  have "library_ok u \<and> total_tickets (sys w0) \<le> total_tickets (sys u) \<and> total_tickets (sys u) \<le> total_tickets (sys w0) + 11 * int n"
    using Suc.IH [OF u(1)] Suc.prems(2) by simp
  then show ?case using library_step_ok [OF u(2)] Suc.prems(2) by simp
qed (use assms(2) in simp)


definition sample_world :: world where
  "sample_world = \<lparr>sem = \<lparr>sem_value = 0, sem_queue = None\<rparr>, items = Map.empty, sys = sample_init\<rparr>"


end
