(* ===== verification/Gthr_Stats.thy ===== *)
theory Gthr_Stats
  imports Gthr_Sched Cformat
begin

text \<open>
  \<open>gt_print_stats\<close> of \<open>scheduler/gthr.c\<close>: the report of the threads' run and wait times, as the
  string it prints. \<open>f2 w x\<close> stands for the conversion \<open>f\<close> with width \<open>w\<close> and two decimals,
  which the C library rounds. The report changes nothing, so it is a function of the state.

  The lemmas tie the report to the history of a thread: the fields of a thread always are
  the statistics of the slices it has had, so what is printed is their number, sum, mean,
  sample standard deviation and extremes.
\<close>

section \<open>The report\<close>

definition bar :: string where
  "bar = ''====================================================================================''"

definition mu :: string where
  "mu = [CHR 0xCE, CHR 0xBC, CHR ''s'']"

definition line :: "string \<Rightarrow> string \<Rightarrow> string" where
  "line code text = esc code @ text @ esc ''0'' @ newline"

definition state_color :: "e_state \<Rightarrow> string" where
  "state_color st = (case st of Running \<Rightarrow> esc ''1;32'' | Ready \<Rightarrow> esc ''1;33''
     | Unused \<Rightarrow> esc ''1;31'' | Blocked \<Rightarrow> esc ''1;31'')"

definition state_str :: "e_state \<Rightarrow> string" where
  "state_str st = (case st of Running \<Rightarrow> ''Running'' | Ready \<Rightarrow> ''Ready''
     | Unused \<Rightarrow> ''Unused'' | Blocked \<Rightarrow> ''Blocked'')"

definition algorithm_str :: "algorithm option \<Rightarrow> string" where
  "algorithm_str a =
     (if a = Some Round_robin then ''Round Robin''
      else if a = Some Round_robin_prio then ''Round Robin with Priorities'' else ''Lottery'')"

definition std_dev :: "real \<Rightarrow> u64 \<Rightarrow> real" where
  "std_dev var count = (if count > 1 then sqrt (var / of_nat (unat (count - 1))) else 0)"

text \<open>The column that depends on the policy, and one row of either table.\<close>

definition policy_cell :: "algorithm option \<Rightarrow> gt \<Rightarrow> string" where
  "policy_cell a th =
     (if a = Some Round_robin_prio then esc ''1;34'' @ fmt_d 8 (priority th) @ esc ''0'' @ '' | ''
      else if a = Some Lottery
      then esc ''1;34'' @ fmt_d 3 (tickets_lo th) @ ''-'' @ pad_right 4 CHR '' '' (show_int (tickets_hi th)) @
           esc ''0'' @ '' | ''
      else [])"

definition stats_row ::
  "(nat \<Rightarrow> real \<Rightarrow> string) \<Rightarrow> algorithm option \<Rightarrow> nat \<Rightarrow> nat \<Rightarrow> gt \<Rightarrow> u64 \<Rightarrow>
   timeval \<Rightarrow> real \<Rightarrow> timeval \<Rightarrow> timeval \<Rightarrow> real \<Rightarrow> string" where
  "stats_row f2 a count_width i th count tot avg mn mx var =
     esc ''1;36'' @ fmt_d 2 (int i) @ esc ''0'' @ '' | '' @
     state_color (state th) @ pad_right 7 CHR '' '' (state_str (state th)) @ esc ''0'' @ '' | '' @
     esc ''1;33'' @ fmt_d count_width (int (unat count)) @ esc ''0'' @ '' | '' @
     policy_cell a th @
     esc ''1;36'' @ f2 11 (timeval_to_microseconds tot / 1000) @ esc ''0'' @ '' | '' @
     esc ''1;37'' @ f2 10 avg @ esc ''0'' @ '' | '' @
     esc ''1;32'' @ f2 10 (timeval_to_microseconds mn) @ esc ''0'' @ '' | '' @
     esc ''1;31'' @ f2 10 (timeval_to_microseconds mx) @ esc ''0'' @ '' | '' @
     line ''1;35'' (f2 9 (std_dev var count))"

definition columns :: "string \<Rightarrow> algorithm option \<Rightarrow> string" where
  "columns what a =
     line ''1;37'' (''ID | State   | '' @ what @ '' Count | '' @
       (if a = Some Round_robin_prio then ''Priority | ''
        else if a = Some Lottery then ''Tickets  | '' else []) @
       '' Total (ms)  |  Avg ('' @ mu @ '')  |  Min ('' @ mu @ '')  |  Max ('' @ mu @ '')  | Std Dev   '')"

definition run_row :: "(nat \<Rightarrow> real \<Rightarrow> string) \<Rightarrow> algorithm option \<Rightarrow> nat \<Rightarrow> gt \<Rightarrow> string" where
  "run_row f2 a i th =
     (if state th = Unused \<and> run_count th = 0 then []
      else stats_row f2 a 9 i th (run_count th) (total_running th) (avg_run_time_us th)
             (min_run_time th) (max_run_time th) (var_run_time_us th))"

definition wait_row :: "(nat \<Rightarrow> real \<Rightarrow> string) \<Rightarrow> algorithm option \<Rightarrow> nat \<Rightarrow> gt \<Rightarrow> string" where
  "wait_row f2 a i th =
     (if state th = Unused \<and> wait_count th = 0 then []
      else stats_row f2 a 10 i th (wait_count th) (total_waiting th) (avg_wait_time_us th)
             (min_wait_time th) (max_wait_time th) (var_wait_time_us th))"

definition gt_print_stats :: "(nat \<Rightarrow> real \<Rightarrow> string) \<Rightarrow> sched \<Rightarrow> string" where
  "gt_print_stats f2 s =
     (let a = get_next_thread s in
      newline @ line ''1;36'' bar @
      line ''1;36'' ''                                Thread Statistics                                      '' @
      line ''1;36'' bar @
      line ''1;35'' (''Scheduling Algorithm: '' @ algorithm_str a) @
      line ''1;36'' bar @
      line ''1;36'' ''                               Run Time Statistics                                    '' @
      columns ''Run'' a @ line ''90'' bar @
      concat (map (\<lambda>i. run_row f2 a i (gt_table s ! i)) [0..<MaxGThreads]) @
      line ''90'' bar @
      newline @ line ''1;36'' bar @
      line ''1;36'' ''                               Wait Time Statistics                                   '' @
      columns ''Wait'' a @ line ''90'' bar @
      concat (map (\<lambda>i. wait_row f2 a i (gt_table s ! i)) [0..<MaxGThreads]) @
      line ''90'' bar @ line ''1;36'' bar)"

text \<open>The handler of \<open>SIGINT\<close> prints the report.\<close>

definition gt_int_handle :: "(nat \<Rightarrow> real \<Rightarrow> string) \<Rightarrow> sched \<Rightarrow> string \<times> sched" where
  "gt_int_handle f2 s = (gt_print_stats f2 s, s)"

section \<open>The fields of a thread are the statistics of its slices\<close>

text \<open>
  \<open>tracks th runs waits\<close>: the times of running and of waiting that have ended, newest first,
  are what the fields of \<open>th\<close> say.
\<close>

definition tracks :: "gt \<Rightarrow> timeval list \<Rightarrow> timeval list \<Rightarrow> bool" where
  "tracks th runs waits \<longleftrightarrow>
     (min_run_time th, max_run_time th, avg_run_time_us th, var_run_time_us th) = stats_of runs \<and>
     unat (run_count th) = length runs \<and> usecs (total_running th) = (\<Sum>x\<leftarrow>runs. usecs x) \<and>
     (min_wait_time th, max_wait_time th, avg_wait_time_us th, var_wait_time_us th) = stats_of waits \<and>
     unat (wait_count th) = length waits \<and> usecs (total_waiting th) = (\<Sum>x\<leftarrow>waits. usecs x)"

lemma tracks_init:
  "i < length (gt_table s) \<Longrightarrow> tracks (gt_table (init_thread_stats i s) ! i) [] []"
  by (simp add: tracks_def init_thread_stats_def Let_def gettimeofday_def)

lemma unat_Suc_word: "unat c = n \<Longrightarrow> Suc n < 2 ^ 64 \<Longrightarrow> unat (c + 1 :: u64) = Suc n"
  by (simp add: unat_word_ariths)

lemma tracks_end_run_slice:
  assumes "tracks th runs waits" "Suc (length runs) < 2 ^ 64"
  shows "tracks (end_run_slice e th) (e # runs) waits"
proof -
  obtain mn mx av vr where r: "stats_of runs = (mn, mx, av, vr)" by (cases "stats_of runs")
  have c: "unat (run_count th + 1) = Suc (length runs)"
    using assms unat_Suc_word by (simp add: tracks_def)
  show ?thesis using assms(1) c r
    by (auto simp: tracks_def end_run_slice_def Let_def split: prod.splits)
qed

lemma tracks_end_wait_slice:
  assumes "tracks th runs waits" "Suc (length waits) < 2 ^ 64"
  shows "tracks (end_wait_slice e th) runs (e # waits)"
proof -
  obtain mn mx av vr where r: "stats_of waits = (mn, mx, av, vr)" by (cases "stats_of waits")
  have c: "unat (wait_count th + 1) = Suc (length waits)"
    using assms unat_Suc_word by (simp add: tracks_def)
  show ?thesis using assms(1) c r
    by (auto simp: tracks_def end_wait_slice_def Let_def split: prod.splits)
qed

text \<open>
  Claim C40. \<open>update_thread_state\<close> books every slice once and in the right place: if the
  fields of a thread are the statistics of its past run and wait slices, then after a change
  of state they are those with the slice since the last change added, to the runs if the
  thread was running, to the waits if it was ready or blocked; with the same state nothing
  changes.
\<close>

theorem update_thread_state_tracks:
  assumes "tracks (gt_table s ! i) runs waits" "i < length (gt_table s)"
    and "Suc (length runs) < 2 ^ 64" "Suc (length waits) < 2 ^ 64"
  shows "let old = gt_table s ! i; slice = timeval_subtract (tod s (tod_next s)) (last_state_change old)
    in tracks (gt_table (update_thread_state i new s) ! i)
         (if state old = Running \<and> new \<noteq> Running then slice # runs else runs)
         (if state old \<in> {Ready, Blocked} \<and> new \<noteq> state old then slice # waits else waits)"
proof -
  let ?old = "gt_table s ! i"
  let ?e = "timeval_subtract (tod s (tod_next s)) (last_state_change ?old)"
  note r = tracks_end_run_slice [OF assms(1,3), of ?e] and w = tracks_end_wait_slice [OF assms(1,4), of ?e]
  show ?thesis using assms(1,2) r w
    by (cases "state ?old") (simp_all add: change_state_def Let_def tracks_def)
qed

theorem update_thread_state_tracks_witness:
  "tracks (gt_table (update_thread_state 0 Ready (sample_sched sample_table 0)) ! 0)
     [\<lparr>tv_sec = 0, tv_usec = 0\<rparr>] []"
proof -
  have "tracks (gt_table (sample_sched sample_table 0) ! 0) [] []"
    by (simp add: tracks_def in_state_def zero_thread_def init_timeval_def usecs_def)
  from update_thread_state_tracks [OF this, of Ready] show ?thesis
    by (simp add: in_state_def zero_thread_def timeval_subtract_def init_timeval_def)
qed

text \<open>
  What the report prints for a thread with at least two run slices is right: the
  number of the slices, their sum in milliseconds, their mean, their extremes as booked, and
  their sample standard deviation.
\<close>

lemma run_row_reports_history:
  assumes "tracks th runs waits" "1 < length runs" "length runs < 2 ^ 64"
  shows "\<exists>mn mx avg. avg = (\<Sum>x\<leftarrow>runs. of_int (usecs x)) / of_nat (length runs) \<and>
    mn = stat_min (stats_of runs) \<and> mx = stat_max (stats_of runs) \<and>
    std_dev (var_run_time_us th) (run_count th) =
      sqrt ((\<Sum>x\<leftarrow>runs. (of_int (usecs x) - avg)\<^sup>2) / of_nat (length runs - 1)) \<and>
    run_row f2 a i th =
      esc ''1;36'' @ fmt_d 2 (int i) @ esc ''0'' @ '' | '' @
      state_color (state th) @ pad_right 7 CHR '' '' (state_str (state th)) @ esc ''0'' @ '' | '' @
      esc ''1;33'' @ fmt_d 9 (int (length runs)) @ esc ''0'' @ '' | '' @
      policy_cell a th @
      esc ''1;36'' @ f2 11 (of_int (\<Sum>x\<leftarrow>runs. usecs x) / 1000) @ esc ''0'' @ '' | '' @
      esc ''1;37'' @ f2 10 avg @ esc ''0'' @ '' | '' @
      esc ''1;32'' @ f2 10 (of_int (usecs mn)) @ esc ''0'' @ '' | '' @
      esc ''1;31'' @ f2 10 (of_int (usecs mx)) @ esc ''0'' @ '' | '' @
      line ''1;35'' (f2 9 (std_dev (var_run_time_us th) (run_count th)))"
proof -
  have c: "unat (run_count th) = length runs" using assms(1) by (simp add: tracks_def)
  then have gt1: "run_count th > 1" and ne: "run_count th \<noteq> 0"
    using assms(2) by (auto simp: word_less_nat_alt)
  have c1: "unat (run_count th - 1) = length runs - 1"
    using gt1 c by (simp add: unat_sub word_le_nat_alt word_less_nat_alt)
  have st: "min_run_time th = stat_min (stats_of runs)" "max_run_time th = stat_max (stats_of runs)"
    "avg_run_time_us th = stat_avg (stats_of runs)" "var_run_time_us th = stat_var (stats_of runs)"
    using assms(1) by (auto simp: tracks_def prod_eq_iff)
  have "runs \<noteq> []" using assms(2) by auto
  from stats_exact [OF this]
  have "stat_avg (stats_of runs) = (\<Sum>x\<leftarrow>runs. of_int (usecs x)) / of_nat (length runs)"
    "stat_var (stats_of runs) = (\<Sum>x\<leftarrow>runs. (of_int (usecs x) - stat_avg (stats_of runs))\<^sup>2)" by auto
  then show ?thesis
    using ne gt1 c c1 st assms(1)
    by (intro exI [of _ "stat_min (stats_of runs)"] exI [of _ "stat_max (stats_of runs)"]
          exI [of _ "stat_avg (stats_of runs)"])
      (simp add: run_row_def stats_row_def std_dev_def to_microseconds_usecs tracks_def)
qed

lemma run_row_reports_history_witness:
  "let th = end_run_slice \<lparr>tv_sec = 0, tv_usec = 30\<rparr> (end_run_slice \<lparr>tv_sec = 0, tv_usec = 10\<rparr> zero_thread)
   in std_dev (var_run_time_us th) (run_count th) = sqrt 200"
proof -
  let ?a = "\<lparr>tv_sec = 0, tv_usec = 10\<rparr>" and ?b = "\<lparr>tv_sec = 0, tv_usec = 30\<rparr>"
  let ?th = "end_run_slice ?b (end_run_slice ?a zero_thread)"
  have "tracks zero_thread [] []" by (simp add: tracks_def zero_thread_def)
  then have t: "tracks ?th [?b, ?a] []"
    by (intro tracks_end_run_slice) simp_all
  from run_row_reports_history [OF t] have
    "std_dev (var_run_time_us ?th) (run_count ?th) =
      sqrt ((\<Sum>x\<leftarrow>[?b, ?a]. (of_int (usecs x) - 20)\<^sup>2) / of_nat (2 - 1))"
    by (auto simp: usecs_def)
  then show ?thesis by (simp add: usecs_def power2_eq_square Let_def)
qed

end
