(* ===== verification/Disk.thy ===== *)
theory Disk
  imports Cformat
begin

text \<open>
  The disk image as the C library shows it: a read-only stream of bytes with a position.
  \<open>fread\<close> copies what is left of the file into the buffer it is given, so a short read keeps
  the old bytes behind. The locale \<open>codec\<close> is the contract between the program, which reads
  packed structures, and their layout on disk.
\<close>

section \<open>Streams\<close>

record cfile =
  fdata :: "byte list"
  fpos :: nat

definition fseek_set :: "int \<Rightarrow> cfile \<Rightarrow> cfile" where
  "fseek_set off f = (if off < 0 then f else f\<lparr>fpos := nat off\<rparr>)"

definition fseek_cur :: "int \<Rightarrow> cfile \<Rightarrow> cfile" where
  "fseek_cur off f = fseek_set (int (fpos f) + off) f"

text \<open>\<open>fread n old\<close>: the buffer of \<open>n\<close> bytes that held \<open>old\<close>, after reading \<open>n\<close> bytes.\<close>

definition fread :: "nat \<Rightarrow> byte list \<Rightarrow> cfile \<Rightarrow> byte list \<times> cfile" where
  "fread n old f =
     (let got = take n (drop (fpos f) (fdata f))
      in (got @ drop (length got) old, f\<lparr>fpos := fpos f + length got\<rparr>))"

definition bytes_at :: "byte list \<Rightarrow> nat \<Rightarrow> nat \<Rightarrow> byte list" where
  "bytes_at d off n = take n (drop off d)"

lemma fseek_sel [simp, frame]:
  "fdata (fseek_set off f) = fdata f" "fdata (fseek_cur off f) = fdata f"
  "0 \<le> off \<Longrightarrow> fpos (fseek_set off f) = nat off"
  by (simp_all add: fseek_set_def fseek_cur_def)

lemma fread_data [simp, frame]: "fdata (snd (fread n old f)) = fdata f"
  by (simp add: fread_def Let_def)

lemma fread_length [simp]: "length old = n \<Longrightarrow> length (fst (fread n old f)) = n"
  by (simp add: fread_def Let_def)

lemma fread_full:
  assumes "fpos f + n \<le> length (fdata f)" "length old = n"
  shows "fread n old f = (bytes_at (fdata f) (fpos f) n, f\<lparr>fpos := fpos f + n\<rparr>)"
  using assms by (simp add: fread_def bytes_at_def Let_def)

lemma length_bytes_at [simp]: "off + n \<le> length d \<Longrightarrow> length (bytes_at d off n) = n"
  by (simp add: bytes_at_def)

lemma bytes_at_bytes_at:
  "i + k \<le> n \<Longrightarrow> bytes_at (bytes_at d off n) i k = bytes_at d (off + i) k"
  by (simp add: bytes_at_def drop_take min_def add.commute)

lemma bytes_at_append:
  "bytes_at d off m @ bytes_at d (off + m) n = bytes_at d off (m + n)"
  by (simp add: bytes_at_def take_add add.commute)

section \<open>Little-endian numbers\<close>

primrec le :: "byte list \<Rightarrow> nat" where
  "le [] = 0"
| "le (b # bs) = unat b + 256 * le bs"

primrec le_bytes :: "nat \<Rightarrow> nat \<Rightarrow> byte list" where
  "le_bytes 0 n = []"
| "le_bytes (Suc k) n = word_of_nat n # le_bytes k (n div 256)"

lemma length_le_bytes [simp]: "length (le_bytes k n) = k"
  by (induction k arbitrary: n) simp_all

lemma unat_lt: "unat (w :: 'a :: len word) < 2 ^ LENGTH('a)"
  by simp

lemma unat_byte_less: "unat (b :: byte) < 256"
  using unat_lt [of b] by simp

lemma le_less: "le bs < 256 ^ length bs"
proof (induction bs)
  case (Cons b bs)
  then show ?case using unat_byte_less [of b] by simp
qed simp

lemma le_bytes_le [simp]: "le_bytes (length bs) (le bs) = bs"
proof (induction bs)
  case (Cons b bs)
  have "word_of_nat (unat b + 256 * le bs) = b"
    by (simp add: word_unat_eq_iff unat_of_nat unat_word_ariths) (use unat_byte_less [of b] in simp)
  moreover have "(unat b + 256 * le bs) div 256 = le bs"
    using unat_byte_less [of b] by simp
  ultimately show ?case using Cons by simp
qed simp

lemma le_le_bytes: "n < 256 ^ k \<Longrightarrow> le (le_bytes k n) = n"
proof (induction k arbitrary: n)
  case (Suc k)
  then have "n div 256 < 256 ^ k" by (simp add: less_mult_imp_div_less mult.commute)
  with Suc show ?case by (simp add: unat_of_nat)
qed simp

definition le16 :: "byte list \<Rightarrow> u16" where
  "le16 bs = word_of_nat (le bs)"

definition le32 :: "byte list \<Rightarrow> u32" where
  "le32 bs = word_of_nat (le bs)"

section \<open>Layouts\<close>

text \<open>
  A layout stores the values of a type that satisfy \<open>ok\<close> in \<open>size\<close> bytes, one way only.
\<close>

locale codec =
  fixes ok :: "'a \<Rightarrow> bool"
    and enc :: "'a \<Rightarrow> byte list"
    and dec :: "byte list \<Rightarrow> 'a"
    and size :: nat
  assumes enc_size: "ok x \<Longrightarrow> length (enc x) = size"
    and dec_enc: "ok x \<Longrightarrow> dec (enc x) = x"
    and dec_ok: "length bs = size \<Longrightarrow> ok (dec bs)"
    and enc_dec: "length bs = size \<Longrightarrow> enc (dec bs) = bs"
begin

text \<open>Reading where a value is stored gives the value, whatever the buffer held.\<close>

lemma read_stored:
  assumes "ok x" "bytes_at (fdata f) (fpos f) size = enc x" "length old = size"
  shows "dec (fst (fread size old f)) = x \<and> fpos (snd (fread size old f)) = fpos f + size"
proof -
  have "length (bytes_at (fdata f) (fpos f) size) = size"
    using assms(1,2) by (simp add: enc_size)
  then have "fpos f + size \<le> length (fdata f) \<or> size = 0"
    by (cases "size = 0") (auto simp: bytes_at_def)
  then show ?thesis
    using assms enc_size [OF assms(1)] dec_enc [OF assms(1)]
    by (auto simp: fread_full fread_def bytes_at_def Let_def)
qed

lemma dec_inject: "length bs = size \<Longrightarrow> length cs = size \<Longrightarrow> dec bs = dec cs \<longleftrightarrow> bs = cs"
  by (metis enc_dec)

end

interpretation u16c: codec "\<lambda>_. True" "\<lambda>w :: u16. le_bytes 2 (unat w)" le16 2
proof
  fix x :: u16
  have "unat x < 256 ^ 2" using unat_lt [of x] by simp
  then show "le16 (le_bytes 2 (unat x)) = x" by (simp only: le16_def le_le_bytes) simp
next
  fix bs :: "byte list" assume "length bs = 2"
  then show "le_bytes 2 (unat (le16 bs)) = bs"
    using le_less [of bs] le_bytes_le [of bs] by (simp add: le16_def unat_of_nat)
qed simp_all

interpretation u32c: codec "\<lambda>_. True" "\<lambda>w :: u32. le_bytes 4 (unat w)" le32 4
proof
  fix x :: u32
  have "unat x < 256 ^ 4" using unat_lt [of x] by simp
  then show "le32 (le_bytes 4 (unat x)) = x" by (simp only: le32_def le_le_bytes) simp
next
  fix bs :: "byte list" assume "length bs = 4"
  then show "le_bytes 4 (unat (le32 bs)) = bs"
    using le_less [of bs] le_bytes_le [of bs] by (simp add: le32_def unat_of_nat)
qed simp_all

end
