(* ===== verification/Fat_Structs.thy ===== *)
theory Fat_Structs
  imports Disk
begin

text \<open>
  The packed structures of \<open>fat/fat.h\<close>: a partition table entry (16 bytes), the FAT16 boot
  sector (512 bytes) and a directory entry (32 bytes), with the bytes they have in the image.
  Each is an instance of the contract \<open>codec\<close>. Character arrays are lists of bytes.
\<close>

section \<open>The records\<close>

record PartitionTable =
  first_byte :: byte
  start_chs :: "byte list"
  partition_type :: byte
  end_chs :: "byte list"
  start_sector :: u32
  length_sectors :: u32

definition partition_ok :: "PartitionTable \<Rightarrow> bool" where
  "partition_ok x \<longleftrightarrow>
     length (start_chs x) = 3 \<and>
     length (end_chs x) = 3"

definition partition_bytes :: "PartitionTable \<Rightarrow> byte list" where
  "partition_bytes x =
     [first_byte x] @ start_chs x @ [partition_type x] @ end_chs x @ 
     le_bytes 4 (unat (start_sector x)) @ le_bytes 4 (unat (length_sectors x))"

definition partition_of :: "byte list \<Rightarrow> PartitionTable" where
  "partition_of bs =
     \<lparr>first_byte = bs ! 0, start_chs = bytes_at bs 1 3, partition_type = bs ! 4, 
      end_chs = bytes_at bs 5 3, start_sector = le32 (bytes_at bs 8 4), 
      length_sectors = le32 (bytes_at bs 12 4)\<rparr>"

record Fat16BootSector =
  jmp :: "byte list"
  oem :: "byte list"
  sector_size :: u16
  sectors_per_cluster :: byte
  reserved_sectors :: u16
  number_of_fats :: byte
  root_dir_entries :: u16
  total_sectors_short :: u16
  media_descriptor :: byte
  fat_size_sectors :: u16
  sectors_per_track :: u16
  number_of_heads :: u16
  hidden_sectors :: u32
  total_sectors_int :: u32
  drive_number :: byte
  current_head :: byte
  boot_signature :: byte
  volume_id :: u32
  volume_label :: "byte list"
  fs_type :: "byte list"
  boot_code :: "byte list"
  boot_sector_signature :: u16

definition boot_ok :: "Fat16BootSector \<Rightarrow> bool" where
  "boot_ok x \<longleftrightarrow>
     length (jmp x) = 3 \<and>
     length (oem x) = 8 \<and>
     length (volume_label x) = 11 \<and>
     length (fs_type x) = 8 \<and>
     length (boot_code x) = 448"

definition boot_bytes :: "Fat16BootSector \<Rightarrow> byte list" where
  "boot_bytes x =
     jmp x @ oem x @ le_bytes 2 (unat (sector_size x)) @ [sectors_per_cluster x] @ 
     le_bytes 2 (unat (reserved_sectors x)) @ [number_of_fats x] @ 
     le_bytes 2 (unat (root_dir_entries x)) @ 
     le_bytes 2 (unat (total_sectors_short x)) @ [media_descriptor x] @ 
     le_bytes 2 (unat (fat_size_sectors x)) @ 
     le_bytes 2 (unat (sectors_per_track x)) @ 
     le_bytes 2 (unat (number_of_heads x)) @ 
     le_bytes 4 (unat (hidden_sectors x)) @ 
     le_bytes 4 (unat (total_sectors_int x)) @ [drive_number x] @ 
     [current_head x] @ [boot_signature x] @ le_bytes 4 (unat (volume_id x)) @ 
     volume_label x @ fs_type x @ boot_code x @ 
     le_bytes 2 (unat (boot_sector_signature x))"

definition boot_of :: "byte list \<Rightarrow> Fat16BootSector" where
  "boot_of bs =
     \<lparr>jmp = bytes_at bs 0 3, oem = bytes_at bs 3 8, 
      sector_size = le16 (bytes_at bs 11 2), sectors_per_cluster = bs ! 13, 
      reserved_sectors = le16 (bytes_at bs 14 2), number_of_fats = bs ! 16, 
      root_dir_entries = le16 (bytes_at bs 17 2), 
      total_sectors_short = le16 (bytes_at bs 19 2), media_descriptor = bs ! 21, 
      fat_size_sectors = le16 (bytes_at bs 22 2), 
      sectors_per_track = le16 (bytes_at bs 24 2), 
      number_of_heads = le16 (bytes_at bs 26 2), 
      hidden_sectors = le32 (bytes_at bs 28 4), 
      total_sectors_int = le32 (bytes_at bs 32 4), drive_number = bs ! 36, 
      current_head = bs ! 37, boot_signature = bs ! 38, 
      volume_id = le32 (bytes_at bs 39 4), volume_label = bytes_at bs 43 11, 
      fs_type = bytes_at bs 54 8, boot_code = bytes_at bs 62 448, 
      boot_sector_signature = le16 (bytes_at bs 510 2)\<rparr>"

record Fat16Entry =
  filename :: "byte list"
  ext :: "byte list"
  attributes :: byte
  reserved :: "byte list"
  modify_time :: u16
  modify_date :: u16
  starting_cluster :: u16
  file_size :: u32

definition entry_ok :: "Fat16Entry \<Rightarrow> bool" where
  "entry_ok x \<longleftrightarrow>
     length (filename x) = 8 \<and>
     length (ext x) = 3 \<and>
     length (reserved x) = 10"

definition entry_bytes :: "Fat16Entry \<Rightarrow> byte list" where
  "entry_bytes x =
     filename x @ ext x @ [attributes x] @ reserved x @ 
     le_bytes 2 (unat (modify_time x)) @ le_bytes 2 (unat (modify_date x)) @ 
     le_bytes 2 (unat (starting_cluster x)) @ le_bytes 4 (unat (file_size x))"

definition entry_of :: "byte list \<Rightarrow> Fat16Entry" where
  "entry_of bs =
     \<lparr>filename = bytes_at bs 0 8, ext = bytes_at bs 8 3, attributes = bs ! 11, 
      reserved = bytes_at bs 12 10, modify_time = le16 (bytes_at bs 22 2), 
      modify_date = le16 (bytes_at bs 24 2), 
      starting_cluster = le16 (bytes_at bs 26 2), file_size = le32 (bytes_at bs 28 4)\<rparr>"

section \<open>They are layouts\<close>

lemma take_bytes_at: "take k (bytes_at d off n) = bytes_at d off (min k n)"
  by (simp add: bytes_at_def)

lemma bytes_at_0 [simp]: "bytes_at d off 0 = []"
  by (simp add: bytes_at_def)

lemma bytes_at_all: "length d = n \<Longrightarrow> bytes_at d 0 n = d"
  by (simp add: bytes_at_def)

lemma bytes_at_one: "off < length d \<Longrightarrow> bytes_at d off 1 = [d ! off]"
  by (simp add: bytes_at_def take_Suc_conv_app_nth [of 0, simplified] Cons_nth_drop_Suc [symmetric])

text \<open>A list is the concatenation of its consecutive fields.\<close>

lemma field_le: "off + n \<le> length d \<Longrightarrow> n = 2 \<Longrightarrow> le_bytes 2 (unat (le16 (bytes_at d off n))) = bytes_at d off n"
  "off + n \<le> length d \<Longrightarrow> n = 4 \<Longrightarrow> le_bytes 4 (unat (le32 (bytes_at d off n))) = bytes_at d off n"
  using u16c.enc_dec [of "bytes_at d off n"] u32c.enc_dec [of "bytes_at d off n"] by simp_all

lemma field_byte: "off < length d \<Longrightarrow> [d ! off] = bytes_at d off 1"
  by (simp add: bytes_at_one del: One_nat_def)

lemma bytes_at_join:
  "off' = off + m \<Longrightarrow> bytes_at d off m @ bytes_at d off' n @ r = bytes_at d off (m + n) @ r"
  "off' = off + m \<Longrightarrow> bytes_at d off m @ bytes_at d off' n = bytes_at d off (m + n)"
  by (simp_all add: bytes_at_append [symmetric])

lemma bytes_at_skip: "k = length xs \<Longrightarrow> bytes_at (xs @ ys) (k + off) n = bytes_at ys off n"
  by (simp add: bytes_at_def)

text \<open>Selecting a field of a concatenation.\<close>

lemma bytes_at_here: "length xs = n \<Longrightarrow> bytes_at (xs @ ys) 0 n = xs"
  by (simp add: bytes_at_def)

lemma bytes_at_next: "length xs \<le> off \<Longrightarrow> bytes_at (xs @ ys) off n = bytes_at ys (off - length xs) n"
  by (simp add: bytes_at_def)

lemma bytes_at_Cons: "0 < off \<Longrightarrow> bytes_at (x # xs) off n = bytes_at xs (off - 1) n"
  by (simp add: bytes_at_def drop_Cons')

lemma dec_le [simp]: "le16 (le_bytes 2 (unat (w :: u16))) = w" "le32 (le_bytes 4 (unat (v :: u32))) = v"
  using u16c.dec_enc u32c.dec_enc by auto

lemmas encode_decode = field_le field_byte bytes_at_join bytes_at_all
lemmas decode_encode = bytes_at_here bytes_at_Cons bytes_at_next nth_append bytes_at_all

interpretation partition: codec partition_ok partition_bytes partition_of 16
proof
  fix bs :: "byte list" assume l: "length bs = 16"
  show "partition_bytes (partition_of bs) = bs"
    by (simp add: partition_bytes_def partition_of_def l encode_decode del: append_Cons append.simps)
  show "partition_ok (partition_of bs)" using l by (simp add: partition_ok_def partition_of_def)
next
  fix x assume "partition_ok x"
  then show "length (partition_bytes x) = 16" "partition_of (partition_bytes x) = x"
    by (simp_all add: partition_ok_def partition_of_def partition_bytes_def decode_encode)
qed

interpretation boot: codec boot_ok boot_bytes boot_of 512
proof
  fix bs :: "byte list" assume l: "length bs = 512"
  show "boot_bytes (boot_of bs) = bs"
    by (simp add: boot_bytes_def boot_of_def l encode_decode del: append_Cons append.simps)
  show "boot_ok (boot_of bs)" using l by (simp add: boot_ok_def boot_of_def)
next
  fix x assume "boot_ok x"
  then show "length (boot_bytes x) = 512" "boot_of (boot_bytes x) = x"
    by (simp_all add: boot_ok_def boot_of_def boot_bytes_def decode_encode)
qed

interpretation entry: codec entry_ok entry_bytes entry_of 32
proof
  fix bs :: "byte list" assume l: "length bs = 32"
  show "entry_bytes (entry_of bs) = bs"
    by (simp add: entry_bytes_def entry_of_def l encode_decode del: append_Cons append.simps)
  show "entry_ok (entry_of bs)" using l by (simp add: entry_ok_def entry_of_def)
next
  fix x assume "entry_ok x"
  then show "length (entry_bytes x) = 32" "entry_of (entry_bytes x) = x"
    by (simp_all add: entry_ok_def entry_of_def entry_bytes_def decode_encode)
qed

text \<open>
  The three packed structures lose nothing: reading the bytes of a partition
  entry, a boot sector or a directory entry and writing the result back gives the same
  bytes, and every value can be stored and read back.
\<close>

lemma structures_roundtrip:
  "(length p = 16 \<longrightarrow> partition_bytes (partition_of p) = p) \<and>
   (length b = 512 \<longrightarrow> boot_bytes (boot_of b) = b) \<and>
   (length e = 32 \<longrightarrow> entry_bytes (entry_of e) = e) \<and>
   (partition_ok x \<longrightarrow> partition_of (partition_bytes x) = x) \<and>
   (boot_ok y \<longrightarrow> boot_of (boot_bytes y) = y) \<and>
   (entry_ok z \<longrightarrow> entry_of (entry_bytes z) = z)"
  by (simp add: partition.enc_dec boot.enc_dec entry.enc_dec partition.dec_enc boot.dec_enc entry.dec_enc)

lemma structures_roundtrip_witness:
  "entry_bytes (entry_of (replicate 32 0x41)) = replicate 32 0x41 \<and>
   partition_of (partition_bytes (partition_of (replicate 16 1))) = partition_of (replicate 16 1)"
  using structures_roundtrip [of "replicate 16 1" "replicate 512 2" "replicate 32 0x41"
      "partition_of (replicate 16 1)" "boot_of (replicate 512 2)" "entry_of (replicate 32 0x41)"]
    partition.dec_ok [of "replicate 16 1"] by simp

end
