(* ===== verification/Fat_Chain.thy ===== *)
theory Fat_Chain
  imports Fat_Structs
begin

text \<open>
  The state of the FAT16 shell (\<open>fat/fat.c\<close>), the two helpers of \<open>fat/fat_helpers.c\<close>, the
  geometry the functions of \<open>fat.c\<close> compute from the boot sector, and the loop over a cluster
  chain they share.

  \<^item> \<open>fat\<close> holds the globals of \<open>fat.c\<close>, the open file, what was written to standard output
    and standard error, and in \<open>uninit\<close> the bytes an automatic variable holds before it is
    assigned. A variable \<open>Fat16Entry entry\<close> is its 32 bytes.
  \<^item> An \<open>int\<close> is a mathematical integer reduced by \<open>i32\<close> after each computation that can
    leave the range, which is what the code does compiled as its \<open>Makefile\<close> says.
  \<^item> A cluster chain is walked until the end-of-chain test holds. On a cyclic chain the loop
    does not end. The locale \<open>cluster_chain\<close> says what the loops need of the FAT.
\<close>

record fat =
  in_file :: cfile
  current_directory_entry :: "byte list"
  current_directory :: string
  current_directory_offset :: int
  root_directory_offset :: int
  out :: string
  err :: "byte list"
  uninit :: "nat \<Rightarrow> byte"

definition puts :: "string \<Rightarrow> fat \<Rightarrow> fat" where
  "puts s st = st\<lparr>out := out st @ s\<rparr>"

definition seek :: "int \<Rightarrow> fat \<Rightarrow> fat" where
  "seek off st = st\<lparr>in_file := fseek_set off (in_file st)\<rparr>"

definition read_bytes :: "nat \<Rightarrow> byte list \<Rightarrow> fat \<Rightarrow> byte list \<times> fat" where
  "read_bytes n old st = (let (bs, f) = fread n old (in_file st) in (bs, st\<lparr>in_file := f\<rparr>))"

definition automatic :: "nat \<Rightarrow> fat \<Rightarrow> byte list" where
  "automatic n st = map (uninit st) [0..<n]"

section \<open>Geometry\<close>

text \<open>
  The three expressions every function of \<open>fat.c\<close> starts with. The first is computed as
  \<open>unsigned int\<close>, since \<open>start_sector\<close> is one, and stored in an \<open>int\<close>.
\<close>

definition first_data_sector :: "PartitionTable list \<Rightarrow> Fat16BootSector \<Rightarrow> int res" where
  "first_data_sector pt bs =
     (if sector_size bs = 0 then fail DivByZero
      else ret (i32 (u32_of ((uint (start_sector (pt ! 0)) + uint (reserved_sectors bs) +
             uint (number_of_fats bs) * uint (fat_size_sectors bs) +
             (uint (root_dir_entries bs) * 32) div uint (sector_size bs)) * uint (sector_size bs)))))"

definition fat_start :: "Fat16BootSector \<Rightarrow> int" where
  "fat_start bs = i32 (uint (reserved_sectors bs) * uint (sector_size bs))"

definition cluster_size :: "Fat16BootSector \<Rightarrow> int" where
  "cluster_size bs = i32 (uint (sectors_per_cluster bs) * uint (sector_size bs))"

definition cluster_offset :: "int \<Rightarrow> Fat16BootSector \<Rightarrow> int \<Rightarrow> int" where
  "cluster_offset first bs c =
     i32 (first + ((c - 2) * uint (sectors_per_cluster bs)) * uint (sector_size bs))"

text \<open>\<open>cluster_size / sizeof(Fat16Entry)\<close>\<close>

definition entries_per_cluster :: "Fat16BootSector \<Rightarrow> nat" where
  "entries_per_cluster bs = nat (cluster_size bs) div 32"

section \<open>fat\_helpers.c\<close>

definition is_end_of_chain :: "int \<Rightarrow> bool" where
  "is_end_of_chain c \<longleftrightarrow> c \<ge> 0xFFFF"

definition fat_entry_offset :: "int \<Rightarrow> int \<Rightarrow> int \<Rightarrow> int" where
  "fat_entry_offset start_sec fat_st c = i32 ((start_sec * 512) + fat_st + (c * 2))"

definition get_next_cluster :: "int \<Rightarrow> int \<Rightarrow> int \<Rightarrow> fat \<Rightarrow> int \<times> fat" where
  "get_next_cluster start_sec fat_st c st =
     (let st1 = seek (fat_entry_offset start_sec fat_st c) st;
          (bs, st2) = read_bytes 2 (automatic 2 st) st1
      in (uint (le16 bs), st2))"

text \<open>The call every function makes: \<open>start_sector\<close> is converted to \<open>int\<close>.\<close>

definition next_of :: "PartitionTable list \<Rightarrow> Fat16BootSector \<Rightarrow> int \<Rightarrow> fat \<Rightarrow> int \<times> fat" where
  "next_of pt bs c st = get_next_cluster (i32 (uint (start_sector (pt ! 0)))) (fat_start bs) c st"

section \<open>The loops\<close>

text \<open>
  \<open>while (!is_end_of_chain(c)) { body; c = next; }\<close>; the body tells whether it returned from
  the function.
\<close>

partial_function (option) while_chain ::
  "(int \<Rightarrow> 's \<Rightarrow> int \<times> 's) \<Rightarrow> (int \<Rightarrow> 's \<Rightarrow> (bool \<times> 's) res) \<Rightarrow> int \<Rightarrow> 's \<Rightarrow> (bool \<times> 's) res" where
  "while_chain nxt body c s =
     (if is_end_of_chain c then ret (False, s)
      else res_bind (body c s) (\<lambda>(returned, s1).
             if returned then ret (True, s1)
             else let (c', s2) = nxt c s1 in while_chain nxt body c' s2))"

text \<open>\<open>for (i = 0; i < n; i++) { fread(&entry, sizeof(entry), 1, in); body }\<close>\<close>

primrec for_entries :: "nat \<Rightarrow> (byte list \<Rightarrow> fat \<Rightarrow> fat) \<Rightarrow> byte list \<times> fat \<Rightarrow> byte list \<times> fat" where
  "for_entries 0 body est = est"
| "for_entries (Suc n) body est =
     (let (e, st) = read_bytes 32 (fst est) (snd est) in for_entries n body (e, body e st))"

text \<open>The same with a test that leaves the loop.\<close>

primrec find_entry :: "nat \<Rightarrow> (byte list \<Rightarrow> bool res) \<Rightarrow> byte list \<times> fat \<Rightarrow> (bool \<times> byte list \<times> fat) res" where
  "find_entry 0 test est = ret (False, est)"
| "find_entry (Suc n) test est =
     (let est1 = read_bytes 32 (fst est) (snd est)
      in res_bind (test (fst est1)) (\<lambda>found. if found then ret (True, est1) else find_entry n test est1))"

section \<open>Chains\<close>

text \<open>The chain that starts with cluster \<open>c\<close> in the table \<open>tab\<close> and ends properly.\<close>

primrec is_chain :: "(int \<Rightarrow> int) \<Rightarrow> int \<Rightarrow> int list \<Rightarrow> bool" where
  "is_chain tab c [] \<longleftrightarrow> is_end_of_chain c"
| "is_chain tab c (x # xs) \<longleftrightarrow> \<not> is_end_of_chain c \<and> x = c \<and> is_chain tab (tab c) xs"

lemma is_chain_unique: "is_chain tab c xs \<Longrightarrow> is_chain tab c ys \<Longrightarrow> xs = ys"
proof (induction xs arbitrary: c ys)
  case Nil then show ?case by (cases ys) auto
next
  case (Cons x xs) then show ?case by (cases ys) auto
qed

lemma is_chain_drop: "is_chain tab c xs \<Longrightarrow> n < length xs \<Longrightarrow> is_chain tab (xs ! n) (drop n xs)"
proof (induction xs arbitrary: c n)
  case (Cons x xs)
  then show ?case by (cases n) auto
qed simp

lemma is_chain_distinct: "is_chain tab c xs \<Longrightarrow> distinct xs"
proof -
  assume c: "is_chain tab c xs"
  have "xs ! i \<noteq> xs ! j" if "i < j" "j < length xs" for i j
  proof
    assume eq: "xs ! i = xs ! j"
    have "is_chain tab (xs ! i) (drop i xs)" "is_chain tab (xs ! j) (drop j xs)"
      using is_chain_drop [OF c] that by simp_all
    then have "drop i xs = drop j xs" using is_chain_unique eq by metis
    then have "length xs - i = length xs - j" by (metis length_drop)
    then show False using that by simp
  qed
  then show ?thesis by (metis distinct_conv_nth linorder_neqE_nat)
qed

text \<open>
  What the body and the look-up keep, the loop keeps; \<open>Q\<close> holds if the body returned.
\<close>

lemma while_chain_keeps:
  assumes run: "while_chain nxt body c s = ret (b, s')" and start: "P s"
    and body: "\<And>c s b s'. P s \<Longrightarrow> body c s = ret (b, s') \<Longrightarrow> if b then Q s' else P s'"
    and look: "\<And>c s. P s \<Longrightarrow> P (snd (nxt c s))"
  shows "if b then Q s' else P s'"
proof -
  let ?I = "\<lambda>nxt' body' c s r. nxt' = nxt \<longrightarrow> body' = body \<longrightarrow> P s \<longrightarrow>
      (\<forall>b s'. (r :: fault + (bool \<times> 'a)) = Inr (b, s') \<longrightarrow> (if b then Q s' else P s'))"
  have "?I nxt body c s (Inr (b, s'))"
  proof (rule while_chain.raw_induct [where P = ?I, OF _ run [unfolded ret_def]], intro impI allI)
    fix f :: "(int \<Rightarrow> 'a \<Rightarrow> int \<times> 'a) \<Rightarrow> (int \<Rightarrow> 'a \<Rightarrow> (bool \<times> 'a) res) \<Rightarrow> int \<Rightarrow> 'a \<Rightarrow> (bool \<times> 'a) res"
      and nxt' body' c s r b s'
    assume IH: "\<And>nxt' body' c s r. f nxt' body' c s = Some r \<Longrightarrow> ?I nxt' body' c s r"
      and eq: "(if is_end_of_chain c then ret (False, s)
        else res_bind (body' c s) (\<lambda>(returned, s1).
             if returned then ret (True, s1)
             else let (c', s2) = nxt' c s1 in f nxt' body' c' s2)) = Some r"
      and same: "nxt' = nxt" "body' = body" and P: "P s" and r: "r = Inr (b, s')"
    show "if b then Q s' else P s'"
    proof (cases "is_end_of_chain c")
      case True
      then show ?thesis using eq P r by (simp add: ret_def)
    next
      case False
      then have "res_bind (body c s) (\<lambda>(returned, s1). if returned then ret (True, s1)
          else let (c', s2) = nxt c s1 in f nxt body c' s2) = ret (b, s')"
        using eq r unfolding same by (simp add: ret_def)
      then obtain d s1 where s1: "body c s = ret (d, s1)"
        "(if d then ret (True, s1) else f nxt body (fst (nxt c s1)) (snd (nxt c s1))) = ret (b, s')"
        by (auto simp: split_beta split: if_splits)
      note s1P = body [OF P s1(1)]
      show ?thesis
      proof (cases d)
        case True
        then show ?thesis using s1(2) s1P by simp
      next
        case False
        then have "f nxt body (fst (nxt c s1)) (snd (nxt c s1)) = Some (Inr (b, s'))"
          using s1(2) by (simp add: ret_def)
        from IH [OF this] look [of s1] s1P False show ?thesis by simp
      qed
    qed
  qed
  then show ?thesis using start by blast
qed

text \<open>
  What a loop over a chain needs of the FAT: as long as the state is good, the next cluster
  depends on the cluster alone, and looking it up keeps the state good.
\<close>

locale cluster_chain =
  fixes nxt :: "int \<Rightarrow> 's \<Rightarrow> int \<times> 's"
    and tab :: "int \<Rightarrow> int"
    and good :: "'s \<Rightarrow> bool"
    and readable :: "int \<Rightarrow> bool"
  assumes next_tab: "good s \<Longrightarrow> readable c \<Longrightarrow> fst (nxt c s) = tab c"
    and next_good: "good s \<Longrightarrow> good (snd (nxt c s))"
begin

text \<open>
  An invariant of the body that the look-up keeps holds after the loop, which visits the
  clusters of the chain in order.
\<close>

lemma walk:
  assumes "is_chain tab c cs" "P [] s" "good s" "\<forall>c\<in>set cs. readable c"
    and body: "\<And>pre c s. c \<in> set cs \<Longrightarrow> P pre s \<Longrightarrow> good s \<Longrightarrow>
      \<exists>s'. body c s = ret (False, s') \<and> P (pre @ [c]) s' \<and> good s'"
    and look: "\<And>pre c s. P pre s \<Longrightarrow> good s \<Longrightarrow> P pre (snd (nxt c s))"
  shows "\<exists>s'. while_chain nxt body c s = ret (False, s') \<and> P cs s' \<and> good s'"
proof -
  have "\<exists>s'. while_chain nxt body c s = ret (False, s') \<and> P (pre @ xs) s' \<and> good s'"
    if "is_chain tab c xs" "P pre s" "good s" "set xs \<subseteq> set cs" for pre xs c s
    using that
  proof (induction xs arbitrary: pre c s)
    case Nil
    then show ?case by (simp add: while_chain.simps)
  next
    case (Cons x xs)
    then have x: "x = c" "\<not> is_end_of_chain c" "is_chain tab (tab c) xs" "c \<in> set cs" by auto
    obtain s1 where s1: "body c s = ret (False, s1)" "P (pre @ [c]) s1" "good s1"
      using body [OF x(4) Cons.prems(2,3)] by blast
    have "fst (nxt c s1) = tab c" using next_tab [OF s1(3)] assms(4) x(4) by blast
    moreover have "P (pre @ [c]) (snd (nxt c s1))" "good (snd (nxt c s1))"
      using look s1 next_good by auto
    ultimately show ?case
      using Cons.IH [of "tab c" "pre @ [c]" "snd (nxt c s1)"] x s1(1) Cons.prems(4)
      by (subst while_chain.simps) (simp add: case_prod_beta)
  qed
  from this [OF assms(1-3)] show ?thesis by simp
qed

text \<open>A search stops at the first cluster of the chain with a hit.\<close>

lemma walk_search:
  assumes "is_chain tab c cs" "P s" "good s" "\<forall>c\<in>set cs. readable c"
    and body: "\<And>c s. c \<in> set cs \<Longrightarrow> P s \<Longrightarrow> good s \<Longrightarrow> (hit c \<Longrightarrow> find hit cs = Some c) \<Longrightarrow>
      \<exists>s'. body c s = ret (hit c, s') \<and> good s' \<and> (if hit c then Q c s' else P s')"
    and look: "\<And>c s. P s \<Longrightarrow> good s \<Longrightarrow> P (snd (nxt c s))"
  shows "\<exists>s'. while_chain nxt body c s = ret (find hit cs \<noteq> None, s') \<and> good s' \<and>
    (case find hit cs of None \<Rightarrow> P s' | Some x \<Rightarrow> Q x s')"
proof -
  have "\<exists>s'. while_chain nxt body c s = ret (find hit xs \<noteq> None, s') \<and> good s' \<and>
      (case find hit xs of None \<Rightarrow> P s' | Some x \<Rightarrow> Q x s')"
    if "is_chain tab c xs" "P s" "good s" "set xs \<subseteq> set cs" "find hit xs = find hit cs" for xs c s
    using that
  proof (induction xs arbitrary: c s)
    case Nil
    then show ?case by (simp add: while_chain.simps)
  next
    case (Cons x xs)
    then have x: "x = c" "\<not> is_end_of_chain c" "is_chain tab (tab c) xs" "c \<in> set cs" by auto
    have "find hit cs = Some c" if "hit c" using Cons.prems(5) x(1) that by simp
    from body [OF x(4) Cons.prems(2,3) this] obtain s1 where
      s1: "body c s = ret (hit c, s1)" "good s1" "if hit c then Q c s1 else P s1" by blast
    show ?case
    proof (cases "hit c")
      case True
      then show ?thesis using x s1 by (subst while_chain.simps) simp
    next
      case False
      have "fst (nxt c s1) = tab c" using next_tab [OF s1(2)] assms(4) x(4) by blast
      moreover have "P (snd (nxt c s1))" "good (snd (nxt c s1))"
        using look s1 False next_good by auto
      ultimately show ?thesis
        using Cons.IH [of "tab c" "snd (nxt c s1)"] x s1(1) False Cons.prems(4,5)
        by (subst while_chain.simps) (simp add: case_prod_beta)
    qed
  qed
  from this [OF assms(1-3)] show ?thesis by simp
qed

text \<open>On a chain that never ends, a loop whose body never returns runs for ever.\<close>

lemma walk_forever:
  assumes endless: "\<And>n. \<not> is_end_of_chain ((tab ^^ n) c) \<and> readable ((tab ^^ n) c)" and "good s"
    and body: "\<And>c s. good s \<Longrightarrow> \<exists>s'. body c s = ret (False, s') \<and> good s'"
  shows "while_chain nxt body c s = None"
proof (rule ccontr)
  assume "while_chain nxt body c s \<noteq> None"
  then obtain r where r: "while_chain nxt body c s = Some r" by blast
  let ?H = "\<lambda>c s. good s \<and> (\<forall>n. \<not> is_end_of_chain ((tab ^^ n) c) \<and> readable ((tab ^^ n) c))"
  have "nxt = nxt \<longrightarrow> body = body \<longrightarrow> \<not> ?H c s"
  proof (rule while_chain.raw_induct
      [where P = "\<lambda>nxt' body' c s r. nxt' = nxt \<longrightarrow> body' = body \<longrightarrow> \<not> ?H c s", OF _ r], intro impI notI)
    fix f :: "(int \<Rightarrow> 's \<Rightarrow> int \<times> 's) \<Rightarrow> (int \<Rightarrow> 's \<Rightarrow> (bool \<times> 's) res) \<Rightarrow> int \<Rightarrow> 's \<Rightarrow> (bool \<times> 's) res"
      and nxt' body' c s r
    assume IH: "\<And>nxt' body' c s r. f nxt' body' c s = Some r \<Longrightarrow> nxt' = nxt \<longrightarrow> body' = body \<longrightarrow> \<not> ?H c s"
      and eq: "(if is_end_of_chain c then ret (False, s)
        else res_bind (body' c s) (\<lambda>(returned, s1).
             if returned then ret (True, s1)
             else let (c', s2) = nxt' c s1 in f nxt' body' c' s2)) = Some r"
      and same: "nxt' = nxt" "body' = body" and H: "?H c s"
    obtain s1 where s1: "body c s = ret (False, s1)" "good s1" using body H by blast
    have "fst (nxt c s1) = tab c" using next_tab [OF s1(2)] spec [OF conjunct2 [OF H], of 0] by simp
    moreover have "\<not> is_end_of_chain c" using spec [OF conjunct2 [OF H], of 0] by simp
    ultimately have "f nxt body (tab c) (snd (nxt c s1)) = Some r"
      using eq same s1(1) by (simp add: case_prod_beta)
    moreover have "?H (tab c) (snd (nxt c s1))"
      using next_good [OF s1(2)] spec [OF conjunct2 [OF H], of "Suc n" for n] by (simp add: funpow_swap1)
    ultimately show False using IH by blast
  qed
  with assms r show False by blast
qed

end

section \<open>The loops on a complete image\<close>

abbreviation img_of :: "fat \<Rightarrow> byte list" where
  "img_of st \<equiv> fdata (in_file st)"

text \<open>\<open>at_pos k st\<close>: the same state with the file at position \<open>k\<close>.\<close>

definition at_pos :: "nat \<Rightarrow> fat \<Rightarrow> fat" where
  "at_pos k st = st\<lparr>in_file := (in_file st)\<lparr>fpos := k\<rparr>\<rparr>"

lemma at_pos_sel [simp]:
  "img_of (at_pos k st) = img_of st" "fpos (in_file (at_pos k st)) = k" "out (at_pos k st) = out st"
  "err (at_pos k st) = err st" "current_directory_entry (at_pos k st) = current_directory_entry st"
  "current_directory (at_pos k st) = current_directory st"
  "current_directory_offset (at_pos k st) = current_directory_offset st"
  "root_directory_offset (at_pos k st) = root_directory_offset st" "uninit (at_pos k st) = uninit st"
  "at_pos k (at_pos j st) = at_pos k st" "at_pos (fpos (in_file st)) st = st"
  by (simp_all add: at_pos_def)

lemma at_pos_puts [simp]: "at_pos k (puts s st) = puts s (at_pos k st)"
  by (simp add: at_pos_def puts_def)

lemma puts_sel [simp]:
  "in_file (puts s st) = in_file st" "out (puts s st) = out st @ s" "err (puts s st) = err st"
  "current_directory_entry (puts s st) = current_directory_entry st"
  "current_directory (puts s st) = current_directory st"
  "current_directory_offset (puts s st) = current_directory_offset st"
  "root_directory_offset (puts s st) = root_directory_offset st" "uninit (puts s st) = uninit st"
  "puts [] st = st" "puts t (puts s st) = puts (s @ t) st"
  by (simp_all add: puts_def)

lemma seek_nonneg: "0 \<le> off \<Longrightarrow> seek off st = at_pos (nat off) st"
  by (simp add: seek_def at_pos_def fseek_set_def)

lemma image_seek [simp, frame]: "img_of (seek off st) = img_of st"
  by (simp add: seek_def)

lemma image_read [simp, frame]: "img_of (snd (read_bytes n old st)) = img_of st"
  by (simp add: read_bytes_def case_prod_beta)

lemma length_automatic [simp]: "length (automatic n st) = n"
  by (simp add: automatic_def)

lemma read_bytes_full:
  assumes "fpos (in_file st) + n \<le> length (img_of st)" "length old = n"
  shows "read_bytes n old st =
    (bytes_at (img_of st) (fpos (in_file st)) n, at_pos (fpos (in_file st) + n) st)"
  using assms by (simp add: read_bytes_def fread_full at_pos_def)

lemma length_read [simp]: "length old = n \<Longrightarrow> length (fst (read_bytes n old st)) = n"
  by (simp add: read_bytes_def case_prod_beta)

text \<open>The directory entries in a region of the image.\<close>

definition slots :: "byte list \<Rightarrow> nat \<Rightarrow> nat \<Rightarrow> byte list list" where
  "slots img off n = map (\<lambda>i. bytes_at img (off + 32 * i) 32) [0..<n]"

lemma slots_0 [simp]: "slots img off 0 = []"
  by (simp add: slots_def)

lemma slots_Suc: "slots img off (Suc n) = bytes_at img off 32 # slots img (off + 32) n"
  by (rule nth_equalityI) (auto simp: slots_def nth_Cons' simp del: upt_Suc split: if_splits
      intro!: arg_cong [where f = "\<lambda>k. bytes_at img k 32"])

lemma slots_length: "off + 32 * n \<le> length img \<Longrightarrow> e \<in> set (slots img off n) \<Longrightarrow> length e = 32"
  by (auto simp: slots_def)

lemma for_entries_puts:
  assumes "length e = 32" "fpos (in_file st) = off" "off + 32 * n \<le> length (img_of st)"
  shows "\<exists>e'. length e' = 32 \<and> for_entries n (\<lambda>e. puts (f e)) (e, st) =
    (e', at_pos (off + 32 * n) (puts (concat (map f (slots (img_of st) off n))) st))"
  using assms
proof (induction n arbitrary: e st off)
  case 0
  then show ?case by (metis add_0_right at_pos_sel(11) concat.simps(1) for_entries.simps(1) list.map(1)
        mult_0_right puts_sel(9) slots_0)
next
  case (Suc n)
  let ?e = "bytes_at (img_of st) off 32"
  let ?st = "puts (f ?e) (at_pos (off + 32) st)"
  have r: "read_bytes 32 e st = (?e, at_pos (off + 32) st)"
    using Suc.prems by (simp add: read_bytes_full)
  obtain e' where "length e' = 32" "for_entries n (\<lambda>e. puts (f e)) (?e, ?st) =
      (e', at_pos (off + 32 + 32 * n) (puts (concat (map f (slots (img_of st) (off + 32) n))) ?st))"
    using Suc.IH [of ?e ?st "off + 32"] Suc.prems by auto
  then show ?case by (auto simp: r slots_Suc)
qed

lemma find_entry_full:
  assumes "length e = 32" "fpos (in_file st) = off" "off + 32 * n \<le> length (img_of st)"
    and "\<And>b. b \<in> set (slots (img_of st) off n) \<Longrightarrow> test b = ret (t b)"
  shows "\<exists>k e'. length e' = 32 \<and> find_entry n test (e, st) =
    ret (case find t (slots (img_of st) off n) of
           Some b \<Rightarrow> (True, b, at_pos k st) | None \<Rightarrow> (False, e', at_pos k st))"
  using assms
proof (induction n arbitrary: e st off)
  case 0
  then show ?case by (auto intro!: exI [of _ off])
next
  case (Suc n)
  let ?e = "bytes_at (img_of st) off 32" and ?st = "at_pos (off + 32) st"
  have r: "read_bytes 32 e st = (?e, ?st)" using Suc.prems by (simp add: read_bytes_full)
  have t: "test ?e = ret (t ?e)" using Suc.prems(4) by (simp add: slots_Suc)
  show ?case
  proof (cases "t ?e")
    case True
    then show ?thesis using t r Suc.prems by (auto simp: slots_Suc Let_def)
  next
    case False
    obtain k e' where "length e' = 32" "find_entry n test (?e, ?st) =
        ret (case find t (slots (img_of st) (off + 32) n) of
           Some b \<Rightarrow> (True, b, at_pos k ?st) | None \<Rightarrow> (False, e', at_pos k ?st))"
      using Suc.IH [of ?e ?st "off + 32"] Suc.prems by (auto simp: slots_Suc)
    then show ?thesis using False t r
      by (intro exI [of _ k] exI [of _ e']) (simp add: slots_Suc Let_def split: option.split)
  qed
qed

section \<open>The FAT of an image\<close>

definition fat_entry_pos :: "PartitionTable list \<Rightarrow> Fat16BootSector \<Rightarrow> int \<Rightarrow> int" where
  "fat_entry_pos pt bs c = fat_entry_offset (i32 (uint (start_sector (pt ! 0)))) (fat_start bs) c"

definition fat_table :: "byte list \<Rightarrow> PartitionTable list \<Rightarrow> Fat16BootSector \<Rightarrow> int \<Rightarrow> int" where
  "fat_table img pt bs c = uint (le16 (bytes_at img (nat (fat_entry_pos pt bs c)) 2))"

definition in_image :: "byte list \<Rightarrow> int \<Rightarrow> int \<Rightarrow> bool" where
  "in_image img off n \<longleftrightarrow> 0 \<le> off \<and> off + n \<le> int (length img)"

lemma next_of_full:
  assumes "in_image (img_of st) (fat_entry_pos pt bs c) 2"
  shows "next_of pt bs c st =
    (fat_table (img_of st) pt bs c, at_pos (nat (fat_entry_pos pt bs c) + 2) st)"
proof -
  let ?off = "fat_entry_pos pt bs c"
  have "0 \<le> ?off" "nat ?off + 2 \<le> length (img_of st)" using assms by (auto simp: in_image_def)
  then have "read_bytes 2 (automatic 2 st) (seek ?off st) =
      (bytes_at (img_of st) (nat ?off) 2, at_pos (nat ?off + 2) st)"
    by (simp only: seek_nonneg read_bytes_full at_pos_sel length_automatic)
  then show ?thesis
    by (simp add: next_of_def get_next_cluster_def Let_def fat_table_def flip: fat_entry_pos_def)
qed

lemma read_bytes_pos: "\<exists>k. snd (read_bytes n old st) = at_pos k st"
  by (rule exI [of _ "fpos (in_file (snd (read_bytes n old st)))"])
    (simp add: read_bytes_def fread_def at_pos_def case_prod_beta Let_def)

lemma seek_pos: "\<exists>k. seek off st = at_pos k st"
  by (rule exI [of _ "fpos (in_file (seek off st))"]) (simp add: seek_def fseek_set_def at_pos_def)

lemma next_of_pos: "\<exists>k. snd (next_of pt bs c st) = at_pos k st"
  by (rule exI [of _ "fpos (in_file (snd (next_of pt bs c st)))"])
    (simp add: next_of_def get_next_cluster_def Let_def read_bytes_def seek_def at_pos_def
      fread_def fseek_set_def case_prod_beta)

lemma find_entry_pos: "find_entry n test est = ret (b, e', st') \<Longrightarrow> \<exists>k. st' = at_pos k (snd est)"
proof (induction n arbitrary: est)
  case 0
  then show ?case by (auto intro!: exI [of _ "fpos (in_file st')"])
next
  case (Suc n)
  obtain k where k: "snd (read_bytes 32 (fst est) (snd est)) = at_pos k (snd est)"
    using read_bytes_pos by blast
  show ?case
    using Suc.prems Suc.IH [of "read_bytes 32 (fst est) (snd est)"] k
    by (auto simp: Let_def split: if_splits)
qed

text \<open>The loops carry the variable \<open>entry\<close> along.\<close>

definition next_with ::
  "PartitionTable list \<Rightarrow> Fat16BootSector \<Rightarrow> int \<Rightarrow> 'a \<times> fat \<Rightarrow> int \<times> ('a \<times> fat)" where
  "next_with pt bs c est = (let (c', st) = next_of pt bs c (snd est) in (c', (fst est, st)))"

lemma image_next [simp, frame]: "img_of (snd (next_of pt bs c st)) = img_of st"
  by (simp add: next_of_def get_next_cluster_def Let_def case_prod_beta)

interpretation fat16: cluster_chain "next_with pt bs" "fat_table img pt bs" "\<lambda>est. img_of (snd est) = img"
  "\<lambda>c. in_image img (fat_entry_pos pt bs c) 2" for pt bs img
proof
  fix s :: "'a \<times> fat" and c
  assume "img_of (snd s) = img" "in_image img (fat_entry_pos pt bs c) 2"
  then show "fst (next_with pt bs c s) = fat_table img pt bs c"
    by (simp add: next_with_def next_of_full)
qed (simp add: next_with_def case_prod_beta)

end
