(* ===== verification/Fat_Dir.thy ===== *)
theory Fat_Dir
  imports Fat_Chain
begin

text \<open>
  Directories in \<open>fat/fat.c\<close>: \<open>get_attributes\<close>, \<open>print_entry\<close>, \<open>list_files\<close>,
  \<open>change_directory\<close> with \<open>remove_right_including\<close>, and \<open>print_info\<close>.

  A directory is the list of its 32-byte entries: \<open>dir_entries\<close> takes them from the image
  along the cluster chain, \<open>root_entries\<close> from the root region. On an image that holds what
  the FAT names, listing prints the used entries of that list and changing directory picks
  the first one with the name.
\<close>

section \<open>Printing an entry\<close>

definition text_of :: "byte list \<Rightarrow> string" where
  "text_of bs = map (\<lambda>b. char_of (unat b)) bs"

definition get_attributes :: "byte \<Rightarrow> string" where
  "get_attributes a =
     (if a AND 0x01 \<noteq> 0 then ''<RDO>''
      else if a AND 0x02 \<noteq> 0 then ''<HID>''
      else if a AND 0x04 \<noteq> 0 then ''<SYS>''
      else if a AND 0x08 \<noteq> 0 then ''<LBL>''
      else if a AND 0x10 \<noteq> 0 then ''<DIR>''
      else if a AND 0x20 \<noteq> 0 then ''<FIL>''
      else ''<UNK>'')"

definition timestamp :: "u16 \<Rightarrow> u16 \<Rightarrow> string" where
  "timestamp t d =
     (let hour = uint (drop_bit 11 t AND 0x1F); minute = uint (drop_bit 5 t AND 0x3F);
          second = uint (t AND 0x1F) * 2;
          year = uint (drop_bit 9 d AND 0x7F) + 1980; month = uint (drop_bit 5 d AND 0x0F);
          day = uint (d AND 0x1F)
      in fmt_0d 4 year @ ''-'' @ fmt_0d 2 month @ ''-'' @ fmt_0d 2 day @ '' '' @
         fmt_0d 2 hour @ '':'' @ fmt_0d 2 minute @ '':'' @ fmt_0d 2 second)"

definition short_name :: "Fat16Entry \<Rightarrow> string" where
  "short_name e = fmt_s 8 (text_of (filename e)) @ ''.'' @ fmt_s 3 (text_of (ext e))"

definition entry_line :: "Fat16Entry \<Rightarrow> string" where
  "entry_line e =
     timestamp (modify_time e) (modify_date e) @
     '' '' @ fmt_s 5 (get_attributes (attributes e)) @ '' '' @ short_name e @ '' '' @
     fmt_d 8 (i32 (uint (file_size e))) @ '' B'' @ newline"

definition print_entry :: "byte list \<Rightarrow> fat \<Rightarrow> fat" where
  "print_entry e st = puts (entry_line (entry_of e)) st"

text \<open>\<open>entry.filename[0] != 0x00\<close> and \<open>entry.attributes & 0x10\<close>\<close>

definition used :: "byte list \<Rightarrow> bool" where
  "used e \<longleftrightarrow> filename (entry_of e) ! 0 \<noteq> 0"

definition is_dir :: "byte list \<Rightarrow> bool" where
  "is_dir e \<longleftrightarrow> attributes (entry_of e) AND 0x10 \<noteq> 0"

definition cluster_of :: "byte list \<Rightarrow> int" where
  "cluster_of e = uint (starting_cluster (entry_of e))"

definition print_used :: "byte list \<Rightarrow> fat \<Rightarrow> fat" where
  "print_used e st = (if used e then print_entry e st else st)"

section \<open>list\_files\<close>

text \<open>\<open>in_open\<close> tells whether the file pointer is not \<open>NULL\<close>.\<close>

definition list_cluster ::
  "int \<Rightarrow> Fat16BootSector \<Rightarrow> int \<Rightarrow> byte list \<times> fat \<Rightarrow> (bool \<times> byte list \<times> fat) res" where
  "list_cluster first bs c est =
     ret (False, for_entries (entries_per_cluster bs) print_used
                   (fst est, seek (cluster_offset first bs c) (snd est)))"

definition list_files :: "bool \<Rightarrow> PartitionTable list \<Rightarrow> Fat16BootSector \<Rightarrow> fat \<Rightarrow> fat res" where
  "list_files in_open pt bs st =
     (if \<not> in_open then ret (puts (''File pointer is NULL'' @ newline) st)
      else
        let st1 = seek (current_directory_offset st) st; e = automatic 32 st in
        if current_directory_offset st = root_directory_offset st
        then ret (snd (for_entries (unat (root_dir_entries bs)) print_used (e, st1)))
        else res_bind (first_data_sector pt bs) (\<lambda>first.
             res_bind (while_chain (next_with pt bs) (list_cluster first bs)
               (cluster_of (current_directory_entry st)) (e, st1))
             (\<lambda>(_, _, st2). ret st2)))"

section \<open>change\_directory\<close>

definition remove_right_including :: "string \<Rightarrow> char \<Rightarrow> string" where
  "remove_right_including s target =
     (if target \<in> set s then rev (tl (dropWhile (\<lambda>c. c \<noteq> target) (rev s))) else s)"

text \<open>
  \<open>snprintf\<close> at the end of the buffer \<open>current_directory\<close> of 1024 bytes.
\<close>

definition append_component :: "string \<Rightarrow> string \<Rightarrow> string" where
  "append_component path d = path @ take (1024 - length path - 1) (CHR ''/'' # d)"

fun strncmp_eq :: "byte list \<Rightarrow> byte list \<Rightarrow> nat \<Rightarrow> bool res" where
  "strncmp_eq xs ys 0 = ret True"
| "strncmp_eq (x # xs) (y # ys) (Suc n) =
     (if x \<noteq> y then ret False else if x = 0 then ret True else strncmp_eq xs ys n)"
| "strncmp_eq _ _ (Suc n) = fail OutOfBounds"

definition bytes_of :: "string \<Rightarrow> byte list" where
  "bytes_of s = map of_char s"

text \<open>\<open>new_directory\<close> is \<open>None\<close> for a null pointer, else the C string it points to.\<close>

definition dir_test :: "byte list \<Rightarrow> byte list \<Rightarrow> bool res" where
  "dir_test name e =
     (if used e \<and> is_dir e then strncmp_eq e name 8 else ret False)"

definition enter_from_root :: "string \<Rightarrow> Fat16BootSector \<Rightarrow> byte list \<Rightarrow> fat \<Rightarrow> fat" where
  "enter_from_root new_directory bs e st =
     st\<lparr>current_directory_entry := e,
        current_directory_offset := i32 (cluster_of e * uint (sector_size bs)),
        current_directory := append_component (current_directory st) new_directory\<rparr>"

definition enter_from_sub :: "string \<Rightarrow> Fat16BootSector \<Rightarrow> byte list \<Rightarrow> fat \<Rightarrow> fat" where
  "enter_from_sub new_directory bs e st =
     (let st1 = st\<lparr>current_directory_entry := e\<rparr> in
      if cluster_of e = 0
      then st1\<lparr>current_directory_offset := root_directory_offset st1,
               current_directory := remove_right_including (current_directory st1) CHR ''/''\<rparr>
      else
        let st2 = st1\<lparr>current_directory_offset := i32 (cluster_of e * uint (sector_size bs))\<rparr> in
        if current_directory_offset st2 = i32 (cluster_of e * uint (sector_size bs)) then st2
        else st2\<lparr>current_directory := append_component (current_directory st2) new_directory\<rparr>)"

text \<open>The body of the loop over the clusters of a directory.\<close>

definition cd_cluster ::
  "int \<Rightarrow> Fat16BootSector \<Rightarrow> string \<Rightarrow> byte list \<Rightarrow>
   int \<Rightarrow> byte list \<times> fat \<Rightarrow> (bool \<times> byte list \<times> fat) res" where
  "cd_cluster first bs nd name c est =
     res_bind (find_entry (entries_per_cluster bs) (dir_test name)
                 (fst est, seek (cluster_offset first bs c) (snd est)))
       (\<lambda>(found, e, st). ret (found, e, if found then enter_from_sub nd bs e st else st))"

definition change_directory ::
  "string option \<Rightarrow> PartitionTable list \<Rightarrow> Fat16BootSector \<Rightarrow> fat \<Rightarrow> fat res" where
  "change_directory new_directory pt bs st =
     (case new_directory of
        None \<Rightarrow> ret (puts (''New directory is NULL'' @ newline) st)
      | Some nd \<Rightarrow>
          if length nd > 8 then ret (puts (''Directory name is too long'' @ newline) st)
          else
            let name = bytes_of nd @ replicate (8 - length nd) 0x20;
                st1 = seek (current_directory_offset st) st;
                e = automatic 32 st
            in res_bind (first_data_sector pt bs) (\<lambda>first.
               if current_directory_offset st = root_directory_offset st
               then res_bind (find_entry (unat (root_dir_entries bs)) (dir_test name) (e, st1))
                      (\<lambda>(found, e', st2). ret (if found then enter_from_root nd bs e' st2 else st2))
               else res_bind (while_chain (next_with pt bs) (cd_cluster first bs nd name)
                      (cluster_of (current_directory_entry st)) (e, st1))
                    (\<lambda>(_, _, st2). ret st2)))"

section \<open>print\_info\<close>

definition partition_line :: "nat \<Rightarrow> PartitionTable \<Rightarrow> string" where
  "partition_line i p =
     ''Partition '' @ show_int (int i) @ '', type '' @ fmt_0X 2 (unat (partition_type p)) @ '', '' @
     ''start sector '' @ fmt_d 8 (i32 (uint (start_sector p))) @
     '', length '' @ fmt_d 8 (i32 (uint (length_sectors p))) @ '' sectors'' @ newline"

definition print_info :: "PartitionTable list \<Rightarrow> Fat16BootSector \<Rightarrow> fat \<Rightarrow> fat" where
  "print_info pt bs st =
     (let st1 = puts (''Partition table'' @ newline @ ''-----------------------'' @ newline) st;
          st2 = puts (concat (map (\<lambda>i. partition_line i (pt ! i)) [0..<4])) st1;
          st3 = puts (''Volume_label '' @ fmt_s 11 (text_of (volume_label bs)) @ '', '' @
                      show_int (uint (sector_size bs)) @ '' sectors size'' @ newline) st2;
          st4 = seek (root_directory_offset st3) st3;
          st5 = puts (newline @ ''Filesystem root directory listing'' @ newline @
                      ''-----------------------'' @ newline) st4
      in snd (for_entries (unat (root_dir_entries bs)) print_used (automatic 32 st, st5)))"

section \<open>Timestamps can be read back\<close>

definition stamp_number :: "string \<Rightarrow> nat \<Rightarrow> nat \<Rightarrow> nat" where
  "stamp_number s off n = read_nat (take n (drop off s))"

definition read_stamp :: "string \<Rightarrow> u16 \<times> u16" where
  "read_stamp s =
     (word_of_nat (stamp_number s 11 2 * 2048 + stamp_number s 14 2 * 32 + stamp_number s 17 2 div 2),
      word_of_nat ((stamp_number s 0 4 - 1980) * 512 + stamp_number s 5 2 * 32 + stamp_number s 8 2))"

lemma and_mask_uint: "uint ((w :: 16 word) AND 0x1F) = uint w mod 32" "uint (w AND 0x3F) = uint w mod 64"
  "uint (w AND 0x7F) = uint w mod 128" "uint (w AND 0x0F) = uint w mod 16"
proof -
  have m: "(0x1F :: 16 word) = mask 5" "(0x3F :: 16 word) = mask 6" "(0x7F :: 16 word) = mask 7"
    "(0x0F :: 16 word) = mask 4" by (simp_all add: mask_eq_exp_minus_1)
  have "uint (w AND mask n) = uint w mod 2 ^ n" for n
    by (simp only: take_bit_eq_mask [symmetric] unsigned_take_bit_eq) (simp only: take_bit_eq_mod)
  then show "uint (w AND 0x1F) = uint w mod 32" "uint (w AND 0x3F) = uint w mod 64"
    "uint (w AND 0x7F) = uint w mod 128" "uint (w AND 0x0F) = uint w mod 16"
    unfolding m by simp_all
qed

lemma drop_bit_uint: "uint (drop_bit n (w :: 16 word)) = uint w div 2 ^ n"
proof -
  have "unat (drop_bit n w) = unat w div 2 ^ n"
    by (rule trans [OF unat_drop_bit_eq drop_bit_eq_div])
  then show ?thesis by (simp only: uint_nat) (simp only: zdiv_int of_nat_power of_nat_numeral)
qed

lemma split32:
  fixes t :: int
  assumes "0 \<le> t div m" "t div m < n" "0 < k" "m = 32 * k"
  shows "t div m mod n * m + t div 32 mod k * 32 + t mod 32 = t"
proof -
  have "t div m mod n = t div 32 div k"
    using assms by (simp only: mod_pos_pos_trivial zdiv_zmult2_eq)
  then have "t div m mod n * m + t div 32 mod k * 32 + t mod 32
      = (t div 32 div k * k + t div 32 mod k) * 32 + t mod 32"
    by (simp only: assms(4) distrib_right mult.assoc mult.commute [of 32])
  then show ?thesis by (simp only: div_mult_mod_eq)
qed

lemma time_split:
  fixes t :: int
  assumes "0 \<le> t" "t < 65536"
  shows "t div 2048 mod 32 * 2048 + t div 32 mod 64 * 32 + (t mod 32 * 2) div 2 = t"
proof -
  have "0 \<le> t div 2048" "t div 2048 < 32"
    using zdiv_mono1 [of t 65535 2048] zdiv_mono1 [of 0 t 2048] assms by (simp_all del: div_pos_pos_trivial)
  then have "t div 2048 mod 32 * 2048 + t div 32 mod 64 * 32 + t mod 32 = t" by (rule split32) simp_all
  moreover have "t mod 32 * 2 div 2 = t mod 32" by (rule nonzero_mult_div_cancel_right) simp
  ultimately show ?thesis by (simp only:)
qed

lemma date_split:
  fixes t :: int
  assumes "0 \<le> t" "t < 65536"
  shows "t div 512 mod 128 * 512 + t div 32 mod 16 * 32 + t mod 32 = t"
proof -
  have "0 \<le> t div 512" "t div 512 < 128"
    using zdiv_mono1 [of t 65535 512] zdiv_mono1 [of 0 t 512] assms by simp_all
  then show ?thesis by (rule split32) simp_all
qed

lemma stamp_int:
  assumes "0 \<le> (h :: int)" "0 \<le> m" "0 \<le> s" "1980 \<le> y" "0 \<le> mo" "0 \<le> d"
  shows "int (nat h * 2048 + nat m * 32 + nat s div 2) = h * 2048 + m * 32 + s div 2"
  "int ((nat y - 1980) * 512 + nat mo * 32 + nat d) = (y - 1980) * 512 + mo * 32 + d"
  using assms by (simp_all add: zdiv_int of_nat_diff nat_le_iff le_nat_iff)
lemma stamp_fields:
  assumes "length y = 4" "length mo = 2" "length d = 2" "length h = 2" "length m = 2" "length s = 2"
  defines "ts \<equiv> y @ ''-'' @ mo @ ''-'' @ d @ '' '' @ h @ '':'' @ m @ '':'' @ s"
  shows "stamp_number ts 0 4 = read_nat y" "stamp_number ts 5 2 = read_nat mo"
    "stamp_number ts 8 2 = read_nat d" "stamp_number ts 11 2 = read_nat h"
    "stamp_number ts 14 2 = read_nat m" "stamp_number ts 17 2 = read_nat s" "length ts = 19"
  using assms(1-6) by (simp_all add: ts_def stamp_number_def drop_Cons')

lemma word_of_uint_nat: "int n = uint w \<Longrightarrow> word_of_nat n = w"
  by (metis of_int_of_nat_eq word_of_int_uint)

lemma stamp_text:
  assumes "0 \<le> h" "h < 100" "0 \<le> m" "m < 100" "0 \<le> s" "s < 100" "0 \<le> y" "y < 10000"
    "0 \<le> mo" "mo < 100" "0 \<le> d" "d < 100"
  defines "ts \<equiv> fmt_0d 4 y @ ''-'' @ fmt_0d 2 mo @ ''-'' @ fmt_0d 2 d @ '' '' @
      fmt_0d 2 h @ '':'' @ fmt_0d 2 m @ '':'' @ fmt_0d 2 s"
  shows "length ts = 19" "stamp_number ts 0 4 = nat y" "stamp_number ts 5 2 = nat mo"
    "stamp_number ts 8 2 = nat d" "stamp_number ts 11 2 = nat h" "stamp_number ts 14 2 = nat m"
    "stamp_number ts 17 2 = nat s"
proof -
  have l: "length (fmt_0d 4 y) = 4" "length (fmt_0d 2 mo) = 2" "length (fmt_0d 2 d) = 2"
    "length (fmt_0d 2 h) = 2" "length (fmt_0d 2 m) = 2" "length (fmt_0d 2 s) = 2"
    using assms(1-12) by (simp_all add: length_fmt_0d)
  show "length ts = 19" "stamp_number ts 0 4 = nat y" "stamp_number ts 5 2 = nat mo"
    "stamp_number ts 8 2 = nat d" "stamp_number ts 11 2 = nat h" "stamp_number ts 14 2 = nat m"
    "stamp_number ts 17 2 = nat s"
    using assms(1-12) by (simp_all only: ts_def stamp_fields [OF l] read_nat_fmt_0d)
qed

lemma mod_bounds: "0 < k \<Longrightarrow> k \<le> n \<Longrightarrow> 0 \<le> x mod k \<and> x mod k < (n :: int)"
  by (meson less_le_trans pos_mod_bound pos_mod_sign)

lemma mod_bounds2: "0 \<le> x mod 32 * 2 \<and> x mod 32 * 2 < (100 :: int)"
  using pos_mod_bound [of 32 x] pos_mod_sign [of 32 x] by linarith

lemma mod_bounds1980: "1980 \<le> x mod 128 + 1980 \<and> x mod 128 + 1980 < (10000 :: int)"
  using pos_mod_bound [of 128 x] pos_mod_sign [of 128 x] by linarith

text \<open>
  \<open>print_entry\<close> prints the whole time stamp: the text has the form
  \<open>YYYY-MM-DD hh:mm:ss\<close> with 19 characters for every value of the two 16-bit words on disk,
  and both can be computed from it.
\<close>

lemma timestamp_roundtrip:
  "length (timestamp t d) = 19 \<and> read_stamp (timestamp t d) = (t, d)"
proof -
  let ?h = "uint t div 2048 mod 32" and ?m = "uint t div 32 mod 64" and ?s = "uint t mod 32 * 2"
  let ?y = "uint d div 512 mod 128 + 1980" and ?mo = "uint d div 32 mod 16" and ?d = "uint d mod 32"
  have ts: "timestamp t d = fmt_0d 4 ?y @ ''-'' @ fmt_0d 2 ?mo @ ''-'' @ fmt_0d 2 ?d @ '' '' @
      fmt_0d 2 ?h @ '':'' @ fmt_0d 2 ?m @ '':'' @ fmt_0d 2 ?s"
    by (simp add: timestamp_def Let_def and_mask_uint drop_bit_uint)
  have h: "0 \<le> ?h \<and> ?h < 100" by (rule mod_bounds) simp_all
  have m: "0 \<le> ?m \<and> ?m < 100" by (rule mod_bounds) simp_all
  have mo: "0 \<le> ?mo \<and> ?mo < 100" by (rule mod_bounds) simp_all
  have d: "0 \<le> ?d \<and> ?d < 100" by (rule mod_bounds) simp_all
  note s = mod_bounds2 [of "uint t"] and y = mod_bounds1980 [of "uint d div 512"]
  have y0: "0 \<le> ?y" using y by linarith
  note f = stamp_text [OF conjunct1 [OF h] conjunct2 [OF h] conjunct1 [OF m] conjunct2 [OF m]
      conjunct1 [OF s] conjunct2 [OF s] y0 conjunct2 [OF y] conjunct1 [OF mo] conjunct2 [OF mo]
      conjunct1 [OF d] conjunct2 [OF d], folded ts]
  have lt: "uint t < 65536" "uint d < 65536" "0 \<le> uint t" "0 \<le> uint d"
    using uint_bounded [of t] uint_bounded [of d] by simp_all
  have "int (nat ?h * 2048 + nat ?m * 32 + nat ?s div 2) = uint t"
    unfolding stamp_int [OF conjunct1 [OF h] conjunct1 [OF m] conjunct1 [OF s] conjunct1 [OF y] conjunct1 [OF mo] conjunct1 [OF d]]
    by (rule time_split [OF lt(3,1)])
  then have t: "word_of_nat (nat ?h * 2048 + nat ?m * 32 + nat ?s div 2) = t" by (rule word_of_uint_nat)
  have "int ((nat ?y - 1980) * 512 + nat ?mo * 32 + nat ?d) = uint d"
    unfolding stamp_int [OF conjunct1 [OF h] conjunct1 [OF m] conjunct1 [OF s] conjunct1 [OF y] conjunct1 [OF mo] conjunct1 [OF d]]
      add_diff_cancel_right' by (rule date_split [OF lt(4,2)])
  then have "word_of_nat ((nat ?y - 1980) * 512 + nat ?mo * 32 + nat ?d) = d" by (rule word_of_uint_nat)
  with t show ?thesis unfolding read_stamp_def f by (intro conjI refl) (simp only:)
qed

section \<open>The directory the shell is in\<close>

text \<open>
  \<open>current_entries pt bs st es\<close>: the directory the globals stand for lies wholly in the image
  and \<open>es\<close> are its entries, used or not, in the order of the disk.
\<close>

definition dir_entries ::
  "byte list \<Rightarrow> int \<Rightarrow> Fat16BootSector \<Rightarrow> int list \<Rightarrow> byte list list" where
  "dir_entries img first bs cs =
     concat (map (\<lambda>c. slots img (nat (cluster_offset first bs c)) (entries_per_cluster bs)) cs)"

definition chain_on_disk ::
  "byte list \<Rightarrow> int \<Rightarrow> PartitionTable list \<Rightarrow> Fat16BootSector \<Rightarrow> int \<Rightarrow> int list \<Rightarrow> bool" where
  "chain_on_disk img first pt bs c cs \<longleftrightarrow>
     is_chain (fat_table img pt bs) c cs \<and>
     (\<forall>x\<in>set cs. in_image img (fat_entry_pos pt bs x) 2 \<and>
        in_image img (cluster_offset first bs x) (32 * int (entries_per_cluster bs)))"

definition root_entries :: "byte list \<Rightarrow> Fat16BootSector \<Rightarrow> int \<Rightarrow> byte list list" where
  "root_entries img bs off = slots img (nat off) (unat (root_dir_entries bs))"

definition root_on_disk :: "byte list \<Rightarrow> Fat16BootSector \<Rightarrow> int \<Rightarrow> bool" where
  "root_on_disk img bs off \<longleftrightarrow> in_image img off (32 * int (unat (root_dir_entries bs)))"

definition current_entries ::
  "PartitionTable list \<Rightarrow> Fat16BootSector \<Rightarrow> fat \<Rightarrow> byte list list \<Rightarrow> bool" where
  "current_entries pt bs st es \<longleftrightarrow>
     (if current_directory_offset st = root_directory_offset st
      then root_on_disk (img_of st) bs (root_directory_offset st) \<and>
           es = root_entries (img_of st) bs (root_directory_offset st)
      else \<exists>first cs. first_data_sector pt bs = ret first \<and>
           chain_on_disk (img_of st) first pt bs (cluster_of (current_directory_entry st)) cs \<and>
           es = dir_entries (img_of st) first bs cs)"

lemma in_imageD: "in_image img off (32 * int n) \<Longrightarrow> 0 \<le> off \<and> nat off + 32 * n \<le> length img"
  by (auto simp: in_image_def)

lemma print_used_puts: "print_used = (\<lambda>e. puts (if used e then entry_line (entry_of e) else []))"
  by (auto simp: fun_eq_iff print_used_def print_entry_def)

abbreviation listing :: "byte list list \<Rightarrow> string" where
  "listing es \<equiv> concat (map (\<lambda>e. entry_line (entry_of e)) (filter used es))"

lemma concat_map_filter: "concat (map (\<lambda>e. if P e then f e else []) es) = concat (map f (filter P es))"
  by (induction es) auto

lemma for_entries_listing:
  assumes "length e = 32" "in_image (img_of st) off (32 * int n)"
  shows "\<exists>e'. length e' = 32 \<and> for_entries n print_used (e, seek off st) =
    (e', at_pos (nat off + 32 * n) (puts (listing (slots (img_of st) (nat off) n)) st))"
  using for_entries_puts [of e "seek off st" "nat off" n "\<lambda>e. if used e then entry_line (entry_of e) else []"]
    in_imageD [OF assms(2)] assms(1)
  by (auto simp: print_used_puts seek_nonneg concat_map_filter)

lemma look_keeps:
  assumes "\<exists>k. snd est = at_pos k st'"
  shows "\<exists>k. snd (snd (next_with pt bs c est)) = at_pos k st'"
  using assms next_of_pos [of pt bs c "snd est"] by (auto simp: next_with_def case_prod_beta)

lemma length_next_with [simp]: "fst (snd (next_with pt bs c est)) = fst est"
  by (simp add: next_with_def case_prod_beta)

lemma list_files_result:
  assumes "current_entries pt bs st es"
  shows "\<exists>k. list_files True pt bs st = ret (at_pos k (puts (listing es) st))"
proof (cases "current_directory_offset st = root_directory_offset st")
  case True
  then have r: "in_image (img_of st) (root_directory_offset st) (32 * int (unat (root_dir_entries bs)))"
    "es = slots (img_of st) (nat (root_directory_offset st)) (unat (root_dir_entries bs))"
    using assms by (auto simp: current_entries_def root_on_disk_def root_entries_def)
  show ?thesis
    using for_entries_listing [OF length_automatic r(1), of st] True r(2)
    by (auto simp: list_files_def Let_def)
next
  case False
  obtain first cs where f: "first_data_sector pt bs = ret first"
    "chain_on_disk (img_of st) first pt bs (cluster_of (current_directory_entry st)) cs"
    "es = dir_entries (img_of st) first bs cs"
    using assms False by (auto simp: current_entries_def)
  let ?P = "\<lambda>pre (est :: byte list \<times> fat). length (fst est) = 32 \<and>
      (\<exists>k. snd est = at_pos k (puts (listing (dir_entries (img_of st) first bs pre)) st))"
  have "\<exists>est. while_chain (next_with pt bs) (list_cluster first bs) (cluster_of (current_directory_entry st))
      (automatic 32 st, seek (current_directory_offset st) st) = ret (False, est) \<and> ?P cs est \<and>
      img_of (snd est) = img_of st"
  proof (rule fat16.walk)
    show "is_chain (fat_table (img_of st) pt bs) (cluster_of (current_directory_entry st)) cs"
      "\<forall>c\<in>set cs. in_image (img_of st) (fat_entry_pos pt bs c) 2"
      using f(2) by (auto simp: chain_on_disk_def)
    show "?P [] (automatic 32 st, seek (current_directory_offset st) st)"
      by (auto simp: dir_entries_def seek_def fseek_set_def at_pos_def
          intro: exI [of _ "fpos (in_file st)"])
  next
    fix pre c est
    assume c: "c \<in> set cs" and P: "?P pre est" and img: "img_of (snd est) = img_of st"
    obtain e k where est: "est = (e, at_pos k (puts (listing (dir_entries (img_of st) first bs pre)) st))"
      "length e = 32" using P by (cases est) auto
    have "in_image (img_of (snd est)) (cluster_offset first bs c) (32 * int (entries_per_cluster bs))"
      using f(2) c img by (auto simp: chain_on_disk_def)
    from for_entries_listing [OF est(2) this] obtain e' where "length e' = 32"
      "for_entries (entries_per_cluster bs) print_used (e, seek (cluster_offset first bs c) (snd est)) =
       (e', at_pos (nat (cluster_offset first bs c) + 32 * entries_per_cluster bs)
         (puts (listing (slots (img_of (snd est)) (nat (cluster_offset first bs c)) (entries_per_cluster bs))) (snd est)))"
      by blast
    then show "\<exists>s'. list_cluster first bs c est = ret (False, s') \<and> ?P (pre @ [c]) s' \<and> img_of (snd s') = img_of st"
      by (auto simp: est(1) dir_entries_def list_cluster_def)
  next
    fix pre c est
    assume "?P pre est"
    then show "?P pre (snd (next_with pt bs c est))"
      using look_keeps [of est "puts (listing (dir_entries (img_of st) first bs pre)) st" pt bs c] by simp
  qed simp
  then show ?thesis using False f(1,3) by (auto simp: list_files_def Let_def)
qed

text \<open>
  Claim C11. \<open>ls\<close> is right: in the root directory and in any other directory that lies on
  the disk, \<open>list_files\<close> prints one line for each used entry, in the order of the disk and
  along the whole cluster chain, and changes nothing but the position in the file.
\<close>

theorem list_files_prints_directory:
  assumes "current_entries pt bs st es"
  shows "\<exists>k. list_files True pt bs st = ret (at_pos k (puts (listing es) st))"
  by (rule list_files_result [OF assms])

section \<open>Changing directory\<close>

definition padded :: "string \<Rightarrow> byte list" where
  "padded nd = bytes_of nd @ replicate (8 - length nd) 0x20"

definition named_dir :: "string \<Rightarrow> byte list \<Rightarrow> bool" where
  "named_dir nd e \<longleftrightarrow> used e \<and> is_dir e \<and> filename (entry_of e) = padded nd"

lemma of_char_0 [simp]: "(of_char c :: byte) = 0 \<longleftrightarrow> c = NUL"
proof
  assume "(of_char c :: byte) = 0"
  then have "(word_of_nat (of_char c) :: byte) = 0" by (simp add: of_char_def)
  then have "(of_char c :: nat) mod 256 = 0" by (simp add: word_of_nat_eq_0_iff dvd_eq_mod_eq_0)
  then have "(of_char c :: nat) = 0" by simp
  then have "char_of (of_char c :: nat) = NUL" by (simp add: char_of_def)
  then show "c = NUL" by simp
qed (simp add: of_char_def)

lemma strncmp_eq_take:
  "0 \<notin> set ys \<Longrightarrow> length ys = n \<Longrightarrow> n \<le> length xs \<Longrightarrow> strncmp_eq xs ys n = ret (take n xs = ys)"
proof (induction xs ys n rule: strncmp_eq.induct)
  case (2 x xs y ys n)
  then show ?case by (cases "x = y") auto
qed auto

lemma dir_test_named:
  assumes "NUL \<notin> set nd" "length nd \<le> 8" "length e = 32"
  shows "dir_test (padded nd) e = ret (named_dir nd e)"
proof -
  have "0 \<notin> set (padded nd)" "length (padded nd) = 8"
    using assms(1,2) by (auto simp: padded_def bytes_of_def)
  from strncmp_eq_take [OF this] assms(3) show ?thesis
    by (auto simp: dir_test_def named_dir_def entry_of_def bytes_at_def)
qed

lemma find_concat:
  "find p (concat (map f cs)) =
    (case find (\<lambda>c. find p (f c) \<noteq> None) cs of None \<Rightarrow> None | Some c \<Rightarrow> find p (f c))"
proof (induction cs)
  case (Cons c cs)
  have "find p (xs @ ys) = (case find p xs of None \<Rightarrow> find p ys | Some x \<Rightarrow> Some x)" for xs ys
    by (induction xs) auto
  then show ?case using Cons by (auto split: option.split)
qed simp

lemma enter_at_pos [simp]:
  "enter_from_root nd bs e (at_pos k st) = at_pos k (enter_from_root nd bs e st)"
  "enter_from_sub nd bs e (at_pos k st) = at_pos k (enter_from_sub nd bs e st)"
  by (simp_all add: enter_from_root_def enter_from_sub_def at_pos_def Let_def)

lemma enter_sel [simp, frame]:
  "in_file (enter_from_root nd bs e st) = in_file st" "in_file (enter_from_sub nd bs e st) = in_file st"
  "root_directory_offset (enter_from_root nd bs e st) = root_directory_offset st"
  "root_directory_offset (enter_from_sub nd bs e st) = root_directory_offset st"
  "out (enter_from_root nd bs e st) = out st" "out (enter_from_sub nd bs e st) = out st"
  "err (enter_from_root nd bs e st) = err st" "err (enter_from_sub nd bs e st) = err st"
  by (simp_all add: enter_from_root_def enter_from_sub_def Let_def)

lemma find_named:
  assumes "NUL \<notin> set nd" "length nd \<le> 8" "length e = 32"
    and "in_image (img_of st) off (32 * int n)"
  shows "\<exists>k e'. length e' = 32 \<and> find_entry n (dir_test (padded nd)) (e, seek off st) =
    ret (case find (named_dir nd) (slots (img_of st) (nat off) n) of
           Some b \<Rightarrow> (True, b, at_pos k st) | None \<Rightarrow> (False, e', at_pos k st))"
proof -
  note o = in_imageD [OF assms(4)]
  have t: "dir_test (padded nd) b = ret (named_dir nd b)" if "b \<in> set (slots (img_of st) (nat off) n)" for b
    by (rule dir_test_named) (use assms slots_length [OF conjunct2 [OF o]] that in auto)
  show ?thesis
    using find_entry_full [of e "at_pos (nat off) st" "nat off" n "dir_test (padded nd)" "named_dir nd"]
      o t assms(3) unfolding at_pos_sel by (simp add: seek_nonneg)
qed

definition cd_result :: "string \<Rightarrow> Fat16BootSector \<Rightarrow> byte list list \<Rightarrow> fat \<Rightarrow> fat" where
  "cd_result nd bs es st =
     (case find (named_dir nd) es of
        None \<Rightarrow> st
      | Some e \<Rightarrow> if current_directory_offset st = root_directory_offset st
                  then enter_from_root nd bs e st else enter_from_sub nd bs e st)"

lemma cd_in_root:
  assumes "current_directory_offset st = root_directory_offset st" "root_on_disk (img_of st) bs (root_directory_offset st)"
    and es: "es = root_entries (img_of st) bs (root_directory_offset st)"
    and first: "first_data_sector pt bs = ret first" and nd: "NUL \<notin> set nd" "length nd \<le> 8"
  shows "\<exists>k. change_directory (Some nd) pt bs st = ret (at_pos k (cd_result nd bs es st))"
proof -
  have r: "in_image (img_of st) (root_directory_offset st) (32 * int (unat (root_dir_entries bs)))"
    using assms(2) by (simp add: root_on_disk_def)
  obtain k e' where "find_entry (unat (root_dir_entries bs)) (dir_test (padded nd))
      (automatic 32 st, seek (root_directory_offset st) st) =
    ret (case find (named_dir nd) es of Some b \<Rightarrow> (True, b, at_pos k st) | None \<Rightarrow> (False, e', at_pos k st))"
    using find_named [OF nd length_automatic r, of st] unfolding es root_entries_def by blast
  then show ?thesis
    using assms(1) nd first
    by (intro exI [of _ k]) (simp add: change_directory_def Let_def cd_result_def flip: padded_def split: option.split)
qed

text \<open>One cluster of a directory: the entry is entered if it is here, else the search goes on.\<close>

lemma cd_cluster_step:
  assumes on_disk: "in_image (img_of st) (cluster_offset first bs c) (32 * int (entries_per_cluster bs))"
    and sl: "sl = slots (img_of st) (nat (cluster_offset first bs c)) (entries_per_cluster bs)"
    and nd: "NUL \<notin> set nd" "length nd \<le> 8" and "length e = 32"
  shows "\<exists>k e'. length e' = 32 \<and> cd_cluster first bs nd (padded nd) c (e, at_pos i st) =
    ret (find (named_dir nd) sl \<noteq> None, e',
         at_pos k (case find (named_dir nd) sl of None \<Rightarrow> st | Some b \<Rightarrow> enter_from_sub nd bs b st))"
proof -
  obtain j e' where fe: "length e' = 32" "find_entry (entries_per_cluster bs) (dir_test (padded nd))
      (e, seek (cluster_offset first bs c) (at_pos i st)) =
    ret (case find (named_dir nd) sl of Some b \<Rightarrow> (True, b, at_pos j st) | None \<Rightarrow> (False, e', at_pos j st))"
    using find_named [of nd e "at_pos i st", unfolded at_pos_sel, OF nd assms(5) on_disk] unfolding sl by blast
  have "length b = 32" if "find (named_dir nd) sl = Some b" for b
    using that slots_length [OF conjunct2 [OF in_imageD [OF on_disk]]] by (auto simp: sl find_Some_iff)
  then show ?thesis using fe by (auto simp: cd_cluster_def split: option.split)
qed

lemma cd_in_sub:
  assumes "current_directory_offset st \<noteq> root_directory_offset st"
    and chain: "chain_on_disk (img_of st) first pt bs (cluster_of (current_directory_entry st)) cs"
    and es: "es = dir_entries (img_of st) first bs cs"
    and first: "first_data_sector pt bs = ret first" and nd: "NUL \<notin> set nd" "length nd \<le> 8"
  shows "\<exists>k. change_directory (Some nd) pt bs st = ret (at_pos k (cd_result nd bs es st))"
proof -
  define sl where "sl c = slots (img_of st) (nat (cluster_offset first bs c)) (entries_per_cluster bs)" for c
  define hit where "hit c \<longleftrightarrow> find (named_dir nd) (sl c) \<noteq> None" for c
  have es': "find (named_dir nd) es = (case find hit cs of None \<Rightarrow> None | Some c \<Rightarrow> find (named_dir nd) (sl c))"
    unfolding es dir_entries_def find_concat hit_def sl_def by simp
  let ?P = "\<lambda>est :: byte list \<times> fat. length (fst est) = 32 \<and> (\<exists>k. snd est = at_pos k st)"
  let ?Q = "\<lambda>c est :: byte list \<times> fat.
      \<exists>k. snd est = at_pos k (enter_from_sub nd bs (the (find (named_dir nd) (sl c))) st)"
  have "\<exists>est. while_chain (next_with pt bs) (cd_cluster first bs nd (padded nd))
      (cluster_of (current_directory_entry st))
      (automatic 32 st, seek (current_directory_offset st) st) = ret (find hit cs \<noteq> None, est) \<and>
      img_of (snd est) = img_of st \<and> (case find hit cs of None \<Rightarrow> ?P est | Some x \<Rightarrow> ?Q x est)"
  proof (rule fat16.walk_search)
    show "is_chain (fat_table (img_of st) pt bs) (cluster_of (current_directory_entry st)) cs"
      "\<forall>c\<in>set cs. in_image (img_of st) (fat_entry_pos pt bs c) 2"
      using chain by (auto simp: chain_on_disk_def)
    show "?P (automatic 32 st, seek (current_directory_offset st) st)" using seek_pos by auto
  next
    fix c and est :: "byte list \<times> fat"
    assume c: "c \<in> set cs" and P: "?P est"
    obtain e i where est: "est = (e, at_pos i st)" "length e = 32" using P by (cases est) auto
    have "in_image (img_of st) (cluster_offset first bs c) (32 * int (entries_per_cluster bs))"
      using chain c by (auto simp: chain_on_disk_def)
    from cd_cluster_step [OF this sl_def nd est(2)]
    show "\<exists>s'. cd_cluster first bs nd (padded nd) c est = ret (hit c, s') \<and>
        img_of (snd s') = img_of st \<and> (if hit c then ?Q c s' else ?P s')"
      unfolding est(1) by (fastforce simp: hit_def split: option.splits)
  next
    fix c and est :: "byte list \<times> fat"
    assume "?P est"
    then show "?P (snd (next_with pt bs c est))" using look_keeps [of est st pt bs c] by simp
  qed simp
  moreover have "find hit cs = Some c \<Longrightarrow> find (named_dir nd) (sl c) \<noteq> None" for c
    by (auto simp: find_Some_iff hit_def)
  ultimately show ?thesis
    using assms(1) first nd
    by (auto simp: change_directory_def Let_def cd_result_def es' simp flip: padded_def split: option.splits)
qed

lemma change_directory_result:
  assumes ce: "current_entries pt bs st es" and first: "first_data_sector pt bs = ret first"
    and nd: "NUL \<notin> set nd" "length nd \<le> 8"
  shows "\<exists>k. change_directory (Some nd) pt bs st = ret (at_pos k (cd_result nd bs es st))"
proof (cases "current_directory_offset st = root_directory_offset st")
  case True
  then show ?thesis
    using ce by (intro cd_in_root [OF True _ _ first nd]) (auto simp: current_entries_def)
next
  case False
  then obtain cs where "chain_on_disk (img_of st) first pt bs (cluster_of (current_directory_entry st)) cs"
    "es = dir_entries (img_of st) first bs cs"
    using ce first by (auto simp: current_entries_def)
  from cd_in_sub [OF False this first nd] show ?thesis .
qed

text \<open>
  Claim C12. \<open>cd\<close> goes where it is told: \<open>change_directory\<close> picks the first used directory
  entry of the current directory whose eight name bytes are the name padded with spaces,
  whatever its extension, and makes it the current one; without such an entry nothing
  changes. Only entering a directory below the root extends the path; the entry with
  cluster 0, the parent entry of a directory below the root, leads back to the root and
  drops the last component.
\<close>

theorem change_directory_correct:
  assumes "current_entries pt bs st es" "sector_size bs \<noteq> 0" "NUL \<notin> set nd" "length nd \<le> 8"
  shows "\<exists>k st'. change_directory (Some nd) pt bs st = ret (at_pos k st') \<and>
    (case find (named_dir nd) es of
       None \<Rightarrow> st' = st
     | Some e \<Rightarrow>
         current_directory_entry st' = e \<and> out st' = out st \<and>
         current_directory_offset st' =
           (if current_directory_offset st \<noteq> root_directory_offset st \<and> cluster_of e = 0
            then root_directory_offset st else i32 (cluster_of e * uint (sector_size bs))) \<and>
         current_directory st' =
           (if current_directory_offset st = root_directory_offset st
            then append_component (current_directory st) nd
            else if cluster_of e = 0 then remove_right_including (current_directory st) CHR ''/''
            else current_directory st))"
proof -
  obtain first where "first_data_sector pt bs = ret first"
    using assms(2) by (simp add: first_data_sector_def)
  from change_directory_result [OF assms(1) this assms(3,4)] obtain k where
    "change_directory (Some nd) pt bs st = ret (at_pos k (cd_result nd bs es st))" by blast
  then show ?thesis
    by (intro exI [of _ k] exI [of _ "cd_result nd bs es st"])
      (simp add: cd_result_def enter_from_root_def enter_from_sub_def Let_def split: option.split)
qed

text \<open>
  Below the root the path on the prompt never grows: whatever the image holds, a
  \<open>cd\<close> given in a directory other than the root that returns leaves the path as it is or
  drops its last component, also when it enters a subdirectory.
\<close>

lemma cd_below_root_never_extends_path:
  assumes "change_directory (Some nd) pt bs st = ret st'"
    and "current_directory_offset st \<noteq> root_directory_offset st"
  shows "current_directory st' = current_directory st \<or>
    current_directory st' = remove_right_including (current_directory st) CHR ''/''"
proof (cases "length nd > 8")
  case True
  then show ?thesis using assms(1) by (auto simp: change_directory_def)
next
  case False
  define path where "path = current_directory st"
  let ?P = "\<lambda>est :: byte list \<times> fat. current_directory (snd est) = path"
  let ?Q = "\<lambda>est :: byte list \<times> fat. current_directory (snd est) \<in>
      {path, remove_right_including path CHR ''/''}"
  obtain first b e where "while_chain (next_with pt bs)
      (cd_cluster first bs nd (bytes_of nd @ replicate (8 - length nd) 0x20))
      (cluster_of (current_directory_entry st)) (automatic 32 st, seek (current_directory_offset st) st) =
      ret (b, e, st')"
    using assms False by (auto simp: change_directory_def Let_def)
  then have "if b then ?Q (e, st') else ?P (e, st')"
  proof (rule while_chain_keeps)
    show "?P (automatic 32 st, seek (current_directory_offset st) st)"
      by (simp add: path_def seek_def)
  next
    fix c and est est' :: "byte list \<times> fat" and b
    assume P: "?P est" and run: "cd_cluster first bs nd (bytes_of nd @ replicate (8 - length nd) 0x20) c est =
      ret (b, est')"
    obtain k where k: "seek (cluster_offset first bs c) (snd est) = at_pos k (snd est)"
      using seek_pos by blast
    show "if b then ?Q est' else ?P est'"
      using run P k
      by (cases est) (auto simp: cd_cluster_def enter_from_sub_def Let_def dest!: find_entry_pos split: if_splits)
  next
    fix c and est :: "byte list \<times> fat"
    assume "?P est"
    then show "?P (snd (next_with pt bs c est))"
      using next_of_pos [of pt bs c "snd est"] by (auto simp: next_with_def case_prod_beta)
  qed
  then show ?thesis by (auto simp: path_def split: if_splits)
qed

text \<open>
  The shell can take a subdirectory for the root: it remembers a directory by
  \<open>starting_cluster * sector_size\<close>, which is no position in the image, and compares that
  number with the position of the root directory. After entering a directory of the root for
  which the two agree, the path names the subdirectory, but \<open>ls\<close> lists the root again.
\<close>

lemma cd_can_confuse_root:
  assumes "current_entries pt bs st es" "current_directory_offset st = root_directory_offset st"
    and "sector_size bs \<noteq> 0" "NUL \<notin> set nd" "length nd \<le> 8"
    and "find (named_dir nd) es = Some e" "i32 (cluster_of e * uint (sector_size bs)) = root_directory_offset st"
  shows "\<exists>k j st'. change_directory (Some nd) pt bs st = ret (at_pos k st') \<and>
    current_directory st' = append_component (current_directory st) nd \<and>
    list_files True pt bs (at_pos k st') = ret (at_pos j (puts (listing es) st'))"
proof -
  obtain first where "first_data_sector pt bs = ret first"
    using assms(3) by (simp add: first_data_sector_def)
  from change_directory_result [OF assms(1) this assms(4,5)] obtain k where
    k: "change_directory (Some nd) pt bs st = ret (at_pos k (cd_result nd bs es st))" by blast
  let ?st' = "cd_result nd bs es st"
  have st': "?st' = enter_from_root nd bs e st" using assms(2,6) by (simp add: cd_result_def)
  have "current_directory_offset ?st' = root_directory_offset ?st'"
    using assms(7) by (simp add: st' enter_from_root_def)
  moreover have "img_of ?st' = img_of st" "root_directory_offset ?st' = root_directory_offset st"
    by (simp_all add: st')
  ultimately have "current_entries pt bs (at_pos k ?st') es"
    using assms(1,2) by (simp add: current_entries_def)
  from list_files_result [OF this] obtain j where
    "list_files True pt bs (at_pos k ?st') = ret (at_pos j (puts (listing es) (at_pos k ?st')))" by blast
  then show ?thesis
    using k by (intro exI [of _ k] exI [of _ j] exI [of _ ?st']) (simp add: st' enter_from_root_def flip: at_pos_puts)
qed

end
