(* ===== verification/Fat_Read.thy ===== *)
theory Fat_Read
  imports Fat_Dir
begin

text \<open>
  \<open>read\<close> of \<open>fat/fat.c\<close>: splitting the file name at the dot, finding the directory entry,
  and copying the clusters of the file to standard error.

  The comparison with a directory entry reads \<open>strlen(entry.filename)\<close> bytes. The field
  \<open>filename\<close> is not terminated, so \<open>strlen\<close> runs on through the packed structure to the
  first zero byte; where it would leave the structure, or \<open>strncmp\<close> the array \<open>namecmp\<close>,
  the model faults.
\<close>

section \<open>The name\<close>

text \<open>\<open>strtok\<close>: the next token and the text after it; \<open>None\<close> is the null pointer.\<close>

definition strtok :: "char \<Rightarrow> string \<Rightarrow> string option \<times> string" where
  "strtok delim s =
     (let s' = dropWhile (\<lambda>c. c = delim) s
      in if s' = [] then (None, [])
         else (Some (takeWhile (\<lambda>c. c \<noteq> delim) s'), drop 1 (dropWhile (\<lambda>c. c \<noteq> delim) s')))"

fun strlen :: "byte list \<Rightarrow> nat res" where
  "strlen [] = fail OutOfBounds"
| "strlen (b # bs) = (if b = 0 then ret 0 else res_bind (strlen bs) (\<lambda>n. ret (Suc n)))"

text \<open>\<open>namecmp\<close>: eight bytes of the name, three of the extension, one space.\<close>

definition namecmp :: "string \<Rightarrow> string option \<Rightarrow> byte list" where
  "namecmp name ext_opt =
     map (\<lambda>i. if i < length name then of_char (name ! i) else 0x20) [0..<8] @
     (case ext_opt of
        None \<Rightarrow> replicate 3 0x20
      | Some x \<Rightarrow> map (\<lambda>i. if i < length x then of_char (x ! i) else 0x20) [0..<3]) @ [0x20]"

definition file_test :: "byte list \<Rightarrow> byte list \<Rightarrow> bool res" where
  "file_test cmp e =
     (if used e then res_bind (strlen e) (\<lambda>n. strncmp_eq e cmp n) else ret False)"

section \<open>Copying a file\<close>

definition size_of :: "byte list \<Rightarrow> nat" where
  "size_of e = unat (file_size (entry_of e))"

text \<open>
  \<open>while (c is not the end && bytes_read < file_size)\<close>; \<open>at_end\<close> is the end test, \<open>data\<close> the
  array \<open>cluster_data\<close>. \<open>fwrite\<close> writes to standard error.
\<close>

definition put_bytes :: "byte list \<Rightarrow> fat \<Rightarrow> fat" where
  "put_bytes bs st = st\<lparr>err := err st @ bs\<rparr>"

partial_function (option) copy_chain ::
  "(int \<Rightarrow> bool) \<Rightarrow> int \<Rightarrow> PartitionTable list \<Rightarrow> Fat16BootSector \<Rightarrow> nat \<Rightarrow>
   int \<Rightarrow> nat \<Rightarrow> byte list \<Rightarrow> fat \<Rightarrow> fat res" where
  "copy_chain at_end first pt bs fsize c bytes_read data st =
     (if \<not> at_end c \<and> bytes_read < fsize then
        let st1 = seek (cluster_offset first bs c) st;
            to_read = (if fsize - bytes_read < nat (cluster_size bs)
                       then fsize - bytes_read else nat (cluster_size bs));
            (got, st2) = read_bytes to_read (take to_read data) st1;
            data' = got @ drop to_read data;
            st3 = put_bytes (take to_read data') st2;
            (c', st4) = next_of pt bs c st3
        in copy_chain at_end first pt bs fsize c' (bytes_read + to_read) data' st4
      else ret st)"

text \<open>The array has \<open>cluster_size\<close> elements of type \<open>int\<close>.\<close>

definition copy_file ::
  "(int \<Rightarrow> bool) \<Rightarrow> int \<Rightarrow> PartitionTable list \<Rightarrow> Fat16BootSector \<Rightarrow> byte list \<Rightarrow> fat \<Rightarrow> fat res" where
  "copy_file at_end first pt bs e st =
     copy_chain at_end first pt bs (size_of e) (cluster_of e) 0 (automatic (4 * nat (cluster_size bs)) st) st"

section \<open>read\<close>

definition root_end :: "int \<Rightarrow> bool" where
  "root_end c \<longleftrightarrow> \<not> c < 0xFFF8"

definition not_found :: "fat \<Rightarrow> fat" where
  "not_found st = puts (''File not found'' @ newline) st"

text \<open>The body of the loop over the clusters of a directory; it returns after the copy.\<close>

definition read_cluster ::
  "int \<Rightarrow> PartitionTable list \<Rightarrow> Fat16BootSector \<Rightarrow> byte list \<Rightarrow>
   int \<Rightarrow> byte list \<times> fat \<Rightarrow> (bool \<times> byte list \<times> fat) res" where
  "read_cluster first pt bs cmp c est =
     res_bind (find_entry (entries_per_cluster bs) (file_test cmp)
                 (fst est, seek (cluster_offset first bs c) (snd est)))
       (\<lambda>(found, e, st).
          if found then res_bind (copy_file is_end_of_chain first pt bs e st) (\<lambda>st'. ret (True, e, st'))
          else ret (False, e, st))"

definition read_file :: "string option \<Rightarrow> PartitionTable list \<Rightarrow> Fat16BootSector \<Rightarrow> fat \<Rightarrow> fat res" where
  "read_file filename_arg pt bs st =
     (case filename_arg of
        None \<Rightarrow> ret (puts (''Filename is NULL'' @ newline) st)
      | Some fname \<Rightarrow>
          let (name_opt, rest) = strtok CHR ''.'' fname; (ext_opt, _) = strtok CHR ''.'' rest
          in case name_opt of
               None \<Rightarrow> fail NullDeref
             | Some name \<Rightarrow>
                 let cmp = namecmp name ext_opt; e = automatic 32 st;
                     st1 = seek (current_directory_offset st) st
                 in res_bind (first_data_sector pt bs) (\<lambda>first.
                    if current_directory_offset st = root_directory_offset st
                    then res_bind (find_entry (unat (root_dir_entries bs)) (file_test cmp) (e, st1))
                           (\<lambda>(found, e', st2).
                              if found then copy_file root_end first pt bs e' st2 else ret (not_found st2))
                    else res_bind (while_chain (next_with pt bs) (read_cluster first pt bs cmp)
                           (cluster_of (current_directory_entry st)) (e, st1))
                         (\<lambda>(found, _, st2). ret (if found then st2 else not_found st2))))"

section \<open>What a copy writes\<close>

lemma put_bytes_sel [simp]:
  "in_file (put_bytes bs st) = in_file st" "err (put_bytes bs st) = err st @ bs" "out (put_bytes bs st) = out st"
  "put_bytes [] st = st" "put_bytes cs (put_bytes bs st) = put_bytes (bs @ cs) st"
  "at_pos k (put_bytes bs st) = put_bytes bs (at_pos k st)"
  by (simp_all add: put_bytes_def at_pos_def)

definition cluster_bytes :: "byte list \<Rightarrow> int \<Rightarrow> Fat16BootSector \<Rightarrow> int \<Rightarrow> byte list" where
  "cluster_bytes img first bs c = bytes_at img (nat (cluster_offset first bs c)) (nat (cluster_size bs))"

text \<open>The clusters a file of \<open>need\<close> bytes uses: its chain, or as much of it as it needs.\<close>

primrec file_chain :: "(int \<Rightarrow> bool) \<Rightarrow> (int \<Rightarrow> int) \<Rightarrow> nat \<Rightarrow> nat \<Rightarrow> int \<Rightarrow> int list \<Rightarrow> bool" where
  "file_chain at_end tab csize need c [] \<longleftrightarrow> at_end c \<or> need = 0"
| "file_chain at_end tab csize need c (x # xs) \<longleftrightarrow>
     \<not> at_end c \<and> 0 < need \<and> x = c \<and> file_chain at_end tab csize (need - csize) (tab c) xs"

definition file_on_disk ::
  "(int \<Rightarrow> bool) \<Rightarrow> byte list \<Rightarrow> int \<Rightarrow> PartitionTable list \<Rightarrow> Fat16BootSector \<Rightarrow> byte list \<Rightarrow> int list \<Rightarrow> bool" where
  "file_on_disk at_end img first pt bs e cs \<longleftrightarrow>
     file_chain at_end (fat_table img pt bs) (nat (cluster_size bs)) (size_of e) (cluster_of e) cs \<and>
     0 \<le> cluster_size bs \<and>
     (\<forall>x\<in>set cs. in_image img (fat_entry_pos pt bs x) 2 \<and>
        in_image img (cluster_offset first bs x) (cluster_size bs))"

definition file_bytes :: "byte list \<Rightarrow> int \<Rightarrow> Fat16BootSector \<Rightarrow> byte list \<Rightarrow> int list \<Rightarrow> byte list" where
  "file_bytes img first bs e cs = take (size_of e) (concat (map (cluster_bytes img first bs) cs))"

lemma copy_chain_writes:
  assumes "file_chain at_end (fat_table (img_of st) pt bs) (nat (cluster_size bs)) (fsize - br) c cs"
    and "\<forall>x\<in>set cs. in_image (img_of st) (fat_entry_pos pt bs x) 2 \<and>
        in_image (img_of st) (cluster_offset first bs x) (cluster_size bs)"
    and "0 \<le> cluster_size bs" "nat (cluster_size bs) \<le> length data" "br \<le> fsize"
  shows "\<exists>k. copy_chain at_end first pt bs fsize c br data st =
    ret (at_pos k (put_bytes (take (fsize - br) (concat (map (cluster_bytes (img_of st) first bs) cs))) st))"
  using assms
proof (induction cs arbitrary: c br data st)
  case Nil
  then have "at_end c \<or> fsize \<le> br" by auto
  then show ?case by (auto simp: copy_chain.simps intro: exI [of _ "fpos (in_file st)"])
next
  case (Cons x cs)
  let ?n = "nat (cluster_size bs)"
  define m where "m = (if fsize - br < ?n then fsize - br else ?n)"
  let ?off = "nat (cluster_offset first bs c)"
  have c: "\<not> at_end c" "br < fsize" "x = c" and chain:
    "file_chain at_end (fat_table (img_of st) pt bs) ?n (fsize - br - ?n) (fat_table (img_of st) pt bs c) cs"
    using Cons.prems(1) by auto
  have off: "0 \<le> cluster_offset first bs c" "?off + ?n \<le> length (img_of st)"
    using Cons.prems(2,3) c(3) by (auto simp: in_image_def)
  have m: "m \<le> ?n" "m \<le> fsize - br" by (auto simp: m_def)
  define got where "got = bytes_at (img_of st) ?off m"
  have lg: "length got = m" using off m by (simp add: got_def)
  have rd: "read_bytes m (take m data) (seek (cluster_offset first bs c) st) = (got, at_pos (?off + m) st)"
    using off m Cons.prems(4) by (simp add: seek_nonneg read_bytes_full got_def)
  define st3 where "st3 = put_bytes got (at_pos (?off + m) st)"
  obtain j where nx: "next_of pt bs c st3 = (fat_table (img_of st) pt bs c, at_pos j st3)"
    using next_of_full [of st3 pt bs c] Cons.prems(2) c(3) by (auto simp: st3_def)
  have step: "copy_chain at_end first pt bs fsize c br data st =
      copy_chain at_end first pt bs fsize (fat_table (img_of st) pt bs c) (br + m) (got @ drop m data) (at_pos j st3)"
    by (subst copy_chain.simps) (use c(1,2) rd nx lg in \<open>simp add: Let_def flip: m_def st3_def\<close>)
  have rest: "fsize - (br + m) = fsize - br - ?n" by (auto simp: m_def)
  have "\<exists>k. copy_chain at_end first pt bs fsize (fat_table (img_of st) pt bs c) (br + m) (got @ drop m data) (at_pos j st3) =
    ret (at_pos k (put_bytes (take (fsize - (br + m)) (concat (map (cluster_bytes (img_of (at_pos j st3)) first bs) cs)))
      (at_pos j st3)))"
    by (rule Cons.IH)
      (use Cons.prems chain rest m lg c(2) in \<open>auto simp: st3_def min_def\<close>)
  moreover have "take (fsize - br) (cluster_bytes (img_of st) first bs c @ rs) = got @ take (fsize - (br + m)) rs" for rs
  proof -
    have "length (cluster_bytes (img_of st) first bs c) = ?n" using off by (simp add: cluster_bytes_def)
    moreover have "take (fsize - br) (cluster_bytes (img_of st) first bs c) = got"
      by (simp add: cluster_bytes_def got_def take_bytes_at m_def min_def)
    ultimately show ?thesis using rest by simp
  qed
  ultimately show ?case using step c(3) by (auto simp: st3_def)
qed

lemma copy_file_writes:
  assumes "file_on_disk at_end (img_of st) first pt bs e cs"
  shows "\<exists>k. copy_file at_end first pt bs e st =
    ret (at_pos k (put_bytes (file_bytes (img_of st) first bs e cs) st))"
  using copy_chain_writes [of at_end st pt bs "size_of e" 0 "cluster_of e" cs first
      "automatic (4 * nat (cluster_size bs)) st"] assms
  by (simp add: file_on_disk_def copy_file_def file_bytes_def)

section \<open>Finding a file\<close>

text \<open>
  An entry as formatted disks hold it: no zero byte in name, extension and attributes, and a
  zero in the first reserved byte.
\<close>

definition plain :: "byte list \<Rightarrow> bool" where
  "plain e \<longleftrightarrow> length e = 32 \<and> 0 \<notin> set (take 12 e) \<and> e ! 12 = 0"

definition names_file :: "string \<Rightarrow> string option \<Rightarrow> byte list \<Rightarrow> bool" where
  "names_file name ext_opt e \<longleftrightarrow>
     used e \<and> filename (entry_of e) @ ext (entry_of e) @ [attributes (entry_of e)] = namecmp name ext_opt"

lemma strlen_upto: "0 \<notin> set xs \<Longrightarrow> strlen (xs @ 0 # ys) = ret (length xs)"
  by (induction xs) auto

lemma namecmp_length [simp]: "length (namecmp name x) = 12"
  by (simp add: namecmp_def split: option.split)

lemma namecmp_NUL:
  assumes "NUL \<notin> set name" "\<And>s. x = Some s \<Longrightarrow> NUL \<notin> set s"
  shows "0 \<notin> set (namecmp name x)"
proof -
  have "0 \<notin> set (map (\<lambda>i. if i < length s then of_char (s ! i) else 0x20 :: byte) [0..<n])"
    if "NUL \<notin> set s" for s n using that by (auto dest: nth_mem)
  then show ?thesis using assms by (auto simp: namecmp_def simp del: set_map split: option.split)
qed

lemma take_12_entry:
  assumes "length e = 32"
  shows "take 12 e = filename (entry_of e) @ ext (entry_of e) @ [attributes (entry_of e)]"
proof -
  have "[attributes (entry_of e)] = bytes_at e 11 1" using assms by (simp add: entry_of_def field_byte)
  then show ?thesis
    using bytes_at_append [of e 0 8 3] bytes_at_append [of e 0 11 1]
    by (simp add: entry_of_def bytes_at_def) (metis append_assoc)
qed

lemma file_test_plain:
  assumes "length e = 32" "used e \<Longrightarrow> plain e" "NUL \<notin> set name" "\<And>s. x = Some s \<Longrightarrow> NUL \<notin> set s"
  shows "file_test (namecmp name x) e = ret (names_file name x e)"
proof (cases "used e")
  case True
  then have p: "0 \<notin> set (take 12 e)" "e ! 12 = 0" using assms(2) by (auto simp: plain_def)
  have "e = take 12 e @ e ! 12 # drop 13 e"
    using id_take_nth_drop [of 12 e] assms(1) by simp
  then have "strlen e = ret 12" using strlen_upto [OF p(1), of "drop 13 e"] p(2) assms(1) by simp
  moreover have "strncmp_eq e (namecmp name x) 12 = ret (take 12 e = namecmp name x)"
    by (rule strncmp_eq_take) (use namecmp_NUL [OF assms(3,4)] assms(1) in simp_all)
  ultimately show ?thesis
    using True by (simp add: file_test_def names_file_def take_12_entry [OF assms(1)])
qed (simp add: file_test_def names_file_def)

text \<open>
  \<open>read\<close> finds archive files only: \<open>strlen\<close> runs over the unterminated name and
  extension into the attributes, so on an entry as formatted disks hold it a name can match
  only if the attribute byte is 0x20, the space that \<open>namecmp\<close> ends with. A file that is
  read-only, hidden, a system file, or without the archive bit is not found.
\<close>

lemma read_finds_archive_files_only:
  assumes "plain e" "file_test (namecmp name x) e = ret True"
    and "NUL \<notin> set name" "\<And>s. x = Some s \<Longrightarrow> NUL \<notin> set s"
  shows "attributes (entry_of e) = 0x20"
proof -
  have "names_file name x e"
    using file_test_plain [of e name x] assms by (auto simp: plain_def)
  then have "last (filename (entry_of e) @ ext (entry_of e) @ [attributes (entry_of e)]) = last (namecmp name x)"
    by (simp add: names_file_def)
  then show ?thesis by (simp add: namecmp_def)
qed

lemma find_named_file:
  assumes "\<And>e. e \<in> set (slots (img_of st) (nat off) n) \<Longrightarrow> used e \<Longrightarrow> plain e"
    and "NUL \<notin> set name" "\<And>s. x = Some s \<Longrightarrow> NUL \<notin> set s" "length e = 32"
    and "in_image (img_of st) off (32 * int n)"
  shows "\<exists>k e'. length e' = 32 \<and> find_entry n (file_test (namecmp name x)) (e, seek off st) =
    ret (case find (names_file name x) (slots (img_of st) (nat off) n) of
           Some b \<Rightarrow> (True, b, at_pos k st) | None \<Rightarrow> (False, e', at_pos k st))"
proof -
  note o = in_imageD [OF assms(5)]
  have t: "file_test (namecmp name x) b = ret (names_file name x b)"
    if "b \<in> set (slots (img_of st) (nat off) n)" for b
    by (rule file_test_plain) (use assms slots_length [OF conjunct2 [OF o]] that in auto)
  show ?thesis
    using find_entry_full [of e "at_pos (nat off) st" "nat off" n "file_test (namecmp name x)" "names_file name x"]
      o t assms(4) unfolding at_pos_sel by (simp add: seek_nonneg)
qed

section \<open>Reading a file\<close>

lemma strtok_sub: "strtok d s = (Some t, r) \<Longrightarrow> set t \<subseteq> set s"
  "strtok d s = (t', r) \<Longrightarrow> set r \<subseteq> set s"
  by (auto simp: strtok_def Let_def dest!: set_takeWhileD set_dropWhileD in_set_dropD split: if_splits)

definition end_test :: "fat \<Rightarrow> int \<Rightarrow> bool" where
  "end_test st = (if current_directory_offset st = root_directory_offset st then root_end else is_end_of_chain)"

definition read_result ::
  "int \<Rightarrow> Fat16BootSector \<Rightarrow> byte list option \<Rightarrow> int list \<Rightarrow> fat \<Rightarrow> fat" where
  "read_result first bs found cs st =
     (case found of None \<Rightarrow> not_found st | Some e \<Rightarrow> put_bytes (file_bytes (img_of st) first bs e cs) st)"

lemma read_in_root:
  assumes "current_directory_offset st = root_directory_offset st" "root_on_disk (img_of st) bs (root_directory_offset st)"
    and es: "es = root_entries (img_of st) bs (root_directory_offset st)" and first: "first_data_sector pt bs = ret first"
    and tok: "strtok CHR ''.'' fname = (Some name, rest)" "strtok CHR ''.'' rest = (x, rest2)"
    and nn: "NUL \<notin> set name" "\<And>s. x = Some s \<Longrightarrow> NUL \<notin> set s"
    and pl: "\<And>e. e \<in> set es \<Longrightarrow> used e \<Longrightarrow> plain e"
    and on_disk: "\<And>e. find (names_file name x) es = Some e \<Longrightarrow> file_on_disk root_end (img_of st) first pt bs e cs"
  shows "\<exists>k. read_file (Some fname) pt bs st =
    ret (at_pos k (read_result first bs (find (names_file name x) es) cs st))"
proof -
  have r: "in_image (img_of st) (root_directory_offset st) (32 * int (unat (root_dir_entries bs)))"
    using assms(2) by (simp add: root_on_disk_def)
  obtain k e' where k: "find_entry (unat (root_dir_entries bs)) (file_test (namecmp name x))
      (automatic 32 st, seek (root_directory_offset st) st) =
    ret (case find (names_file name x) es of Some b \<Rightarrow> (True, b, at_pos k st) | None \<Rightarrow> (False, e', at_pos k st))"
    using find_named_file [OF pl nn length_automatic r, unfolded es root_entries_def]
    unfolding es root_entries_def by blast
  show ?thesis
  proof (cases "find (names_file name x) es")
    case None
    then show ?thesis using assms(1) k first tok
      by (intro exI [of _ k]) (simp add: read_file_def Let_def read_result_def not_found_def)
  next
    case (Some e)
    from on_disk [OF Some] obtain j where
      "copy_file root_end first pt bs e (at_pos k st) =
        ret (at_pos j (put_bytes (file_bytes (img_of st) first bs e cs) (at_pos k st)))"
      using copy_file_writes [of root_end "at_pos k st" first pt bs e cs] by auto
    then show ?thesis using assms(1) k first tok Some
      by (intro exI [of _ j]) (simp add: read_file_def Let_def read_result_def flip: put_bytes_sel(6))
  qed
qed

text \<open>One cluster of a directory: the entry is copied if it is here, else the search goes on.\<close>

lemma read_cluster_step:
  assumes on_disk: "in_image (img_of st) (cluster_offset first bs c) (32 * int (entries_per_cluster bs))"
    and pl: "\<And>e. e \<in> set sl \<Longrightarrow> used e \<Longrightarrow> plain e"
    and sl: "sl = slots (img_of st) (nat (cluster_offset first bs c)) (entries_per_cluster bs)"
    and nn: "NUL \<notin> set name" "\<And>s. x = Some s \<Longrightarrow> NUL \<notin> set s" and "length e = 32"
    and copied: "\<And>b. find (names_file name x) sl = Some b \<Longrightarrow> file_on_disk is_end_of_chain (img_of st) first pt bs b cs"
  shows "\<exists>k e'. length e' = 32 \<and> read_cluster first pt bs (namecmp name x) c (e, at_pos i st) =
    ret (find (names_file name x) sl \<noteq> None, e',
         at_pos k (case find (names_file name x) sl of None \<Rightarrow> st
                   | Some b \<Rightarrow> put_bytes (file_bytes (img_of st) first bs b cs) st))"
proof -
  obtain j e' where fe: "length e' = 32" "find_entry (entries_per_cluster bs) (file_test (namecmp name x))
      (e, seek (cluster_offset first bs c) (at_pos i st)) =
    ret (case find (names_file name x) sl of Some b \<Rightarrow> (True, b, at_pos j st) | None \<Rightarrow> (False, e', at_pos j st))"
    using find_named_file [of "at_pos i st", unfolded at_pos_sel, OF pl [unfolded sl] nn assms(6) on_disk]
    unfolding sl by blast
  show ?thesis
  proof (cases "find (names_file name x) sl")
    case None
    then show ?thesis using fe by (intro exI [of _ j] exI [of _ e']) (simp add: read_cluster_def)
  next
    case (Some b)
    from copied [OF Some] obtain k where
      k: "copy_file is_end_of_chain first pt bs b (at_pos j st) =
        ret (at_pos k (put_bytes (file_bytes (img_of st) first bs b cs) (at_pos j st)))"
      using copy_file_writes [of is_end_of_chain "at_pos j st" first pt bs b cs] by auto
    have "length b = 32"
      using Some slots_length [OF conjunct2 [OF in_imageD [OF on_disk]]] by (auto simp: sl find_Some_iff)
    then show ?thesis using fe Some k
      by (intro exI [of _ k] exI [of _ b]) (simp add: read_cluster_def flip: put_bytes_sel(6))
  qed
qed

lemma read_in_sub:
  assumes "current_directory_offset st \<noteq> root_directory_offset st"
    and chain: "chain_on_disk (img_of st) first pt bs (cluster_of (current_directory_entry st)) ds"
    and es: "es = dir_entries (img_of st) first bs ds" and first: "first_data_sector pt bs = ret first"
    and tok: "strtok CHR ''.'' fname = (Some name, rest)" "strtok CHR ''.'' rest = (x, rest2)"
    and nn: "NUL \<notin> set name" "\<And>s. x = Some s \<Longrightarrow> NUL \<notin> set s"
    and pl: "\<And>e. e \<in> set es \<Longrightarrow> used e \<Longrightarrow> plain e"
    and on_disk: "\<And>e. find (names_file name x) es = Some e \<Longrightarrow> file_on_disk is_end_of_chain (img_of st) first pt bs e cs"
  shows "\<exists>k. read_file (Some fname) pt bs st =
    ret (at_pos k (read_result first bs (find (names_file name x) es) cs st))"
proof -
  define sl where "sl c = slots (img_of st) (nat (cluster_offset first bs c)) (entries_per_cluster bs)" for c
  define hit where "hit c \<longleftrightarrow> find (names_file name x) (sl c) \<noteq> None" for c
  have es': "find (names_file name x) es = (case find hit ds of None \<Rightarrow> None | Some c \<Rightarrow> find (names_file name x) (sl c))"
    unfolding es dir_entries_def find_concat hit_def sl_def by simp
  let ?P = "\<lambda>est :: byte list \<times> fat. length (fst est) = 32 \<and> (\<exists>k. snd est = at_pos k st)"
  let ?Q = "\<lambda>c est :: byte list \<times> fat. \<exists>k. snd est = at_pos k (put_bytes
      (file_bytes (img_of st) first bs (the (find (names_file name x) (sl c))) cs) st)"
  have "\<exists>est. while_chain (next_with pt bs) (read_cluster first pt bs (namecmp name x))
      (cluster_of (current_directory_entry st))
      (automatic 32 st, seek (current_directory_offset st) st) = ret (find hit ds \<noteq> None, est) \<and>
      img_of (snd est) = img_of st \<and> (case find hit ds of None \<Rightarrow> ?P est | Some y \<Rightarrow> ?Q y est)"
  proof (rule fat16.walk_search)
    show "is_chain (fat_table (img_of st) pt bs) (cluster_of (current_directory_entry st)) ds"
      "\<forall>c\<in>set ds. in_image (img_of st) (fat_entry_pos pt bs c) 2"
      using chain by (auto simp: chain_on_disk_def)
    show "?P (automatic 32 st, seek (current_directory_offset st) st)" using seek_pos by auto
  next
    fix c and est :: "byte list \<times> fat"
    assume c: "c \<in> set ds" and P: "?P est" and first_hit: "hit c \<Longrightarrow> find hit ds = Some c"
    obtain e i where est: "est = (e, at_pos i st)" "length e = 32" using P by (cases est) auto
    have "\<exists>k e'. length e' = 32 \<and> read_cluster first pt bs (namecmp name x) c (e, at_pos i st) =
      ret (find (names_file name x) (sl c) \<noteq> None, e',
           at_pos k (case find (names_file name x) (sl c) of None \<Rightarrow> st
                     | Some b \<Rightarrow> put_bytes (file_bytes (img_of st) first bs b cs) st))"
    proof (rule read_cluster_step [OF _ _ sl_def nn est(2)])
      show "used b \<Longrightarrow> plain b" if "b \<in> set (sl c)" for b
        using pl [of b] that c by (auto simp: es dir_entries_def sl_def)
      show "file_on_disk is_end_of_chain (img_of st) first pt bs b cs"
        if "find (names_file name x) (sl c) = Some b" for b
        using on_disk [of b] first_hit es' that by (simp add: hit_def)
    qed (use chain c in \<open>auto simp: chain_on_disk_def\<close>)
    then show "\<exists>s'. read_cluster first pt bs (namecmp name x) c est = ret (hit c, s') \<and>
        img_of (snd s') = img_of st \<and> (if hit c then ?Q c s' else ?P s')"
      by (auto simp: est(1) hit_def split: option.splits)
  next
    fix c and est :: "byte list \<times> fat"
    assume "?P est"
    then show "?P (snd (next_with pt bs c est))" using look_keeps [of est st pt bs c] by simp
  qed simp
  then obtain est where w: "while_chain (next_with pt bs) (read_cluster first pt bs (namecmp name x))
      (cluster_of (current_directory_entry st))
      (automatic 32 st, seek (current_directory_offset st) st) = ret (find hit ds \<noteq> None, est)"
    "case find hit ds of None \<Rightarrow> ?P est | Some y \<Rightarrow> ?Q y est" by blast
  have "find (names_file name x) (sl c) \<noteq> None" if "find hit ds = Some c" for c
    using that by (auto simp: find_Some_iff hit_def)
  then obtain k where "snd est = at_pos k (case find (names_file name x) es of None \<Rightarrow> st
      | Some e \<Rightarrow> put_bytes (file_bytes (img_of st) first bs e cs) st)"
    using w(2) by (auto simp: es' split: option.splits)
  then show ?thesis
    using assms(1) w(1) first tok \<open>\<And>c. find hit ds = Some c \<Longrightarrow> find (names_file name x) (sl c) \<noteq> None\<close>
    by (intro exI [of _ k])
      (cases "find hit ds", auto simp: read_file_def Let_def read_result_def es' not_found_def case_prod_beta)
qed

text \<open>
  Claim C10. \<open>read\<close> delivers the file: in a directory that lies on the disk with entries as
  formatted disks hold them, \<open>read NAME.EXT\<close> writes to standard error the first
  \<open>file_size\<close> bytes of the clusters of the chain of the first entry it matches, no byte more
  or less, and prints that the file is not found if there is none. Nothing else changes but
  the position in the file.
\<close>

theorem read_copies_file:
  assumes ce: "current_entries pt bs st es" and first: "first_data_sector pt bs = ret first"
    and tok: "strtok CHR ''.'' fname = (Some name, rest)" "strtok CHR ''.'' rest = (x, rest2)" "NUL \<notin> set fname"
    and pl: "\<And>e. e \<in> set es \<Longrightarrow> used e \<Longrightarrow> plain e"
    and on_disk: "\<And>e. find (names_file name x) es = Some e \<Longrightarrow>
      file_on_disk (end_test st) (img_of st) first pt bs e cs"
  shows "\<exists>k. read_file (Some fname) pt bs st =
    ret (at_pos k (read_result first bs (find (names_file name x) es) cs st))"
proof -
  have nn: "NUL \<notin> set name" "\<And>s. x = Some s \<Longrightarrow> NUL \<notin> set s"
    using strtok_sub [OF tok(1)] strtok_sub(1) [of "CHR ''.''" rest] tok by auto
  show ?thesis
  proof (cases "current_directory_offset st = root_directory_offset st")
    case True
    then show ?thesis
      using ce on_disk by (intro read_in_root [OF True _ _ first tok(1,2) nn pl])
        (auto simp: current_entries_def end_test_def)
  next
    case False
    then obtain ds where "chain_on_disk (img_of st) first pt bs (cluster_of (current_directory_entry st)) ds"
      "es = dir_entries (img_of st) first bs ds"
      using ce first by (auto simp: current_entries_def)
    then show ?thesis
      using on_disk False by (intro read_in_sub [OF False _ _ first tok(1,2) nn pl]) (auto simp: end_test_def)
  qed
qed

end
