(* ===== verification/Fat_Tree.thy ===== *)
theory Fat_Tree
  imports Fat_Dir
begin

text \<open>
  \<open>print_tree\<close> of \<open>fat/fat.c\<close>. It calls itself from inside its loops, so the model is one
  partial function over the points of the program a loop can be at: the call itself, the
  loop over the root entries, the loop over the clusters of a directory, the loop over the
  entries of a cluster. Each point has the automatic variables that are live there; the
  pointer to the directory is only used for its starting cluster. A recursion that does not
  end is \<open>None\<close>: in C it exhausts the stack.

  The specification is a tree of names. A directory on the disk represents a tree, and
  \<open>print_tree\<close> prints the rendering of that tree. An entry that leads back to a directory
  above its parent represents none, and then \<open>print_tree\<close> does not return.
\<close>

datatype tree_point =
    Print_tree "int option" nat
  | Root_loop nat nat "byte list"
  | Cluster_loop int nat int "byte list"
  | Entry_loop int nat int nat "byte list"

definition name_line :: "byte list \<Rightarrow> string" where
  "name_line e = ''|'' @ [CHR 0x09] @ short_name (entry_of e) @ newline"

definition indent :: "nat \<Rightarrow> string" where
  "indent depth = concat (replicate depth (''|'' @ [CHR 0x09]))"

text \<open>\<open>depth\<close> is counted from \<open>-1\<close> in the code: \<open>Print_tree d n\<close> is the call with \<open>n - 1\<close>.\<close>

partial_function (option) print_tree_at ::
  "PartitionTable list \<Rightarrow> Fat16BootSector \<Rightarrow> tree_point \<Rightarrow> fat \<Rightarrow> fat res" where
  "print_tree_at pt bs p st =
     (case p of
        Print_tree directory depth \<Rightarrow>
          (case directory of
             None \<Rightarrow> print_tree_at pt bs (Root_loop depth 0 (automatic 32 st))
                       (puts (''/root'' @ newline) (seek (root_directory_offset st) st))
           | Some d \<Rightarrow> res_bind (first_data_sector pt bs)
                         (\<lambda>_. print_tree_at pt bs (Cluster_loop d depth d (automatic 32 st)) st))
      | Root_loop depth i entry \<Rightarrow>
          if i < unat (root_dir_entries bs) then
            let (e, st1) = read_bytes 32 entry st in
            if used e then
              let st2 = puts (name_line e) st1 in
              if is_dir e
              then res_bind (print_tree_at pt bs (Print_tree (Some (cluster_of e)) (Suc depth)) st2)
                     (\<lambda>st3. print_tree_at pt bs (Root_loop depth (Suc i) e)
                              (seek (root_directory_offset st3 + (int i + 1) * 32) st3))
              else print_tree_at pt bs (Root_loop depth (Suc i) e) st2
            else print_tree_at pt bs (Root_loop depth (Suc i) e) st1
          else ret st
      | Cluster_loop d depth c entry \<Rightarrow>
          if is_end_of_chain c then ret st
          else res_bind (first_data_sector pt bs)
                 (\<lambda>first. print_tree_at pt bs (Entry_loop d depth c 0 entry)
                            (seek (cluster_offset first bs c) st))
      | Entry_loop d depth c i entry \<Rightarrow>
          if i < entries_per_cluster bs then
            let (e, st1) = read_bytes 32 entry st in
            if used e \<and> cluster_of e \<noteq> d then
              if is_dir e \<and> cluster_of e = 0
              then print_tree_at pt bs (Entry_loop d depth c (Suc i) e) st1
              else
                let st2 = puts (indent depth @ name_line e) st1 in
                if is_dir e \<and> cluster_of e \<noteq> 0
                then res_bind (print_tree_at pt bs (Print_tree (Some (cluster_of e)) (Suc depth)) st2)
                       (\<lambda>st3. res_bind (first_data_sector pt bs)
                         (\<lambda>first. print_tree_at pt bs (Entry_loop d depth c (Suc i) e)
                                    (seek (cluster_offset first bs c + (int i + 1) * 32) st3)))
                else print_tree_at pt bs (Entry_loop d depth c (Suc i) e) st2
            else print_tree_at pt bs (Entry_loop d depth c (Suc i) e) st1
          else
            let (c', st1) = next_of pt bs c st
            in print_tree_at pt bs (Cluster_loop d depth c' entry) st1)"

definition print_tree :: "PartitionTable list \<Rightarrow> Fat16BootSector \<Rightarrow> fat \<Rightarrow> fat res" where
  "print_tree pt bs st = print_tree_at pt bs (Print_tree None 0) st"

section \<open>The tree of names\<close>

datatype node = Leaf "byte list" | Node "byte list" "node list"

fun render :: "nat \<Rightarrow> node \<Rightarrow> string" where
  "render depth (Leaf e) = indent depth @ name_line e"
| "render depth (Node e ns) = indent depth @ name_line e @ concat (map (render (Suc depth)) ns)"

abbreviation render_all :: "nat \<Rightarrow> node list \<Rightarrow> string" where
  "render_all depth ns \<equiv> concat (map (render depth) ns)"

text \<open>The entries of the directory with starting cluster \<open>d\<close> that are part of the tree.\<close>

definition shown :: "int \<Rightarrow> byte list \<Rightarrow> bool" where
  "shown d e \<longleftrightarrow> used e \<and> cluster_of e \<noteq> d \<and> \<not> (is_dir e \<and> cluster_of e = 0)"

definition entry_node :: "(int \<Rightarrow> node list \<Rightarrow> bool) \<Rightarrow> byte list \<Rightarrow> node \<Rightarrow> bool" where
  "entry_node sub e n \<longleftrightarrow>
     (if is_dir e then \<exists>ns. n = Node e ns \<and> sub (cluster_of e) ns else n = Leaf e)"

lemma entry_node_mono [mono]: "(\<And>d ns. A d ns \<longrightarrow> B d ns) \<Longrightarrow> entry_node A e n \<longrightarrow> entry_node B e n"
  by (auto simp: entry_node_def)

inductive dir_tree :: "byte list \<Rightarrow> int \<Rightarrow> PartitionTable list \<Rightarrow> Fat16BootSector \<Rightarrow> int \<Rightarrow> node list \<Rightarrow> bool"
  for img first pt bs where
  "chain_on_disk img first pt bs d cs \<Longrightarrow>
   list_all2 (entry_node (dir_tree img first pt bs)) (filter (shown d) (dir_entries img first bs cs)) ns \<Longrightarrow>
   dir_tree img first pt bs d ns"

definition root_tree ::
  "byte list \<Rightarrow> int \<Rightarrow> PartitionTable list \<Rightarrow> Fat16BootSector \<Rightarrow> int \<Rightarrow> node list \<Rightarrow> bool" where
  "root_tree img first pt bs off ns \<longleftrightarrow>
     root_on_disk img bs off \<and>
     list_all2 (entry_node (dir_tree img first pt bs)) (filter used (root_entries img bs off)) ns"

section \<open>print\_tree prints the tree\<close>

definition prints :: "byte list \<Rightarrow> PartitionTable list \<Rightarrow> Fat16BootSector \<Rightarrow> int \<Rightarrow> node list \<Rightarrow> bool" where
  "prints img pt bs d ns \<longleftrightarrow>
     (\<forall>depth st. img_of st = img \<longrightarrow>
        (\<exists>k. print_tree_at pt bs (Print_tree (Some d) depth) st =
             ret (at_pos k (puts (render_all depth ns) st))))"

lemma print_entry_step:
  assumes pr: "entry_node (prints (img_of st) pt bs) e n" and nz: "is_dir e \<Longrightarrow> cluster_of e \<noteq> 0"
    and first: "first_data_sector pt bs = ret first" and off: "0 \<le> cluster_offset first bs c"
    and e: "used e" "cluster_of e \<noteq> d"
    and i: "i < entries_per_cluster bs" and rd: "read_bytes 32 e0 st = (e, at_pos k st)"
    and k: "k = nat (cluster_offset first bs c) + 32 * Suc i"
  shows "print_tree_at pt bs (Entry_loop d depth c i e0) st =
    print_tree_at pt bs (Entry_loop d depth c (Suc i) e) (at_pos k (puts (render depth n) st))"
proof (cases "is_dir e")
  case True
  then obtain ns where n: "n = Node e ns" "prints (img_of st) pt bs (cluster_of e) ns"
    using pr by (auto simp: entry_node_def)
  then obtain j where "print_tree_at pt bs (Print_tree (Some (cluster_of e)) (Suc depth))
      (at_pos k (puts (indent depth @ name_line e) st)) =
    ret (at_pos j (puts (render_all (Suc depth) ns) (at_pos k (puts (indent depth @ name_line e) st))))"
    unfolding prints_def by (metis at_pos_sel(1) puts_sel(1))
  moreover have "nat (cluster_offset first bs c + (int i + 1) * 32) = k" using off k by (simp add: nat_add_distrib nat_mult_distrib)
  ultimately show ?thesis
    using True nz e i rd first off n
    by (subst print_tree_at.simps) (simp add: Let_def seek_nonneg)
next
  case False
  then show ?thesis
    using pr e i rd by (subst print_tree_at.simps) (simp add: entry_node_def Let_def)
qed

lemma skip_entry_step:
  assumes "\<not> shown d e" "i < entries_per_cluster bs" "read_bytes 32 e0 st = (e, st1)"
  shows "print_tree_at pt bs (Entry_loop d depth c i e0) st =
    print_tree_at pt bs (Entry_loop d depth c (Suc i) e) st1"
  using assms by (subst print_tree_at.simps) (auto simp: shown_def Let_def)

lemma entry_loop_prints:
  assumes "n = entries_per_cluster bs - i" "i \<le> entries_per_cluster bs" "length e = 32"
    and "first_data_sector pt bs = ret first"
    and "in_image (img_of st) (cluster_offset first bs c) (32 * int (entries_per_cluster bs))"
    and "fpos (in_file st) = nat (cluster_offset first bs c) + 32 * i"
    and "list_all2 (entry_node (prints (img_of st) pt bs))
      (filter (shown d) (slots (img_of st) (nat (cluster_offset first bs c) + 32 * i) n)) ns"
  shows "\<exists>k e'. length e' = 32 \<and> print_tree_at pt bs (Entry_loop d depth c i e) st =
    print_tree_at pt bs (Entry_loop d depth c (entries_per_cluster bs) e') (at_pos k (puts (render_all depth ns) st))"
  using assms
proof (induction n arbitrary: i e st ns)
  case 0
  have eq: "at_pos (nat (cluster_offset first bs c) + 32 * i) st = st"
    using at_pos_sel(11) [of st] 0(6) by metis
  have "entries_per_cluster bs = i" "ns = []" using 0(1,2,7) by simp_all
  then show ?case
    using 0(3) by (intro exI [of _ "nat (cluster_offset first bs c) + 32 * i"] exI [of _ e]) (simp add: eq)
next
  case (Suc n)
  let ?off = "nat (cluster_offset first bs c)"
  let ?e = "bytes_at (img_of st) (?off + 32 * i) 32"
  have i: "i < entries_per_cluster bs" "n = entries_per_cluster bs - Suc i" using Suc.prems(1) by auto
  note o = in_imageD [OF Suc.prems(5)]
  have len: "?off + 32 * i + 32 \<le> length (img_of st)" using o i(1) by linarith
  then have rd: "read_bytes 32 e st = (?e, at_pos (?off + 32 * Suc i) st)"
    using Suc.prems(3,6) by (simp add: read_bytes_full add.commute)
  have sl: "slots (img_of st) (?off + 32 * i) (Suc n) = ?e # slots (img_of st) (?off + 32 * Suc i) n"
    by (simp add: slots_Suc add.commute add.left_commute)
  show ?case
  proof (cases "shown d ?e")
    case False
    have "\<exists>k e'. length e' = 32 \<and> print_tree_at pt bs (Entry_loop d depth c (Suc i) ?e) (at_pos (?off + 32 * Suc i) st) =
      print_tree_at pt bs (Entry_loop d depth c (entries_per_cluster bs) e')
        (at_pos k (puts (render_all depth ns) (at_pos (?off + 32 * Suc i) st)))"
      by (rule Suc.IH) (use Suc.prems i len False sl in simp_all)
    then show ?thesis using skip_entry_step [OF False i(1) rd] by simp
  next
    case True
    then obtain m ms where ns: "ns = m # ms" "entry_node (prints (img_of st) pt bs) ?e m"
      "list_all2 (entry_node (prints (img_of st) pt bs))
        (filter (shown d) (slots (img_of st) (?off + 32 * Suc i) n)) ms"
      using Suc.prems(7) by (auto simp: sl list_all2_Cons1)
    let ?st = "at_pos (?off + 32 * Suc i) (puts (render depth m) st)"
    have "print_tree_at pt bs (Entry_loop d depth c i e) st = print_tree_at pt bs (Entry_loop d depth c (Suc i) ?e) ?st"
      by (rule print_entry_step [OF ns(2) _ Suc.prems(4) conjunct1 [OF o] _ _ i(1) rd refl])
        (use True in \<open>auto simp: shown_def\<close>)
    moreover have "\<exists>k e'. length e' = 32 \<and> print_tree_at pt bs (Entry_loop d depth c (Suc i) ?e) ?st =
      print_tree_at pt bs (Entry_loop d depth c (entries_per_cluster bs) e') (at_pos k (puts (render_all depth ms) ?st))"
      by (rule Suc.IH) (use Suc.prems i len ns in simp_all)
    ultimately show ?thesis by (simp add: ns(1))
  qed
qed

lemma cluster_loop_prints:
  assumes "first_data_sector pt bs = ret first" "chain_on_disk (img_of st) first pt bs c cs" "length e = 32"
    and "list_all2 (entry_node (prints (img_of st) pt bs)) (filter (shown d) (dir_entries (img_of st) first bs cs)) ns"
  shows "\<exists>k. print_tree_at pt bs (Cluster_loop d depth c e) st = ret (at_pos k (puts (render_all depth ns) st))"
  using assms(2-)
proof (induction cs arbitrary: c e st ns)
  case Nil
  then have "is_end_of_chain c" "ns = []" by (auto simp: chain_on_disk_def dir_entries_def)
  then show ?case by (intro exI [of _ "fpos (in_file st)"]) (simp add: print_tree_at.simps)
next
  case (Cons x cs)
  let ?sl = "slots (img_of st) (nat (cluster_offset first bs c)) (entries_per_cluster bs)"
  have c: "\<not> is_end_of_chain c" "x = c" "in_image (img_of st) (fat_entry_pos pt bs c) 2"
    "in_image (img_of st) (cluster_offset first bs c) (32 * int (entries_per_cluster bs))"
    and rest: "chain_on_disk (img_of st) first pt bs (fat_table (img_of st) pt bs c) cs"
    using Cons.prems(1) by (auto simp: chain_on_disk_def)
  obtain ms ks where ns: "ns = ms @ ks" "list_all2 (entry_node (prints (img_of st) pt bs)) (filter (shown d) ?sl) ms"
    "list_all2 (entry_node (prints (img_of st) pt bs)) (filter (shown d) (dir_entries (img_of st) first bs cs)) ks"
    using Cons.prems(3) c(2) by (auto simp: dir_entries_def list_all2_append1)
  note o = in_imageD [OF c(4)]
  let ?st1 = "seek (cluster_offset first bs c) st"
  obtain k e' where 1: "length e' = 32" "print_tree_at pt bs (Entry_loop d depth c 0 e) ?st1 =
      print_tree_at pt bs (Entry_loop d depth c (entries_per_cluster bs) e') (at_pos k (puts (render_all depth ms) ?st1))"
    using entry_loop_prints [of "entries_per_cluster bs" bs 0 e pt first ?st1 c d ms depth] assms(1) c(4) ns(2) o
      Cons.prems(2) by (auto simp: seek_nonneg)
  let ?st2 = "at_pos k (puts (render_all depth ms) ?st1)"
  have nx: "next_of pt bs c ?st2 = (fat_table (img_of st) pt bs c, at_pos (nat (fat_entry_pos pt bs c) + 2) ?st2)"
    using next_of_full [of ?st2 pt bs c] c(3) by simp
  obtain j where "print_tree_at pt bs (Cluster_loop d depth (fat_table (img_of st) pt bs c) e')
      (at_pos (nat (fat_entry_pos pt bs c) + 2) ?st2) =
      ret (at_pos j (puts (render_all depth ks) (at_pos (nat (fat_entry_pos pt bs c) + 2) ?st2)))"
    using Cons.IH [of "at_pos (nat (fat_entry_pos pt bs c) + 2) ?st2" "fat_table (img_of st) pt bs c" e' ks] rest ns(3) 1(1)
    by auto
  then have "print_tree_at pt bs (Entry_loop d depth c (entries_per_cluster bs) e') ?st2 =
      ret (at_pos j (puts (render_all depth ks) (at_pos (nat (fat_entry_pos pt bs c) + 2) ?st2)))"
    by (subst print_tree_at.simps) (simp add: nx del: at_pos_puts)
  then have "print_tree_at pt bs (Cluster_loop d depth c e) st =
      ret (at_pos j (puts (render_all depth ks) (at_pos (nat (fat_entry_pos pt bs c) + 2) ?st2)))"
    using c(1) assms(1) 1(2) by (subst print_tree_at.simps) simp
  then show ?case using o by (auto simp: ns(1) seek_nonneg)
qed

lemma dir_tree_prints:
  assumes "dir_tree img first pt bs d ns" "first_data_sector pt bs = ret first"
  shows "prints img pt bs d ns"
  using assms(1)
proof induction
  case (1 d cs ns)
  have l: "list_all2 (entry_node (prints img pt bs)) (filter (shown d) (dir_entries img first bs cs)) ns"
    using 1(2) by (rule list_all2_mono) (auto simp: entry_node_def)
  show ?case unfolding prints_def
  proof (intro allI impI)
    fix depth st assume "img_of st = img"
    then obtain k where "print_tree_at pt bs (Cluster_loop d depth d (automatic 32 st)) st =
        ret (at_pos k (puts (render_all depth ns) st))"
      using cluster_loop_prints [of pt bs first st d cs "automatic 32 st" d ns depth] assms(2) 1(1) l by auto
    then show "\<exists>k. print_tree_at pt bs (Print_tree (Some d) depth) st = ret (at_pos k (puts (render_all depth ns) st))"
      using assms(2) by (intro exI [of _ k], subst print_tree_at.simps) simp
  qed
qed

lemma indent_0 [simp]: "indent 0 = []"
  by (simp add: indent_def)

lemma root_entry_step:
  assumes pr: "used e \<Longrightarrow> entry_node (prints (img_of st) pt bs) e n"
    and i: "i < unat (root_dir_entries bs)" and rd: "read_bytes 32 e0 st = (e, at_pos k st)"
    and k: "k = nat (root_directory_offset st) + 32 * Suc i" and off: "0 \<le> root_directory_offset st"
  shows "print_tree_at pt bs (Root_loop 0 i e0) st =
    print_tree_at pt bs (Root_loop 0 (Suc i) e) (at_pos k (puts (if used e then render 0 n else []) st))"
proof (cases "used e \<and> is_dir e")
  case True
  then obtain ns where n: "n = Node e ns" "prints (img_of st) pt bs (cluster_of e) ns"
    using pr by (auto simp: entry_node_def)
  then obtain j where "print_tree_at pt bs (Print_tree (Some (cluster_of e)) (Suc 0))
      (at_pos k (puts (name_line e) st)) =
    ret (at_pos j (puts (render_all (Suc 0) ns) (at_pos k (puts (name_line e) st))))"
    unfolding prints_def by (metis at_pos_sel(1) puts_sel(1))
  moreover have "nat (root_directory_offset st + (int i + 1) * 32) = k"
    using off k by (simp add: nat_add_distrib nat_mult_distrib)
  ultimately show ?thesis
    using True i rd off n by (subst print_tree_at.simps) (simp add: Let_def seek_nonneg)
next
  case False
  then show ?thesis
    using pr i rd by (subst print_tree_at.simps) (auto simp: entry_node_def Let_def)
qed

lemma root_loop_prints:
  assumes "n = unat (root_dir_entries bs) - i" "i \<le> unat (root_dir_entries bs)" "length e = 32"
    and "root_on_disk (img_of st) bs (root_directory_offset st)"
    and "fpos (in_file st) = nat (root_directory_offset st) + 32 * i"
    and "list_all2 (entry_node (prints (img_of st) pt bs))
      (filter used (slots (img_of st) (nat (root_directory_offset st) + 32 * i) n)) ns"
  shows "\<exists>k. print_tree_at pt bs (Root_loop 0 i e) st = ret (at_pos k (puts (render_all 0 ns) st))"
  using assms
proof (induction n arbitrary: i e st ns)
  case 0
  have "\<not> i < unat (root_dir_entries bs)" "ns = []" using 0(1,2,6) by simp_all
  then show ?case by (intro exI [of _ "fpos (in_file st)"]) (simp add: print_tree_at.simps)
next
  case (Suc n)
  let ?off = "nat (root_directory_offset st)"
  let ?e = "bytes_at (img_of st) (?off + 32 * i) 32"
  have i: "i < unat (root_dir_entries bs)" "n = unat (root_dir_entries bs) - Suc i" using Suc.prems(1) by auto
  note o = in_imageD [OF Suc.prems(4) [unfolded root_on_disk_def]]
  have len: "?off + 32 * i + 32 \<le> length (img_of st)" using o i(1) by linarith
  then have rd: "read_bytes 32 e st = (?e, at_pos (?off + 32 * Suc i) st)"
    using Suc.prems(3,5) by (simp add: read_bytes_full add.commute)
  have sl: "slots (img_of st) (?off + 32 * i) (Suc n) = ?e # slots (img_of st) (?off + 32 * Suc i) n"
    by (simp add: slots_Suc add.commute add.left_commute)
  define m where "m = hd ns"
  define ms where "ms = (if used ?e then tl ns else ns)"
  have ns: "used ?e \<Longrightarrow> entry_node (prints (img_of st) pt bs) ?e m"
    "list_all2 (entry_node (prints (img_of st) pt bs))
      (filter used (slots (img_of st) (?off + 32 * Suc i) n)) ms"
    "render_all 0 ns = (if used ?e then render 0 m else []) @ render_all 0 ms"
    using Suc.prems(6) by (auto simp: sl list_all2_Cons1 m_def ms_def)
  let ?st = "at_pos (?off + 32 * Suc i) (puts (if used ?e then render 0 m else []) st)"
  have "print_tree_at pt bs (Root_loop 0 i e) st = print_tree_at pt bs (Root_loop 0 (Suc i) ?e) ?st"
    by (rule root_entry_step [OF ns(1) i(1) rd refl conjunct1 [OF o]])
  moreover have "\<exists>k. print_tree_at pt bs (Root_loop 0 (Suc i) ?e) ?st = ret (at_pos k (puts (render_all 0 ms) ?st))"
    by (rule Suc.IH) (use Suc.prems i len ns(2) in simp_all)
  ultimately show ?case by (auto simp: ns(3))
qed

text \<open>
  Claim C13. \<open>tree\<close> is right on a disk that holds a tree: if the root and every directory
  below it lie on the disk and no directory but its own and the root is reached again,
  \<open>print_tree\<close> returns and has printed \<open>/root\<close> and then each name one level deeper than its
  directory, in the order of the disk, every directory followed by its contents. Nothing else
  changes but the position in the file.
\<close>

theorem print_tree_renders:
  assumes "root_tree (img_of st) first pt bs (root_directory_offset st) ns"
    and "first_data_sector pt bs = ret first"
  shows "\<exists>k. print_tree pt bs st = ret (at_pos k (puts (''/root'' @ newline @ render_all 0 ns) st))"
proof -
  have r: "root_on_disk (img_of st) bs (root_directory_offset st)"
    and l: "list_all2 (entry_node (dir_tree (img_of st) first pt bs))
      (filter used (root_entries (img_of st) bs (root_directory_offset st))) ns"
    using assms(1) by (simp_all add: root_tree_def)
  have l2: "list_all2 (entry_node (prints (img_of st) pt bs))
      (filter used (root_entries (img_of st) bs (root_directory_offset st))) ns"
    using l
  proof (rule list_all2_mono)
    fix e n assume "entry_node (dir_tree (img_of st) first pt bs) e n"
    then show "entry_node (prints (img_of st) pt bs) e n"
      using dir_tree_prints [OF _ assms(2)] by (fastforce simp: entry_node_def)
  qed
  have off: "0 \<le> root_directory_offset st" using r by (simp add: root_on_disk_def in_image_def)
  define title where "title = ''/root'' @ newline"
  define st1 where "st1 = at_pos (nat (root_directory_offset st)) (puts title st)"
  have s: "puts title (seek (root_directory_offset st) st) = st1"
    using off by (simp add: seek_nonneg st1_def)
  have "\<exists>k. print_tree_at pt bs (Root_loop 0 0 (automatic 32 st)) st1 = ret (at_pos k (puts (render_all 0 ns) st1))"
    by (rule root_loop_prints [of "unat (root_dir_entries bs)"])
      (use r l2 in \<open>simp_all add: st1_def root_entries_def\<close>)
  then obtain k where "print_tree_at pt bs (Root_loop 0 0 (automatic 32 st)) st1 =
      ret (at_pos k (puts (title @ render_all 0 ns) st))"
    by (auto simp: st1_def)
  moreover have "print_tree pt bs st = print_tree_at pt bs (Root_loop 0 0 (automatic 32 st))
      (puts title (seek (root_directory_offset st) st))"
    unfolding print_tree_def by (subst print_tree_at.simps) (simp add: title_def)
  ultimately have "print_tree pt bs st = ret (at_pos k (puts (title @ render_all 0 ns) st))"
    by (simp only: s)
  then show ?thesis by (auto simp: title_def)
qed

section \<open>print\_tree on a nested directory\<close>

text \<open>
  The directory with starting cluster \<open>d\<close> lies on the disk and \<open>print_tree\<close> descends from it
  into the one with starting cluster \<open>x\<close>.
\<close>

definition descends ::
  "byte list \<Rightarrow> int \<Rightarrow> PartitionTable list \<Rightarrow> Fat16BootSector \<Rightarrow> int \<Rightarrow> int \<Rightarrow> bool" where
  "descends img first pt bs d x \<longleftrightarrow>
     (\<exists>cs e. chain_on_disk img first pt bs d cs \<and> e \<in> set (dir_entries img first bs cs) \<and>
        shown d e \<and> is_dir e \<and> cluster_of e = x)"

text \<open>The points of a run that has an entry before it that leads into a directory of \<open>D\<close>.\<close>

definition leads_into :: "int set \<Rightarrow> int \<Rightarrow> byte list list \<Rightarrow> bool" where
  "leads_into D d es \<longleftrightarrow> (\<exists>e\<in>set es. shown d e \<and> is_dir e \<and> cluster_of e \<in> D)"

fun stuck ::
  "byte list \<Rightarrow> int \<Rightarrow> PartitionTable list \<Rightarrow> Fat16BootSector \<Rightarrow> int set \<Rightarrow> tree_point \<Rightarrow> fat \<Rightarrow> bool" where
  "stuck img first pt bs D (Print_tree (Some d) depth) st \<longleftrightarrow> d \<in> D"
| "stuck img first pt bs D (Print_tree None depth) st \<longleftrightarrow>
     root_on_disk img bs (root_directory_offset st) \<and>
     (\<exists>e\<in>set (root_entries img bs (root_directory_offset st)). used e \<and> is_dir e \<and> cluster_of e \<in> D)"
| "stuck img first pt bs D (Root_loop depth i e) st \<longleftrightarrow>
     length e = 32 \<and> root_on_disk img bs (root_directory_offset st) \<and>
     fpos (in_file st) = nat (root_directory_offset st) + 32 * i \<and>
     (\<exists>e\<in>set (slots img (nat (root_directory_offset st) + 32 * i) (unat (root_dir_entries bs) - i)).
        used e \<and> is_dir e \<and> cluster_of e \<in> D)"
| "stuck img first pt bs D (Cluster_loop d depth c e) st \<longleftrightarrow>
     length e = 32 \<and> (\<exists>cs. chain_on_disk img first pt bs c cs \<and> leads_into D d (dir_entries img first bs cs))"
| "stuck img first pt bs D (Entry_loop d depth c i e) st \<longleftrightarrow>
     length e = 32 \<and> i \<le> entries_per_cluster bs \<and>
     in_image img (cluster_offset first bs c) (32 * int (entries_per_cluster bs)) \<and>
     fpos (in_file st) = nat (cluster_offset first bs c) + 32 * i \<and>
     (\<exists>cs. chain_on_disk img first pt bs c (c # cs) \<and>
        leads_into D d (slots img (nat (cluster_offset first bs c) + 32 * i) (entries_per_cluster bs - i) @
                        dir_entries img first bs cs))"

lemma leads_into_simps [simp]:
  "leads_into D d (e # es) \<longleftrightarrow> (shown d e \<and> is_dir e \<and> cluster_of e \<in> D) \<or> leads_into D d es"
  "\<not> leads_into D d []"
  by (auto simp: leads_into_def)

text \<open>
  A run that returns, returns normally, leaves the image and the place of the root alone, and
  has not started at a stuck point: by induction on the run.
\<close>

definition ends_well ::
  "byte list \<Rightarrow> int \<Rightarrow> PartitionTable list \<Rightarrow> Fat16BootSector \<Rightarrow> int set \<Rightarrow> tree_point \<Rightarrow> fat \<Rightarrow> fault + fat \<Rightarrow> bool" where
  "ends_well img first pt bs D p st r \<longleftrightarrow>
     (\<exists>st'. r = Inr st' \<and> img_of st' = img_of st \<and> root_directory_offset st' = root_directory_offset st) \<and>
     (img_of st = img \<longrightarrow> \<not> stuck img first pt bs D p st)"

lemma seek_root [simp]: "root_directory_offset (seek off st) = root_directory_offset st"
  by (simp add: seek_def)

lemma read_root [simp]: "root_directory_offset (snd (read_bytes n old st)) = root_directory_offset st"
  by (simp add: read_bytes_def case_prod_beta)

lemma next_root [simp]: "root_directory_offset (snd (next_of pt bs c st)) = root_directory_offset st"
  using next_of_pos [of pt bs c st] by auto

lemma ends_well_step:
  assumes "ends_well img first pt bs D p' st2 r"
    and "img_of st2 = img_of st" "root_directory_offset st2 = root_directory_offset st"
    and "img_of st = img \<Longrightarrow> stuck img first pt bs D p st \<Longrightarrow> stuck img first pt bs D p' st2"
  shows "ends_well img first pt bs D p st r"
  using assms by (auto simp: ends_well_def)

lemma root_slots:
  assumes "i < n" "in_image img off (32 * int n)" "fpos (in_file st) = nat off + 32 * i" "img_of st = img" "length e0 = 32"
  shows "slots img (nat off + 32 * i) (n - i) =
      fst (read_bytes 32 e0 st) # slots img (nat off + 32 * Suc i) (n - Suc i)"
    "fpos (in_file (snd (read_bytes 32 e0 st))) = nat off + 32 * Suc i"
proof -
  have "nat off + 32 * i + 32 \<le> length img" using in_imageD [OF assms(2)] assms(1) by linarith
  then have r: "read_bytes 32 e0 st = (bytes_at img (nat off + 32 * i) 32, at_pos (nat off + 32 * i + 32) st)"
    using assms(3-5) by (simp add: read_bytes_full)
  have "n - i = Suc (n - Suc i)" using assms(1) by simp
  then show "slots img (nat off + 32 * i) (n - i) =
      fst (read_bytes 32 e0 st) # slots img (nat off + 32 * Suc i) (n - Suc i)"
    by (simp add: r slots_Suc add.commute add.left_commute)
  show "fpos (in_file (snd (read_bytes 32 e0 st))) = nat off + 32 * Suc i" by (simp add: r)
qed

lemma stuck_root_step:
  assumes "stuck img first pt bs D (Root_loop depth i e0) st" "img_of st = img"
    and rd: "read_bytes 32 e0 st = (e, st1)"
  shows "i < unat (root_dir_entries bs)"
    "(used e \<and> is_dir e \<and> cluster_of e \<in> D) \<or> stuck img first pt bs D (Root_loop depth (Suc i) e) st1"
    "root_on_disk img bs (root_directory_offset st)"
proof -
  show i: "i < unat (root_dir_entries bs)" and r: "root_on_disk img bs (root_directory_offset st)"
    using assms(1) by (auto intro: ccontr)
  have "length e = 32" using assms(1) rd length_read [of e0 32 st] by auto
  moreover have "root_directory_offset st1 = root_directory_offset st" using rd read_root [of 32 e0 st] by simp
  ultimately show "(used e \<and> is_dir e \<and> cluster_of e \<in> D) \<or> stuck img first pt bs D (Root_loop depth (Suc i) e) st1"
    using root_slots [OF i r [unfolded root_on_disk_def] _ assms(2), of e0] assms(1) rd r by auto
qed

lemma root_loop_ends_well:
  assumes IH: "\<And>p st r. f p st = Some r \<Longrightarrow> ends_well img first pt bs D p st r"
    and eq: "(if i < unat (root_dir_entries bs) then
            let (e, st1) = read_bytes 32 e0 st in
            if used e then
              let st2 = puts (name_line e) st1 in
              if is_dir e
              then res_bind (f (Print_tree (Some (cluster_of e)) (Suc depth)) st2)
                     (\<lambda>st3. f (Root_loop depth (Suc i) e) (seek (root_directory_offset st3 + (int i + 1) * 32) st3))
              else f (Root_loop depth (Suc i) e) st2
            else f (Root_loop depth (Suc i) e) st1
          else ret st) = Some r"
  shows "ends_well img first pt bs D (Root_loop depth i e0) st r"
proof (cases "i < unat (root_dir_entries bs)")
  case False
  then show ?thesis using eq stuck_root_step(1) [of img first pt bs D depth i e0 st]
    by (cases "read_bytes 32 e0 st") (auto simp: ends_well_def ret_def simp del: stuck.simps)
next
  case i: True
  obtain e st1 where rd: "read_bytes 32 e0 st = (e, st1)" by fastforce
  have st1: "img_of st1 = img_of st" "root_directory_offset st1 = root_directory_offset st"
    using rd image_read [of 32 e0 st] read_root [of 32 e0 st] by auto
  note step = stuck_root_step [OF _ _ rd, of img first pt bs D depth i]
  show ?thesis
  proof (cases "used e \<and> is_dir e")
    case False
    show ?thesis
    proof (rule ends_well_step [where ?st2.0 = "if used e then puts (name_line e) st1 else st1"])
      show "ends_well img first pt bs D (Root_loop depth (Suc i) e) (if used e then puts (name_line e) st1 else st1) r"
        using eq i rd False by (intro IH) (auto split: if_splits)
      show "stuck img first pt bs D (Root_loop depth (Suc i) e) (if used e then puts (name_line e) st1 else st1)"
        if "img_of st = img" "stuck img first pt bs D (Root_loop depth i e0) st"
        using step(2) [OF that(2,1)] False by auto
    qed (simp_all add: st1)
  next
    case True
    let ?call = "f (Print_tree (Some (cluster_of e)) (Suc depth)) (puts (name_line e) st1)"
    have run: "res_bind ?call (\<lambda>st3. f (Root_loop depth (Suc i) e) (seek (root_directory_offset st3 + (int i + 1) * 32) st3)) = Some r"
      using eq i rd True by simp
    then obtain q where q: "?call = Some q" by (cases ?call) auto
    from IH [OF q] obtain st3 where st3: "q = Inr st3" "img_of st3 = img_of st"
      "root_directory_offset st3 = root_directory_offset st" "img_of st = img \<Longrightarrow> cluster_of e \<notin> D"
      by (auto simp: ends_well_def st1)
    show ?thesis
    proof (rule ends_well_step)
      show "ends_well img first pt bs D (Root_loop depth (Suc i) e)
          (seek (root_directory_offset st3 + (int i + 1) * 32) st3) r"
        using run q st3(1) by (intro IH) (simp add: res_bind_def)
      show "stuck img first pt bs D (Root_loop depth (Suc i) e) (seek (root_directory_offset st3 + (int i + 1) * 32) st3)"
        if "img_of st = img" "stuck img first pt bs D (Root_loop depth i e0) st"
      proof -
        have "stuck img first pt bs D (Root_loop depth (Suc i) e) st1"
          using step(2) [OF that(2,1)] st3(4) [OF that(1)] by blast
        moreover have "0 \<le> root_directory_offset st"
          using step(3) [OF that(2,1)] by (simp add: root_on_disk_def in_image_def)
        ultimately show ?thesis using st3(3) st1 by (simp add: seek_nonneg nat_add_distrib nat_mult_distrib)
      qed
    qed (simp_all add: st3)
  qed
qed

lemma stuck_entry_step:
  assumes "stuck img first pt bs D (Entry_loop d depth c i e0) st" "img_of st = img"
    and i: "i < entries_per_cluster bs" and rd: "read_bytes 32 e0 st = (e, st1)"
  shows "(shown d e \<and> is_dir e \<and> cluster_of e \<in> D) \<or> stuck img first pt bs D (Entry_loop d depth c (Suc i) e) st1"
    "0 \<le> cluster_offset first bs c"
proof -
  have r: "in_image img (cluster_offset first bs c) (32 * int (entries_per_cluster bs))"
    and "fpos (in_file st) = nat (cluster_offset first bs c) + 32 * i" "length e0 = 32"
    using assms(1) by auto
  note s = root_slots [OF i r this(2) assms(2) this(3)]
  have "length e = 32" using assms(1) rd length_read [of e0 32 st] by auto
  then show "(shown d e \<and> is_dir e \<and> cluster_of e \<in> D) \<or> stuck img first pt bs D (Entry_loop d depth c (Suc i) e) st1"
    using assms(1) rd i r s by auto
  show "0 \<le> cluster_offset first bs c" using r by (simp add: in_image_def)
qed

lemma entry_loop_ends_well:
  assumes IH: "\<And>p st r. f p st = Some r \<Longrightarrow> ends_well img first pt bs D p st r"
    and first: "first_data_sector pt bs = ret first"
    and eq: "(if i < entries_per_cluster bs then
            let (e, st1) = read_bytes 32 e0 st in
            if used e \<and> cluster_of e \<noteq> d then
              if is_dir e \<and> cluster_of e = 0
              then f (Entry_loop d depth c (Suc i) e) st1
              else
                let st2 = puts (indent depth @ name_line e) st1 in
                if is_dir e \<and> cluster_of e \<noteq> 0
                then res_bind (f (Print_tree (Some (cluster_of e)) (Suc depth)) st2)
                       (\<lambda>st3. res_bind (first_data_sector pt bs)
                         (\<lambda>first. f (Entry_loop d depth c (Suc i) e)
                                    (seek (cluster_offset first bs c + (int i + 1) * 32) st3)))
                else f (Entry_loop d depth c (Suc i) e) st2
            else f (Entry_loop d depth c (Suc i) e) st1
          else
            let (c', st1) = next_of pt bs c st
            in f (Cluster_loop d depth c' e0) st1) = Some r"
  shows "ends_well img first pt bs D (Entry_loop d depth c i e0) st r"
proof (cases "i < entries_per_cluster bs")
  case False
  obtain c' st1 where nx: "next_of pt bs c st = (c', st1)" by fastforce
  then have 1: "f (Cluster_loop d depth c' e0) st1 = Some r" using eq False by simp
  show ?thesis
  proof (rule ends_well_step [OF IH [OF 1]])
    assume img: "img_of st = img" and "stuck img first pt bs D (Entry_loop d depth c i e0) st"
    then obtain cs where cs: "length e0 = 32" "chain_on_disk img first pt bs c (c # cs)"
      "leads_into D d (dir_entries img first bs cs)" using False by auto
    then have "c' = fat_table img pt bs c" using nx next_of_full [of st pt bs c] img by (auto simp: chain_on_disk_def)
    then show "stuck img first pt bs D (Cluster_loop d depth c' e0) st1"
      using cs by (auto simp: chain_on_disk_def)
  qed (use nx image_next [of pt bs c st] next_root [of pt bs c st] in simp_all)
next
  case i: True
  obtain e st1 where rd: "read_bytes 32 e0 st = (e, st1)" by fastforce
  have st1: "img_of st1 = img_of st" "root_directory_offset st1 = root_directory_offset st"
    using rd image_read [of 32 e0 st] read_root [of 32 e0 st] by auto
  note step = stuck_entry_step [OF _ _ i rd, of img first pt D d depth c]
  show ?thesis
  proof (cases "shown d e \<and> is_dir e")
    case False
    let ?st2 = "if shown d e then puts (indent depth @ name_line e) st1 else st1"
    show ?thesis
    proof (rule ends_well_step [where ?st2.0 = ?st2])
      show "ends_well img first pt bs D (Entry_loop d depth c (Suc i) e) ?st2 r"
        using eq i rd False by (intro IH) (auto simp: shown_def Let_def split: if_splits)
      show "stuck img first pt bs D (Entry_loop d depth c (Suc i) e) ?st2"
        if "img_of st = img" "stuck img first pt bs D (Entry_loop d depth c i e0) st"
        using step(1) [OF that(2,1)] False by auto
    qed (simp_all add: st1)
  next
    case True
    let ?call = "f (Print_tree (Some (cluster_of e)) (Suc depth)) (puts (indent depth @ name_line e) st1)"
    have run: "res_bind ?call (\<lambda>st3. f (Entry_loop d depth c (Suc i) e)
        (seek (cluster_offset first bs c + (int i + 1) * 32) st3)) = Some r"
      using eq i rd True first by (auto simp: shown_def Let_def split: if_splits)
    then obtain q where q: "?call = Some q" by (cases ?call) auto
    from IH [OF q] obtain st3 where st3: "q = Inr st3" "img_of st3 = img_of st"
      "root_directory_offset st3 = root_directory_offset st" "img_of st = img \<Longrightarrow> cluster_of e \<notin> D"
      by (auto simp: ends_well_def st1)
    show ?thesis
    proof (rule ends_well_step)
      show "ends_well img first pt bs D (Entry_loop d depth c (Suc i) e)
          (seek (cluster_offset first bs c + (int i + 1) * 32) st3) r"
        using run q st3(1) by (intro IH) (simp add: res_bind_def)
      show "stuck img first pt bs D (Entry_loop d depth c (Suc i) e) (seek (cluster_offset first bs c + (int i + 1) * 32) st3)"
        if "img_of st = img" "stuck img first pt bs D (Entry_loop d depth c i e0) st"
      proof -
        have "stuck img first pt bs D (Entry_loop d depth c (Suc i) e) st1"
          using step(1) [OF that(2,1)] st3(4) [OF that(1)] by blast
        then show ?thesis
          using step(2) [OF that(2,1)] by (simp add: seek_nonneg nat_add_distrib nat_mult_distrib)
      qed
    qed (simp_all add: st3)
  qed
qed

lemma cluster_loop_ends_well:
  assumes IH: "\<And>p st r. f p st = Some r \<Longrightarrow> ends_well img first pt bs D p st r"
    and first: "first_data_sector pt bs = ret first"
    and eq: "(if is_end_of_chain c then ret st
          else res_bind (first_data_sector pt bs)
                 (\<lambda>first. f (Entry_loop d depth c 0 e) (seek (cluster_offset first bs c) st))) = Some r"
  shows "ends_well img first pt bs D (Cluster_loop d depth c e) st r"
proof (cases "is_end_of_chain c")
  case True
  then have nil: "chain_on_disk image first pt bs c cs \<Longrightarrow> cs = []" for image cs
    by (cases cs) (auto simp: chain_on_disk_def)
  show ?thesis using eq True by (auto simp: ends_well_def ret_def dir_entries_def dest!: nil)
next
  case False
  show ?thesis
  proof (rule ends_well_step)
    show "ends_well img first pt bs D (Entry_loop d depth c 0 e) (seek (cluster_offset first bs c) st) r"
      using eq False first by (intro IH) simp
    assume "img_of st = img" "stuck img first pt bs D (Cluster_loop d depth c e) st"
    then obtain xs where xs: "length e = 32" "chain_on_disk img first pt bs c xs"
      "leads_into D d (dir_entries img first bs xs)" by auto
    moreover obtain cs where "xs = c # cs"
      using xs(2) False by (cases xs) (auto simp: chain_on_disk_def)
    ultimately have cs: "length e = 32" "chain_on_disk img first pt bs c (c # cs)"
      "leads_into D d (dir_entries img first bs (c # cs))" by simp_all
    then show "stuck img first pt bs D (Entry_loop d depth c 0 e) (seek (cluster_offset first bs c) st)"
      by (auto simp: chain_on_disk_def dir_entries_def seek_nonneg dest: in_imageD)
  qed simp_all
qed

lemma print_tree_at_ends_well:
  assumes run: "print_tree_at pt bs p st = Some r" and first: "first_data_sector pt bs = ret first"
    and D: "\<And>d. d \<in> D \<Longrightarrow> \<exists>x\<in>D. descends img first pt bs d x"
  shows "ends_well img first pt bs D p st r"
proof -
  have "pt = pt \<longrightarrow> bs = bs \<longrightarrow> ends_well img first pt bs D p st r"
  proof (rule print_tree_at.raw_induct [where P = "\<lambda>pt' bs' p st r. pt' = pt \<longrightarrow> bs' = bs \<longrightarrow>
        ends_well img first pt bs D p st r", OF _ run], intro impI, goal_cases)
    case (1 f pt' bs' p st r)
    then have IH: "\<And>p st r. f pt bs p st = Some r \<Longrightarrow> ends_well img first pt bs D p st r" by blast
    note eq' = 1(2) [unfolded 1(3,4)]
    show "ends_well img first pt bs D p st r"
    proof (cases p)
      case (Print_tree directory depth)
      show ?thesis
      proof (cases directory)
        case None
        have "f pt bs (Root_loop depth 0 (automatic 32 st))
            (puts (''/root'' @ newline) (seek (root_directory_offset st) st)) = Some r"
          using eq' None by (simp add: Print_tree)
        from IH [OF this] show ?thesis
          by (rule ends_well_step) (auto simp: Print_tree None root_on_disk_def root_entries_def seek_nonneg in_image_def)
      next
        case (Some d)
        have "f pt bs (Cluster_loop d depth d (automatic 32 st)) st = Some r"
          using eq' Some first by (simp add: Print_tree)
        from IH [OF this] show ?thesis
          by (rule ends_well_step) (use D [of d] in \<open>auto simp: Print_tree Some descends_def leads_into_def\<close>)
      qed
    next
      case (Root_loop depth i e)
      show ?thesis unfolding Root_loop
        by (rule root_loop_ends_well [OF IH]) (use eq' in \<open>simp_all add: Root_loop\<close>)
    next
      case (Cluster_loop d depth c e)
      show ?thesis unfolding Cluster_loop
        by (rule cluster_loop_ends_well [OF IH first]) (use eq' in \<open>simp_all add: Cluster_loop\<close>)
    next
      case (Entry_loop d depth c i e)
      show ?thesis unfolding Entry_loop
        by (rule entry_loop_ends_well [OF IH first]) (use eq' in \<open>simp_all add: Entry_loop\<close>)
    qed
  qed
  then show ?thesis by simp
qed

text \<open>
  Claim C39. \<open>tree\<close>, which the shell also runs when it starts, does not return on an
  ordinary disk with a directory inside a directory of the root: the parent entry of the inner
  directory leads back to the outer one, which is not the root, and \<open>print_tree\<close> descends
  into it again. It leaves out an entry for the directory itself and one for the root, but
  not this one.
\<close>

theorem print_tree_never_returns:
  assumes "root_on_disk (img_of st) bs (root_directory_offset st)" "first_data_sector pt bs = ret first"
    and "e \<in> set (root_entries (img_of st) bs (root_directory_offset st))" "used e" "is_dir e" "cluster_of e = outer"
    and "descends (img_of st) first pt bs outer inner" "descends (img_of st) first pt bs inner outer"
  shows "print_tree pt bs st = None"
proof (rule ccontr)
  assume "print_tree pt bs st \<noteq> None"
  then obtain r where "print_tree_at pt bs (Print_tree None 0) st = Some r" by (auto simp: print_tree_def)
  then have "ends_well (img_of st) first pt bs {outer, inner} (Print_tree None 0) st r"
    by (rule print_tree_at_ends_well [OF _ assms(2)]) (use assms(7,8) in auto)
  then show False using assms by (auto simp: ends_well_def)
qed

end
