(* ===== verification/Fat_Shell.thy ===== *)
theory Fat_Shell
  imports Fat_Read Fat_Tree
begin

text \<open>
  The shell of \<open>fat/fat.c\<close>: \<open>run\<close>, which reads commands from standard input, and \<open>main\<close>,
  which finds the file system on the image. Standard input is the string that is left of it.
  A line of \<open>getline\<close> is the bytes up to and with the newline and a zero byte behind; an
  access behind that byte faults, and so does the use of the line after \<open>getline\<close> has failed
  at the end of the input, since the code does not look at its result.
\<close>

section \<open>run\<close>

definition prompt :: "fat \<Rightarrow> string" where
  "prompt st = esc ''32'' @ ''fat'' @ esc ''0'' @ '':'' @ esc ''32'' @ current_directory st @ esc ''0'' @ ''$ ''"

text \<open>\<open>getline\<close>: the buffer and the rest of the input.\<close>

definition getline :: "string \<Rightarrow> (string \<times> string) res" where
  "getline inp =
     (if inp = [] then fail UninitRead
      else let text = takeWhile (\<lambda>c. c \<noteq> CHR 0x0A) inp; rest = dropWhile (\<lambda>c. c \<noteq> CHR 0x0A) inp
           in ret (text @ take 1 rest @ [NUL], drop 1 rest))"

text \<open>\<open>cmd[strcspn(cmd, newline)] = 0\<close>\<close>

definition chomp :: "string \<Rightarrow> string" where
  "chomp buf = buf[length (takeWhile (\<lambda>c. c \<noteq> CHR 0x0A \<and> c \<noteq> NUL) buf) := NUL]"

text \<open>The C string at \<open>cmd + n\<close>.\<close>

definition cmd_at :: "nat \<Rightarrow> string \<Rightarrow> string res" where
  "cmd_at n buf = (if n < length buf then ret (cstr (drop n buf)) else fail UninitRead)"

definition help_text :: string where
  "help_text =
     ''Available commands:'' @ newline @
     [CHR 0x09] @ ''help - show this help'' @ newline @
     [CHR 0x09] @ ''info - show partition table and root directory'' @ newline @
     [CHR 0x09] @ ''ls - list files in current directory'' @ newline @
     [CHR 0x09] @ ''read <filename_on_FAT> - read file from root directory'' @ newline @
     [CHR 0x09] @ ''cd <directory> - change directory'' @ newline @
     [CHR 0x09] @ ''tree - show directory tree'' @ newline @
     [CHR 0x09] @ ''delete <filename_on_FAT> - delete file (not implemented)'' @ newline @
     [CHR 0x09] @ ''exit - exit the program'' @ newline"

text \<open>The branches of the loop but \<open>exit\<close>; \<open>main\<close> has opened the image.\<close>

definition command :: "PartitionTable list \<Rightarrow> Fat16BootSector \<Rightarrow> string \<Rightarrow> fat \<Rightarrow> fat res" where
  "command pt bs buf st =
     (let cmd = cstr buf in
      if cmd = ''info'' then ret (print_info pt bs st)
      else if cmd = ''ls'' then list_files True pt bs st
      else if take 4 cmd = ''read''
      then res_bind (cmd_at 5 buf) (\<lambda>arg.
             if length arg = 0 then ret (puts (''Filename is empty'' @ newline) st)
             else read_file (Some arg) pt bs st)
      else if take 2 cmd = ''cd''
      then res_bind (cmd_at 3 buf) (\<lambda>arg.
             if length arg = 0 then ret (puts (''Directory name is empty'' @ newline) st)
             else change_directory (Some arg) pt bs st)
      else if cmd = ''tree'' then print_tree pt bs st
      else if cmd = ''help'' then ret (puts help_text st)
      else ret st)"

lemma getline_shorter: "getline inp = ret (line, rest) \<Longrightarrow> length rest < length inp"
proof -
  assume g: "getline inp = ret (line, rest)"
  then have "inp \<noteq> []" "rest = drop 1 (dropWhile (\<lambda>c. c \<noteq> CHR 0x0A) inp)"
    by (auto simp: getline_def Let_def split: if_splits)
  then show ?thesis using length_dropWhile_le [of "\<lambda>c. c \<noteq> CHR 0x0A" inp] by (cases inp) auto
qed

function run_loop :: "PartitionTable list \<Rightarrow> Fat16BootSector \<Rightarrow> string \<Rightarrow> fat \<Rightarrow> (int \<times> fat) res" where
  "run_loop pt bs inp st =
     (let st1 = puts (prompt st) st in
      res_bind (getline inp) (\<lambda>(line, rest).
        let buf = chomp line in
        if cstr buf = ''exit'' then ret (0, st1)
        else res_bind (command pt bs buf st1) (\<lambda>st2. run_loop pt bs rest st2)))"
  by pat_completeness auto

termination
  by (relation "measure (\<lambda>(pt, bs, inp, st). length inp)") (auto dest: getline_shorter)

declare run_loop.simps [simp del]

definition run :: "PartitionTable list \<Rightarrow> Fat16BootSector \<Rightarrow> string \<Rightarrow> fat \<Rightarrow> (int \<times> fat) res" where
  "run pt bs inp st = run_loop pt bs inp (seek (root_directory_offset st) st)"

section \<open>main\<close>

text \<open>\<open>write\<close> and \<open>delete\<close> have empty bodies.\<close>

definition write_image :: "fat \<Rightarrow> fat" where
  "write_image st = st"

definition delete_file :: "fat \<Rightarrow> fat" where
  "delete_file st = st"

text \<open>The globals before \<open>main\<close>; \<open>junk\<close> is what automatic variables hold.\<close>

definition zero_fat :: "byte list \<Rightarrow> (nat \<Rightarrow> byte) \<Rightarrow> fat" where
  "zero_fat img junk =
     \<lparr>in_file = \<lparr>fdata = img, fpos = 0\<rparr>, current_directory_entry = replicate 32 0,
      current_directory = ''/root'', current_directory_offset = 0, root_directory_offset = 0,
      out = [], err = [], uninit = junk\<rparr>"

text \<open>Finding the partition table, the boot sector and the root directory.\<close>

definition read_partitions :: "fat \<Rightarrow> PartitionTable list \<times> fat" where
  "read_partitions st =
     (let (b, st1) = read_bytes 64 (automatic 64 st) (seek 0x1BE st)
      in (map (\<lambda>i. partition_of (bytes_at b (16 * i) 16)) [0..<4], st1))"

definition read_boot_sector :: "PartitionTable list \<Rightarrow> fat \<Rightarrow> Fat16BootSector \<times> fat" where
  "read_boot_sector pt st =
     (let (b, st1) = read_bytes 512 (automatic 512 st) (seek (u32_of (512 * uint (start_sector (pt ! 0)))) st)
      in (boot_of b, st1))"

definition find_root :: "Fat16BootSector \<Rightarrow> fat \<Rightarrow> fat" where
  "find_root bs st =
     (let f = fseek_cur (i32 ((uint (reserved_sectors bs) - 1 +
                uint (fat_size_sectors bs) * uint (number_of_fats bs)) * uint (sector_size bs))) (in_file st);
          off = i32 (int (fpos f))
      in st\<lparr>in_file := f, current_directory_offset := off, root_directory_offset := off\<rparr>)"

text \<open>
  \<open>args\<close> are the arguments after the program name. The image is \<open>None\<close> if \<open>fopen\<close> fails.
\<close>

definition main :: "string list \<Rightarrow> byte list option \<Rightarrow> (nat \<Rightarrow> byte) \<Rightarrow> string \<Rightarrow> (int \<times> fat) res" where
  "main args disk junk inp =
     (if args \<noteq> [] then
        if \<exists>a\<in>set args. a = ''-w'' \<or> a = ''--write''
        then ret (0, write_image (puts (''Writing to FAT16'' @ newline) (zero_fat [] junk)))
        else ret (1, zero_fat [] junk)
      else case disk of
        None \<Rightarrow> fail NullDeref
      | Some img \<Rightarrow>
          let (pt, st1) = read_partitions (zero_fat img junk);
              (bs, st2) = read_boot_sector pt st1;
              st3 = find_root bs st2
          in res_bind (print_tree pt bs st3) (\<lambda>st4. run pt bs inp st4))"

section \<open>What a session changes\<close>

text \<open>
  \<open>session st st'\<close>: between the two states the image, the position of the root directory and
  the junk are the same, output is only appended, and the path still fits its buffer.
\<close>

definition session :: "fat \<Rightarrow> fat \<Rightarrow> bool" where
  "session st st' \<longleftrightarrow>
     img_of st' = img_of st \<and> root_directory_offset st' = root_directory_offset st \<and>
     uninit st' = uninit st \<and> (\<exists>s. out st' = out st @ s) \<and> (\<exists>b. err st' = err st @ b) \<and>
     (length (current_directory st) < 1024 \<longrightarrow> length (current_directory st') < 1024)"

lemma session_refl [simp, intro]: "session st st"
  by (simp add: session_def)

lemma session_trans: "session st st1 \<Longrightarrow> session st1 st2 \<Longrightarrow> session st st2"
  by (auto simp: session_def)

lemma session_simps [simp]:
  "session st (at_pos k st') = session st st'"
  "session st st' \<Longrightarrow> session st (puts s st')"
  "session st st' \<Longrightarrow> session st (put_bytes b st')"
  by (auto simp: session_def puts_def put_bytes_def)

lemma session_seek [simp]: "session st (seek off st') = session st st'"
  using seek_pos [of off st'] by auto

lemma session_read [simp]: "session st (snd (read_bytes n old st')) = session st st'"
  using read_bytes_pos [of n old st'] by auto

lemma session_next [simp]: "session st (snd (next_of pt bs c st')) = session st st'"
  using next_of_pos [of pt bs c st'] by auto

lemma session_next_with [simp]: "session st (snd (snd (next_with pt bs c est))) = session st (snd est)"
  by (simp add: next_with_def case_prod_beta)

lemma session_for_entries: "session st (snd est) \<Longrightarrow> session st (snd (for_entries n print_used est))"
proof (induction n arbitrary: est)
  case (Suc n)
  then show ?case by (auto simp: case_prod_beta print_used_def print_entry_def intro!: Suc.IH)
qed simp

lemma session_find: "find_entry n test est = ret (b, e', st') \<Longrightarrow> session st (snd est) \<Longrightarrow> session st st'"
  using find_entry_pos [of n test est b e' st'] by auto

lemma length_right_including: "length (remove_right_including s t) \<le> length s"
  using length_dropWhile_le [of "\<lambda>c. c \<noteq> t" "rev s"] by (auto simp: remove_right_including_def)

lemma length_append_component: "length p < 1024 \<Longrightarrow> length (append_component p d) < 1024"
  by (auto simp: append_component_def)

lemma session_enter [simp]:
  "session st st' \<Longrightarrow> session st (enter_from_root nd bs e st')"
  "session st st' \<Longrightarrow> session st (enter_from_sub nd bs e st')"
proof -
  assume s: "session st st'"
  then show "session st (enter_from_root nd bs e st')"
    by (auto simp: session_def enter_from_root_def length_append_component)
  show "session st (enter_from_sub nd bs e st')"
    using s length_right_including [of "current_directory st'" "CHR ''/''"]
    by (auto simp: session_def enter_from_sub_def Let_def)
qed

text \<open>The loop over the clusters of a directory.\<close>

lemma session_while:
  assumes "while_chain (next_with pt bs) body c est = ret (b, est')" "session st (snd est)"
    and "\<And>c est b est'. session st (snd est) \<Longrightarrow> body c est = ret (b, est') \<Longrightarrow> session st (snd est')"
  shows "session st (snd est')"
  using while_chain_keeps [where P = "\<lambda>est. session st (snd est)" and Q = "\<lambda>est. session st (snd est)", OF assms(1,2)]
    assms(3) by (auto split: if_splits)

lemma session_list: "list_files b pt bs st = ret st' \<Longrightarrow> session st st'"
proof -
  assume l: "list_files b pt bs st = ret st'"
  have body: "session st (snd est')" if "session st (snd est)" "list_cluster first bs c est = ret (r, est')"
    for first c est r est'
    using that session_for_entries by (auto simp: list_cluster_def)
  show ?thesis
    using l by (auto simp: list_files_def Let_def session_for_entries split: if_splits
        dest!: session_while [OF _ _ body])
qed

lemma session_cd: "change_directory nd pt bs st = ret st' \<Longrightarrow> session st st'"
proof -
  assume cd: "change_directory nd pt bs st = ret st'"
  have body: "session st (snd est')" if "session st (snd est)" "cd_cluster first bs d name c est = ret (r, est')"
    for first d name c est r est'
    using that by (auto simp: cd_cluster_def dest!: session_find [where st = st] split: if_splits)
  show ?thesis
    using cd by (auto simp: change_directory_def Let_def split: option.splits if_splits
        dest!: session_find [where st = st] session_while [OF _ _ body])
qed

lemma session_copy_chain:
  assumes "copy_chain at_end first pt bs fsize c br data st = Some r"
  shows "\<forall>st'. r = Inr st' \<longrightarrow> session st st'"
proof (rule copy_chain.raw_induct [where P = "\<lambda>_ _ _ _ _ _ _ _ st r. \<forall>st'. r = Inr st' \<longrightarrow> session st st'",
      OF _ assms], goal_cases)
  case (1 f at_end first pt bs fsize c br data st r)
  show ?case
  proof (cases "\<not> at_end c \<and> br < fsize")
    case False
    then show ?thesis using 1(2) by (auto simp: ret_def)
  next
    case True
    then obtain c' br' data' st4 where f: "f at_end first pt bs fsize c' br' data' st4 = Some r"
      and s: "session st st4"
      using 1(2) by (simp add: Let_def case_prod_beta)
    from 1(1) [OF f] s show ?thesis by (blast intro: session_trans)
  qed
qed

lemma session_copy: "copy_file at_end first pt bs e st = ret st' \<Longrightarrow> session st st'"
  using session_copy_chain by (fastforce simp: copy_file_def ret_def)

lemma session_read_file: "read_file fname pt bs st = ret st' \<Longrightarrow> session st st'"
proof -
  assume rd: "read_file fname pt bs st = ret st'"
  have body: "session st (snd est')"
    if "session st (snd est)" "read_cluster first pt bs cmp c est = ret (r, est')" for first cmp c est r est'
    using that by (auto simp: read_cluster_def dest!: session_find [where st = st] session_copy
        split: if_splits intro: session_trans)
  show ?thesis
    using rd by (auto simp: read_file_def Let_def not_found_def case_prod_beta split: option.splits prod.splits if_splits
        dest!: session_find [where st = st] session_while [OF _ _ body] session_copy intro: session_trans)
qed

lemma session_info: "session st (print_info pt bs st)"
  by (simp add: print_info_def Let_def session_for_entries)

lemma session_tree_at:
  assumes "print_tree_at pt bs p st = Some r"
  shows "\<forall>st'. r = Inr st' \<longrightarrow> session st st'"
proof (rule print_tree_at.raw_induct [where P = "\<lambda>_ _ _ st r. \<forall>st'. r = Inr st' \<longrightarrow> session st st'",
      OF _ assms], goal_cases)
  case (1 f pt bs p st r)
  have call: "session st1 st'" if "f pt bs q st1 = Some (Inr st')" for q st1 st'
    using 1(1) [OF that] by simp
  have bind: "\<exists>st3. f pt bs q st1 = Some (Inr st3) \<and> g st3 = Some (Inr st')"
    if "res_bind (f pt bs q st1) g = Some (Inr st')" for q st1 g st'
    using that res_bind_eq_ret [of "f pt bs q st1" g st'] by (simp add: ret_def)
  have no: "fail e \<noteq> Some (Inr st')" "ret st1 = Some (Inr st') \<longleftrightarrow> st1 = st'" for e and st1 st' :: fat
    by (auto simp: fail_def ret_def)
  show ?case
  proof (intro allI impI)
    fix st' assume r: "r = Inr st'"
    show "session st st'"
    proof (cases p)
      case (Print_tree directory depth)
      then show ?thesis
        using 1(2) r by (cases directory; cases "first_data_sector pt bs" rule: res_cases)
          (auto simp: no dest!: call elim!: session_trans [rotated])
    next
      case (Root_loop depth i e)
      then show ?thesis
        using 1(2) r
        by (auto simp: case_prod_beta Let_def no split: if_splits dest!: bind call
            elim!: session_trans [rotated])
    next
      case (Cluster_loop d depth c e)
      then show ?thesis
        using 1(2) r by (cases "first_data_sector pt bs" rule: res_cases)
          (auto simp: no split: if_splits dest!: call elim!: session_trans [rotated])
    next
      case (Entry_loop d depth c i e)
      then show ?thesis
        using 1(2) r
        by (cases "first_data_sector pt bs" rule: res_cases)
          (auto simp: no case_prod_beta Let_def split: if_splits dest!: bind call
            elim!: session_trans [rotated])
    qed
  qed
qed

lemma session_tree: "print_tree pt bs st = ret st' \<Longrightarrow> session st st'"
  using session_tree_at by (fastforce simp: print_tree_def ret_def)

lemma session_command: "command pt bs buf st = ret st' \<Longrightarrow> session st st'"
  by (auto simp: command_def Let_def session_info session_tree dest: session_list session_read_file session_cd
      split: if_splits)

lemma getline_parts: "getline inp = ret (line, rest) \<Longrightarrow> \<exists>str. line = str @ [NUL] \<and> inp = str @ rest"
  by (auto simp: getline_def Let_def split: if_splits)

lemma exit_line: "cstr (chomp (str @ [NUL])) = ''exit'' \<Longrightarrow> \<exists>suf. str = ''exit'' @ suf"
proof -
  let ?n = "length (takeWhile (\<lambda>c. c \<noteq> CHR 0x0A \<and> c \<noteq> NUL) str)"
  have n: "takeWhile (\<lambda>c. c \<noteq> CHR 0x0A \<and> c \<noteq> NUL) (str @ [NUL]) = take ?n str"
    by (induction str) auto
  then have "chomp (str @ [NUL]) = take ?n str @ NUL # drop (Suc ?n) (str @ [NUL])"
    unfolding chomp_def n by (simp add: upd_conv_take_nth_drop length_takeWhile_le le_imp_less_Suc min_def)
  moreover have "NUL \<notin> set (take ?n str)" by (metis (mono_tags, lifting) set_takeWhileD takeWhile_eq_take)
  ultimately have "cstr (chomp (str @ [NUL])) = take ?n str" by simp
  moreover assume "cstr (chomp (str @ [NUL])) = ''exit''"
  ultimately show ?thesis by (metis append_take_drop_id)
qed

lemma run_loop_ends: "run_loop pt bs inp st = ret (code, st') \<Longrightarrow>
    code = 0 \<and> session st st' \<and> (\<exists>pre suf. inp = pre @ ''exit'' @ suf)"
proof (induction pt bs inp st rule: run_loop.induct)
  case (1 pt bs inp st)
  let ?st1 = "puts (prompt st) st"
  have s1: "session st ?st1" by simp
  obtain line rest where g: "getline inp = ret (line, rest)" and
    run: "(if cstr (chomp line) = ''exit'' then ret (0, ?st1)
      else res_bind (command pt bs (chomp line) ?st1) (\<lambda>st2. run_loop pt bs rest st2)) = ret (code, st')"
    using 1(2) by (subst (asm) run_loop.simps) (auto simp: Let_def)
  obtain str where str: "line = str @ [NUL]" "inp = str @ rest" using getline_parts [OF g] by blast
  show ?case
  proof (cases "cstr (chomp line) = ''exit''")
    case True
    then obtain suf where "str = ''exit'' @ suf" using exit_line str(1) by blast
    then have "\<exists>pre suf. inp = pre @ ''exit'' @ suf" using str(2) by (metis append_assoc append_Nil)
    then show ?thesis using run True s1 by simp
  next
    case False
    then obtain st2 where st2: "command pt bs (chomp line) ?st1 = ret st2" "run_loop pt bs rest st2 = ret (code, st')"
      using run by auto
    from 1(1) [OF refl g refl refl False st2] session_command [OF st2(1)] s1 str(2) show ?thesis
      by (metis append_assoc session_trans)
  qed
qed

section \<open>Whole sessions\<close>

lemma image_startup [simp]:
  "img_of (snd (read_partitions st)) = img_of st" "img_of (snd (read_boot_sector pt st)) = img_of st"
  "img_of (find_root bs st) = img_of st"
  "current_directory (snd (read_partitions st)) = current_directory st"
  "current_directory (snd (read_boot_sector pt st)) = current_directory st"
  "current_directory (find_root bs st) = current_directory st"
  by (simp_all add: read_partitions_def read_boot_sector_def find_root_def read_bytes_def seek_def
      case_prod_beta Let_def fseek_cur_def)

lemma image_zero [simp]: "img_of (zero_fat img junk) = img" "current_directory (zero_fat img junk) = ''/root''"
  by (simp_all add: zero_fat_def)

text \<open>
  Claim C14. Whatever bytes the image holds and whatever is typed, a session that ends has
  left the image as it was and the path within its buffer of 1024 bytes, and the exit code is 0.
  It ends only after the user has typed \<open>exit\<close>: the end of the input does not end it.
\<close>

theorem shell_is_read_only:
  assumes "main [] (Some img) junk inp = ret (code, st')"
  shows "code = 0 \<and> img_of st' = img \<and> length (current_directory st') < 1024 \<and>
    (\<exists>pre suf. inp = pre @ ''exit'' @ suf)"
proof -
  obtain pt st1 where 1: "read_partitions (zero_fat img junk) = (pt, st1)" by fastforce
  obtain bs st2 where 2: "read_boot_sector pt st1 = (bs, st2)" by fastforce
  define st3 where "st3 = find_root bs st2"
  have st3: "img_of st3 = img" "current_directory st3 = ''/root''"
    using image_startup(1,4) [of "zero_fat img junk"] image_startup(2,5) [of pt st1]
    by (simp_all add: 1 2 st3_def)
  obtain st4 where st4: "print_tree pt bs st3 = ret st4"
    "run_loop pt bs inp (seek (root_directory_offset st4) st4) = ret (code, st')"
    using assms by (auto simp: main_def 1 2 run_def simp flip: st3_def)
  have "session st3 st'"
    using session_tree [OF st4(1)] run_loop_ends [OF st4(2)] by (meson session_refl session_seek session_trans)
  then show ?thesis using run_loop_ends [OF st4(2)] st3 by (simp add: session_def)
qed

section \<open>The regions of the disk\<close>

text \<open>
  Claim C15. The three computations of where things are agree, for a disk with sectors of 512
  bytes and a size below 2 GB: \<open>main\<close> finds the root directory by seeking from the boot
  sector, \<open>get_next_cluster\<close> finds the FAT and the others find the first data sector from the
  partition table. The reserved sectors, the FATs and the root directory follow each other without
  gap or overlap, and no look-up of a cluster the FAT has an entry for reads outside the first
  FAT. The data begin where the root directory ends exactly if the number of its entries is a
  multiple of 16, which fills whole sectors; otherwise the code rounds down and takes the last
  part of the root directory for data.
\<close>

theorem regions_in_order:
  assumes start: "read_partitions (zero_fat img junk) = (pt, st1)" "read_boot_sector pt st1 = (bs, st2)"
    and s: "s = uint (start_sector (pt ! 0))" "512 * s + 512 \<le> int (length img)"
    and "sector_size bs = 512" "0 < reserved_sectors bs" "0 < number_of_fats bs"
    and fits: "512 * (s + uint (reserved_sectors bs) + uint (number_of_fats bs) * uint (fat_size_sectors bs) +
        uint (root_dir_entries bs)) < 2 ^ 31"
  defines "rootpos \<equiv> root_directory_offset (find_root bs st2)"
  shows "rootpos = 512 * (s + uint (reserved_sectors bs) + uint (number_of_fats bs) * uint (fat_size_sectors bs)) \<and>
    current_directory_offset (find_root bs st2) = rootpos \<and>
    (\<exists>first. first_data_sector pt bs = ret first \<and>
       first = rootpos + 512 * (32 * uint (root_dir_entries bs) div 512) \<and>
       (uint (root_dir_entries bs) mod 16 = 0 \<longrightarrow> first = rootpos + 32 * uint (root_dir_entries bs)) \<and>
       (uint (root_dir_entries bs) mod 16 \<noteq> 0 \<longrightarrow> first < rootpos + 32 * uint (root_dir_entries bs))) \<and>
    (0 \<le> c \<longrightarrow> 2 * c + 2 \<le> 512 * uint (fat_size_sectors bs) \<longrightarrow>
       512 * (s + uint (reserved_sectors bs)) \<le> fat_entry_pos pt bs c \<and>
       fat_entry_pos pt bs c + 2 \<le> 512 * (s + uint (reserved_sectors bs) + uint (fat_size_sectors bs)) \<and>
       fat_entry_pos pt bs c + 2 \<le> rootpos)"
proof -
  define r n f d where "r = uint (reserved_sectors bs)" "n = uint (number_of_fats bs)"
    "f = uint (fat_size_sectors bs)" "d = uint (root_dir_entries bs)"
  note rnfd = this
  have ss: "uint (sector_size bs) = 512" using assms(5) by simp
  have pos: "0 \<le> s" "1 \<le> r" "1 \<le> n" "0 \<le> f" "0 \<le> d"
    using assms(6,7) by (auto simp: rnfd s word_less_def)
  have nf: "f \<le> n * f" "0 \<le> n * f" using pos mult_right_mono [of 1 n f] by auto
  have fit: "512 * (s + r + n * f + d) < 2147483648" using fits by (simp add: rnfd)
  have img1: "img_of st1 = img" using image_startup(1) [of "zero_fat img junk"] start(1) by simp
  have "u32_of (512 * s) = 512 * s" using fit pos nf by (simp add: u32_of_def)
  then have "read_bytes 512 (automatic 512 st1) (seek (u32_of (512 * s)) st1) =
      (bytes_at img (nat (512 * s)) 512, at_pos (nat (512 * s) + 512) st1)"
    using s(2) pos img1 by (simp add: seek_nonneg read_bytes_full)
  then have st2: "fpos (in_file st2) = nat (512 * s) + 512"
    using start(2) by (auto simp: read_boot_sector_def simp flip: s(1))
  have "i32 ((r - 1 + f * n) * 512) = (r - 1 + f * n) * 512"
    using fit pos nf by (intro i32_id) (auto simp: algebra_simps)
  then have g: "fpos (fseek_cur (i32 ((r - 1 + f * n) * 512)) (in_file st2)) = nat (512 * (s + r + n * f))"
    using st2 pos nf by (simp add: fseek_cur_def algebra_simps)
  have "0 \<le> 512 * (s + r + n * f)" "i32 (512 * (s + r + n * f)) = 512 * (s + r + n * f)"
    using fit pos nf by (auto intro!: i32_id)
  then have "root_directory_offset (find_root bs st2) = 512 * (s + r + n * f)"
    "current_directory_offset (find_root bs st2) = 512 * (s + r + n * f)"
    unfolding find_root_def Let_def ss rnfd [symmetric] fat.simps g by simp_all
  then have rootpos: "rootpos = 512 * (s + r + n * f)" "current_directory_offset (find_root bs st2) = rootpos"
    by (simp_all add: rootpos_def)
  have q: "0 \<le> d * 32 div 512" "d * 32 div 512 \<le> d" using pos by auto
  have "first_data_sector pt bs = ret (i32 (512 * (s + r + n * f + d * 32 div 512)))"
    using assms(5) by (simp add: first_data_sector_def mult.commute flip: rnfd s(1))
  also have "i32 (512 * (s + r + n * f + d * 32 div 512)) = 512 * (s + r + n * f + d * 32 div 512)"
    using fit pos nf q by (intro i32_id) auto
  finally have first: "first_data_sector pt bs = ret (rootpos + 512 * (32 * d div 512))"
    by (simp add: rootpos algebra_simps)
  have fat: "512 * (s + r) \<le> fat_entry_pos pt bs c \<and> fat_entry_pos pt bs c + 2 \<le> 512 * (s + r + f) \<and>
      fat_entry_pos pt bs c + 2 \<le> rootpos" if "0 \<le> c" "2 * c + 2 \<le> 512 * f"
  proof -
    have "i32 s = s" "i32 (r * 512) = r * 512" "i32 (s * 512 + r * 512 + c * 2) = s * 512 + r * 512 + c * 2"
    proof -
      define m where "m = n * f"
      have "512 * (s + r + m + d) < 2147483648" "f \<le> m" using fit nf by (simp_all add: m_def)
      then show "i32 s = s" "i32 (r * 512) = r * 512" "i32 (s * 512 + r * 512 + c * 2) = s * 512 + r * 512 + c * 2"
        using pos that by (auto intro!: i32_id)
    qed
    then have "fat_entry_pos pt bs c = s * 512 + r * 512 + c * 2"
      by (simp add: fat_entry_pos_def fat_entry_offset_def fat_start_def ss flip: rnfd s(1))
    moreover have "2 * c + 2 \<le> 512 * (n * f)"
      by (rule order_trans [OF that(2)], rule mult_left_mono [OF nf(1)]) simp
    ultimately show ?thesis using that rootpos(1) by simp
  qed
  have "32 * d mod 512 = 32 * (d mod 16)" using mod_mult_mult1 [of 32 d 16] by simp
  then have down: "512 * (32 * d div 512) = 32 * d - 32 * (d mod 16)" using minus_mod_eq_mult_div [of "32 * d" 512] by simp
  have "0 \<le> d mod 16" by simp
  with down have "d mod 16 \<noteq> 0 \<Longrightarrow> 512 * (32 * d div 512) < 32 * d" by linarith
  with down first have "\<exists>first. first_data_sector pt bs = ret first \<and> first = rootpos + 512 * (32 * d div 512) \<and>
      (d mod 16 = 0 \<longrightarrow> first = rootpos + 32 * d) \<and> (d mod 16 \<noteq> 0 \<longrightarrow> first < rootpos + 32 * d)" by simp
  with rootpos fat show ?thesis unfolding rnfd [symmetric] by (intro conjI impI) simp_all
qed

section \<open>Commands\<close>

definition one_line :: "string \<Rightarrow> bool" where
  "one_line s \<longleftrightarrow> CHR 0x0A \<notin> set s \<and> NUL \<notin> set s"

lemma getline_one_line [simp]: "one_line s \<Longrightarrow> getline (s @ newline @ rest) = ret (s @ newline @ [NUL], rest)"
  by (auto simp: getline_def Let_def one_line_def newline_def takeWhile_append dropWhile_append)

lemma chomp_one_line [simp]: "one_line s \<Longrightarrow> chomp (s @ newline @ [NUL]) = s @ [NUL, NUL]"
proof -
  assume s: "one_line s"
  have "takeWhile (\<lambda>c. c \<noteq> CHR 0x0A \<and> c \<noteq> NUL) (s @ newline @ [NUL]) = s"
    using s by (subst takeWhile_append2) (auto simp: one_line_def newline_def)
  then show ?thesis by (simp add: chomp_def newline_def list_update_append)
qed

lemma cstr_one_line [simp]: "one_line s \<Longrightarrow> cstr (s @ [NUL, NUL]) = s"
  by (simp add: one_line_def)

lemma run_loop_line:
  assumes "one_line s" "s \<noteq> ''exit''"
  shows "run_loop pt bs (s @ newline @ rest) st =
    res_bind (command pt bs (s @ [NUL, NUL]) (puts (prompt st) st)) (run_loop pt bs rest)"
  using assms by (subst run_loop.simps) (simp add: Let_def)

lemma command_arg:
  assumes "one_line d" "d \<noteq> []" "length c \<le> n" "n = length c + 1"
  shows "cmd_at n ((c @ '' '' @ d) @ [NUL, NUL]) = ret d"
  using assms by (simp add: cmd_at_def)

text \<open>
  Claim C16. The shell runs what is typed: a line \<open>cd NAME\<close> changes to the directory
  \<open>NAME\<close>, a line \<open>read NAME\<close> reads the file \<open>NAME\<close>, the words \<open>ls\<close>, \<open>tree\<close>, \<open>info\<close> do what
  they say, after each of them the loop goes on with the rest of the input, and \<open>exit\<close>
  returns 0 without reading on. Each is preceded by a prompt with the current path.
\<close>

theorem shell_runs_commands:
  assumes "one_line d" "d \<noteq> []"
  shows "run_loop pt bs (''cd '' @ d @ newline @ rest) st =
      res_bind (change_directory (Some d) pt bs (puts (prompt st) st)) (run_loop pt bs rest) \<and>
    run_loop pt bs (''read '' @ d @ newline @ rest) st =
      res_bind (read_file (Some d) pt bs (puts (prompt st) st)) (run_loop pt bs rest) \<and>
    run_loop pt bs (''ls'' @ newline @ rest) st =
      res_bind (list_files True pt bs (puts (prompt st) st)) (run_loop pt bs rest) \<and>
    run_loop pt bs (''tree'' @ newline @ rest) st =
      res_bind (print_tree pt bs (puts (prompt st) st)) (run_loop pt bs rest) \<and>
    run_loop pt bs (''info'' @ newline @ rest) st =
      run_loop pt bs rest (print_info pt bs (puts (prompt st) st)) \<and>
    run_loop pt bs (''exit'' @ newline @ rest) st = ret (0, puts (prompt st) st)"
proof -
  have o: "one_line (''cd '' @ d)" "one_line (''read '' @ d)" "one_line ''ls''" "one_line ''tree''" "one_line ''info''"
    "one_line ''exit''" using assms(1) by (auto simp: one_line_def)
  note run = run_loop_line [OF o(1)] run_loop_line [OF o(2)] run_loop_line [OF o(3)] run_loop_line [OF o(4)]
    run_loop_line [OF o(5)]
  have cd: "command pt bs ((''cd '' @ d) @ [NUL, NUL]) st1 = change_directory (Some d) pt bs st1" for st1
    using command_arg [OF assms, of "''cd''" 3] cstr_one_line [OF o(1)] assms(2) by (simp add: command_def)
  have rd: "command pt bs ((''read '' @ d) @ [NUL, NUL]) st1 = read_file (Some d) pt bs st1" for st1
    using command_arg [OF assms, of "''read''" 5] cstr_one_line [OF o(2)] assms(2) by (simp add: command_def)
  have words: "command pt bs (''ls'' @ [NUL, NUL]) st1 = list_files True pt bs st1"
    "command pt bs (''tree'' @ [NUL, NUL]) st1 = print_tree pt bs st1"
    "command pt bs (''info'' @ [NUL, NUL]) st1 = ret (print_info pt bs st1)" for st1
    by (simp_all add: command_def cstr_def)
  have "run_loop pt bs (''exit'' @ newline @ rest) st = ret (0, puts (prompt st) st)"
    using getline_one_line [OF o(6), of rest] chomp_one_line [OF o(6)]
    by (subst run_loop.simps) (simp add: Let_def cstr_def)
  then show ?thesis using run [of pt bs rest st] cd rd words by simp
qed

section \<open>There and back\<close>

lemma remove_append_component:
  assumes "CHR ''/'' \<notin> set d" "length p < 1023"
  shows "remove_right_including (append_component p d) CHR ''/'' = p"
proof -
  obtain d' where d': "append_component p d = p @ CHR ''/'' # d'" "CHR ''/'' \<notin> set d'"
    using assms by (cases "1024 - length p - 1") (auto simp: append_component_def dest: in_set_takeD)
  have "dropWhile (\<lambda>c. c \<noteq> CHR ''/'') (rev d' @ CHR ''/'' # rev p) = CHR ''/'' # rev p"
    using d'(2) by (subst dropWhile_append2) auto
  then show ?thesis by (simp add: remove_right_including_def d'(1))
qed

text \<open>
  \<open>cd ..\<close> undoes \<open>cd NAME\<close> at the top level: from the root into a directory on the
  disk whose first entry with the name \<open>..\<close> has cluster 0, as formatted disks have it, and
  back, the shell is in the root directory again, with the path it had before and nothing
  printed.
\<close>

lemma cd_dotdot_returns:
  assumes cur: "current_entries pt bs st es" "current_directory_offset st = root_directory_offset st"
    and first: "first_data_sector pt bs = ret first"
    and nd: "NUL \<notin> set nd" "length nd \<le> 8" "CHR ''/'' \<notin> set nd" "length (current_directory st) < 1023"
    and e: "find (named_dir nd) es = Some e" "i32 (cluster_of e * uint (sector_size bs)) \<noteq> root_directory_offset st"
    and sub: "chain_on_disk (img_of st) first pt bs (cluster_of e) cs"
    and up: "find (named_dir ''..'') (dir_entries (img_of st) first bs cs) = Some u" "cluster_of u = 0"
  shows "\<exists>st'. res_bind (change_directory (Some nd) pt bs st) (change_directory (Some ''..'') pt bs) = ret st' \<and>
    current_directory st' = current_directory st \<and> out st' = out st \<and>
    current_directory_offset st' = root_directory_offset st \<and> current_entries pt bs st' es"
proof -
  from change_directory_result [OF cur(1) first nd(1,2)] obtain k where
    k: "change_directory (Some nd) pt bs st = ret (at_pos k (enter_from_root nd bs e st))"
    using e cur(2) by (auto simp: cd_result_def)
  let ?st1 = "at_pos k (enter_from_root nd bs e st)"
  have st1: "current_directory_entry ?st1 = e" "root_directory_offset ?st1 = root_directory_offset st"
    "current_directory_offset ?st1 \<noteq> root_directory_offset ?st1" "img_of ?st1 = img_of st"
    using e(2) by (simp_all add: enter_from_root_def)
  then have "current_entries pt bs ?st1 (dir_entries (img_of st) first bs cs)"
    using first sub by (auto simp: current_entries_def)
  from change_directory_result [OF this first, of "''..''"] obtain j where
    "change_directory (Some ''..'') pt bs ?st1 = ret (at_pos j (enter_from_sub ''..'' bs u ?st1))"
    using up(1) st1(3) by (auto simp: cd_result_def)
  moreover have "current_directory (enter_from_sub ''..'' bs u ?st1) = current_directory st"
    "current_directory_offset (enter_from_sub ''..'' bs u ?st1) = root_directory_offset st"
    "out (enter_from_sub ''..'' bs u ?st1) = out st"
    using up(2) remove_append_component [OF nd(3,4)]
    by (simp_all add: enter_from_sub_def enter_from_root_def Let_def)
  ultimately show ?thesis
    using k cur by (intro exI [of _ "at_pos j (enter_from_sub ''..'' bs u ?st1)"]) (simp add: current_entries_def)
qed

end
