(* ===== verification/Fat_Sample.thy ===== *)
theory Fat_Sample
  imports Fat_Shell
begin

text \<open>
  A small disk on which the theorems about the FAT16 shell are applied: sectors and clusters
  of 64 bytes, one FAT, a root directory of two entries at 128, clusters 2 and 3 at 192 and
  256, each the end of its chain. The parameters are the six directory slots from the root to
  the end; the two slots of a cluster can be the data of a file.
\<close>

definition sample_pt :: "PartitionTable list" where
  "sample_pt = replicate 4 (partition_of (replicate 16 0))"

definition sample_bs :: Fat16BootSector where
  "sample_bs = (boot_of (replicate 512 0))
     \<lparr>sector_size := 64, sectors_per_cluster := 1, reserved_sectors := 1, number_of_fats := 1,
      root_dir_entries := 2, fat_size_sectors := 1\<rparr>"

definition sample_img :: "byte list list \<Rightarrow> byte list" where
  "sample_img es = replicate 68 0 @ replicate 4 0xFF @ replicate 56 0 @ concat es"

definition sample_fat :: "byte list list \<Rightarrow> fat" where
  "sample_fat es = (zero_fat (sample_img es) (\<lambda>_. 0))
     \<lparr>current_directory_offset := 128, root_directory_offset := 128\<rparr>"

definition slot :: "string \<Rightarrow> string \<Rightarrow> byte \<Rightarrow> u16 \<Rightarrow> u32 \<Rightarrow> byte list" where
  "slot name x attr cluster bytes = entry_bytes
     \<lparr>filename = take 8 (bytes_of name @ replicate 8 0x20), ext = take 3 (bytes_of x @ replicate 3 0x20),
      attributes = attr, reserved = replicate 10 0, modify_time = 0, modify_date = 0,
      starting_cluster = cluster, file_size = bytes\<rparr>"

lemma sample_start [simp]: "start_sector (sample_pt ! 0) = 0"
  by (simp add: sample_pt_def partition_of_def bytes_at_def le32_def eval_nat_numeral)

lemma sample_geometry [simp]:
  "sector_size sample_bs = 64" "root_dir_entries sample_bs = 2" "first_data_sector sample_pt sample_bs = ret 192"
  "entries_per_cluster sample_bs = 2" "cluster_size sample_bs = 64"
  "cluster_offset 192 sample_bs 2 = 192" "cluster_offset 192 sample_bs 3 = 256"
  "fat_entry_pos sample_pt sample_bs 2 = 68" "fat_entry_pos sample_pt sample_bs 3 = 70"
  by (simp_all add: sample_bs_def first_data_sector_def entries_per_cluster_def cluster_size_def
      cluster_offset_def fat_entry_pos_def fat_entry_offset_def fat_start_def u32_of_def)

lemma slot_length [simp]: "length (slot n x a c s) = 32"
  by (simp add: slot_def entry_bytes_def)

lemma slot_entry: "entry_of (slot n x a c s) =
    \<lparr>filename = take 8 (bytes_of n @ replicate 8 0x20), ext = take 3 (bytes_of x @ replicate 3 0x20),
      attributes = a, reserved = replicate 10 0, modify_time = 0, modify_date = 0,
      starting_cluster = c, file_size = s\<rparr>"
  unfolding slot_def by (rule entry.dec_enc) (auto simp: entry_ok_def min_def)

lemma sample_fat_sel [simp]:
  "img_of (sample_fat es) = sample_img es" "current_directory_offset (sample_fat es) = 128"
  "root_directory_offset (sample_fat es) = 128" "current_directory (sample_fat es) = ''/root''"
  "out (sample_fat es) = []" "err (sample_fat es) = []"
  by (simp_all add: sample_fat_def zero_fat_def)

definition six :: "byte list list \<Rightarrow> bool" where
  "six es \<longleftrightarrow> length es = 6 \<and> (\<forall>e\<in>set es. length e = 32)"

lemma length_sample [simp]: "six es \<Longrightarrow> length (sample_img es) = 320"
proof -
  have "(\<forall>e\<in>set es. length e = 32) \<Longrightarrow> length (concat es) = 32 * length es"
    by (induction es) auto
  then show "six es \<Longrightarrow> ?thesis" by (simp add: six_def sample_img_def)
qed

lemma bytes_at_concat:
  "(\<forall>e\<in>set es. length e = n) \<Longrightarrow> i < length es \<Longrightarrow> bytes_at (concat es) (n * i) n = es ! i"
proof (induction es arbitrary: i)
  case (Cons e es)
  then show ?case by (cases i) (simp_all add: bytes_at_def)
qed simp

lemma sample_slot: "six es \<Longrightarrow> i < 6 \<Longrightarrow> bytes_at (sample_img es) (128 + 32 * i) 32 = es ! i"
  unfolding sample_img_def append_assoc [symmetric]
  by (subst bytes_at_next) (simp_all add: bytes_at_concat six_def)

lemma sample_slots [simp]:
  assumes "six es"
  shows "slots (sample_img es) 128 2 = [es ! 0, es ! 1]" "slots (sample_img es) 192 2 = [es ! 2, es ! 3]"
    "slots (sample_img es) 256 2 = [es ! 4, es ! 5]"
  using sample_slot [OF assms, of 0] sample_slot [OF assms, of 1] sample_slot [OF assms, of 2]
    sample_slot [OF assms, of 3] sample_slot [OF assms, of 4] sample_slot [OF assms, of 5]
  by (simp_all add: slots_def numeral_2_eq_2)

lemma disk_table [simp]:
  "fat_table (sample_img es) sample_pt sample_bs 2 = 0xFFFF"
  "fat_table (sample_img es) sample_pt sample_bs 3 = 0xFFFF"
proof -
  have "replicate 4 (0xFF :: byte) = [0xFF, 0xFF, 0xFF, 0xFF]" by (simp add: eval_nat_numeral)
  then show "fat_table (sample_img es) sample_pt sample_bs 2 = 0xFFFF"
    "fat_table (sample_img es) sample_pt sample_bs 3 = 0xFFFF"
    by (simp_all add: fat_table_def sample_img_def bytes_at_def le16_def)
qed

lemma sample_chain:
  assumes "six es" "c \<in> {2, 3}"
  shows "chain_on_disk (sample_img es) 192 sample_pt sample_bs c [c]"
  using assms by (auto simp: chain_on_disk_def is_end_of_chain_def in_image_def)

lemma sample_root [simp]:
  "six es \<Longrightarrow> root_on_disk (sample_img es) sample_bs 128"
  "six es \<Longrightarrow> root_entries (sample_img es) sample_bs 128 = [es ! 0, es ! 1]"
  by (simp_all add: root_on_disk_def in_image_def root_entries_def)

lemma sample_current [simp]: "six es \<Longrightarrow> current_entries sample_pt sample_bs (sample_fat es) [es ! 0, es ! 1]"
  by (simp add: current_entries_def)

section \<open>Two disks\<close>

text \<open>
  \<open>disk\<close> has a directory \<open>A\<close> (cluster 3) and a file \<open>F.TXT\<close> of five bytes (cluster 2) in the
  root, and a parent entry in \<open>A\<close>. On \<open>nested_disk\<close> the directory \<open>P\<close> (cluster 2) has a
  subdirectory \<open>Q\<close> (cluster 3), whose parent entry has cluster 2.
\<close>

definition blank :: "byte list" where
  "blank = replicate 32 0"

definition disk :: "byte list list" where
  "disk = [slot ''A'' [] 0x10 3 0, slot ''F'' ''TXT'' 0x20 2 5, bytes_of ''hello'' @ replicate 27 0,
           blank, slot ''..'' [] 0x10 0 0, blank]"

definition nested_disk :: "byte list list" where
  "nested_disk = [slot ''P'' [] 0x10 2 0, blank, slot ''Q'' [] 0x10 3 0, blank,
                  slot ''..'' [] 0x10 2 0, blank]"

lemma six_disks [simp]: "six disk" "six nested_disk"
  by (simp_all add: six_def disk_def nested_disk_def bytes_of_def blank_def)

lemma unused [simp]: "\<not> used blank"
  by (simp add: used_def entry_of_def bytes_at_def blank_def)

lemma slot_sel:
  "used (slot n x a c s) \<longleftrightarrow> (take 8 (bytes_of n @ replicate 8 0x20)) ! 0 \<noteq> 0"
  "is_dir (slot n x a c s) \<longleftrightarrow> a AND 0x10 \<noteq> 0" "cluster_of (slot n x a c s) = uint c"
  "size_of (slot n x a c s) = unat s"
  by (simp_all add: used_def is_dir_def cluster_of_def size_of_def slot_entry)

lemmas sample_eval = disk_def nested_disk_def slot_sel slot_entry bytes_of_def of_char_def padded_def named_dir_def

lemma disk_A: "find (named_dir ''A'') [disk ! 0, disk ! 1] = Some (disk ! 0)"
  by (simp add: sample_eval)

lemma disk_up: "find (named_dir ''..'') [disk ! 4, disk ! 5] = Some (disk ! 4)"
  by (simp add: sample_eval)

lemma nested_P: "find (named_dir ''P'') [nested_disk ! 0, nested_disk ! 1] = Some (nested_disk ! 0)"
  by (simp add: sample_eval)

theorem list_files_prints_directory_witness:
  "\<exists>k. list_files True sample_pt sample_bs (sample_fat disk) =
    ret (at_pos k (puts (listing [disk ! 0, disk ! 1]) (sample_fat disk)))"
  by (rule list_files_prints_directory [OF sample_current [OF six_disks(1)]])

theorem change_directory_correct_witness:
  "\<exists>k st'. change_directory (Some ''A'') sample_pt sample_bs (sample_fat disk) = ret (at_pos k st') \<and>
    current_directory st' = ''/root/A'' \<and> current_directory_offset st' = 192"
proof -
  have "cluster_of (disk ! 0) = 3" by (simp add: sample_eval)
  then show ?thesis
    using change_directory_correct [OF sample_current [OF six_disks(1)], of "''A''"] disk_A
    by (auto simp: append_component_def)
qed

text \<open>The shell in the directory \<open>A\<close>.\<close>

definition in_A :: fat where
  "in_A = (sample_fat disk)\<lparr>current_directory_offset := 192, current_directory_entry := disk ! 0,
     current_directory := ''/root/A''\<rparr>"

lemma in_A_sel [simp]:
  "img_of in_A = sample_img disk" "current_directory_offset in_A = 192" "root_directory_offset in_A = 128"
  "current_directory in_A = ''/root/A''" "current_directory_entry in_A = disk ! 0" "out in_A = []"
  by (simp_all add: in_A_def)

lemma A_entries [simp]: "dir_entries (sample_img disk) 192 sample_bs [3] = [disk ! 4, disk ! 5]"
  by (simp add: dir_entries_def)

lemma A_cluster [simp]: "cluster_of (disk ! 0) = 3"
  by (simp add: sample_eval)

lemma in_A_current [simp]: "current_entries sample_pt sample_bs in_A [disk ! 4, disk ! 5]"
proof -
  have "chain_on_disk (sample_img disk) 192 sample_pt sample_bs 3 [3]" by (rule sample_chain) simp_all
  then show ?thesis using A_entries by (auto simp: current_entries_def)
qed

lemma cd_below_root_never_extends_path_witness:
  "\<exists>st'. change_directory (Some ''..'') sample_pt sample_bs in_A = ret st' \<and>
    (current_directory st' = ''/root/A'' \<or> current_directory st' = ''/root'')"
proof -
  obtain st' where st': "change_directory (Some ''..'') sample_pt sample_bs in_A = ret st'"
    using change_directory_result [OF in_A_current, of 192 "''..''"] by auto
  from cd_below_root_never_extends_path [OF st'] st' show ?thesis by (simp add: remove_right_including_def)
qed

lemma cd_can_confuse_root_witness:
  "\<exists>k j st'. change_directory (Some ''P'') sample_pt sample_bs (sample_fat nested_disk) = ret (at_pos k st') \<and>
    current_directory st' = ''/root/P'' \<and>
    list_files True sample_pt sample_bs (at_pos k st') =
      ret (at_pos j (puts (listing [nested_disk ! 0, nested_disk ! 1]) st'))"
proof -
  have "i32 (cluster_of (nested_disk ! 0) * uint (sector_size sample_bs)) = root_directory_offset (sample_fat nested_disk)"
    by (simp add: sample_eval)
  from cd_can_confuse_root [OF sample_current [OF six_disks(2)] _ _ _ _ nested_P this] show ?thesis
    by (simp add: append_component_def)
qed

lemma replicate_7 [simp]: "replicate 7 x = [x, x, x, x, x, x, x]"
  by (simp add: eval_nat_numeral)

lemma plain_F [simp]: "plain (disk ! 0)" "plain (disk ! Suc 0)"
  by (simp_all add: plain_def disk_def slot_def entry_bytes_def bytes_of_def of_char_def nth_append)

lemma F_named [simp]: "names_file ''F'' (Some ''TXT'') (disk ! Suc 0)" "\<not> names_file ''F'' (Some ''TXT'') (disk ! 0)"
  by (simp_all add: names_file_def sample_eval namecmp_def upt_rec)

lemma read_finds_archive_files_only_witness:
  "file_test (namecmp ''F'' (Some ''TXT'')) (disk ! Suc 0) = ret True \<and> attributes (entry_of (disk ! Suc 0)) = 0x20"
proof -
  have "file_test (namecmp ''F'' (Some ''TXT'')) (disk ! Suc 0) = ret True"
    using file_test_plain [of "disk ! Suc 0" "''F''" "Some ''TXT''"] plain_F(2) by (auto simp: plain_def)
  with read_finds_archive_files_only [OF plain_F(2) this] show ?thesis by simp
qed

lemma F_bytes: "file_bytes (sample_img disk) 192 sample_bs (disk ! Suc 0) [2] = bytes_of ''hello''"
proof -
  have "bytes_at (sample_img disk) 192 64 = disk ! 2 @ disk ! 3"
    using sample_slot [OF six_disks(1), of 2] sample_slot [OF six_disks(1), of 3]
      bytes_at_append [of "sample_img disk" 192 32 32] by simp
  moreover have "size_of (disk ! Suc 0) = 5" by (simp add: sample_eval)
  ultimately show ?thesis by (simp add: file_bytes_def cluster_bytes_def disk_def bytes_of_def)
qed

theorem read_copies_file_witness:
  "\<exists>k. read_file (Some ''F.TXT'') sample_pt sample_bs (sample_fat disk) =
    ret (at_pos k (put_bytes (bytes_of ''hello'') (sample_fat disk)))"
proof -
  have tok: "strtok CHR ''.'' ''F.TXT'' = (Some ''F'', ''TXT'')" "strtok CHR ''.'' ''TXT'' = (Some ''TXT'', [])"
    by (simp_all add: strtok_def)
  have found: "find (names_file ''F'' (Some ''TXT'')) [disk ! 0, disk ! Suc 0] = Some (disk ! Suc 0)"
    using F_named by simp
  have "file_on_disk (end_test (sample_fat disk)) (img_of (sample_fat disk)) 192 sample_pt sample_bs (disk ! Suc 0) [2]"
  proof -
    have "size_of (disk ! Suc 0) = 5" "cluster_of (disk ! Suc 0) = 2" by (simp_all add: sample_eval)
    then show ?thesis by (simp add: file_on_disk_def end_test_def root_end_def in_image_def)
  qed
  then have od: "find (names_file ''F'' (Some ''TXT'')) [disk ! 0, disk ! Suc 0] = Some e \<Longrightarrow>
      file_on_disk (end_test (sample_fat disk)) (img_of (sample_fat disk)) 192 sample_pt sample_bs e [2]" for e
    using found by simp
  have pl: "e \<in> set [disk ! 0, disk ! Suc 0] \<Longrightarrow> used e \<Longrightarrow> plain e" for e
    using plain_F by auto
  from read_copies_file [OF sample_current [OF six_disks(1), simplified] sample_geometry(3) tok _ pl od] found
  show ?thesis by (simp add: read_result_def F_bytes)
qed

theorem print_tree_renders_witness:
  "\<exists>k. print_tree sample_pt sample_bs (sample_fat disk) = ret (at_pos k (puts (''/root'' @ newline @
    render_all 0 [Node (disk ! 0) [], Leaf (disk ! Suc 0)]) (sample_fat disk)))"
proof -
  have "\<not> shown 3 (disk ! 4)" "\<not> shown 3 (disk ! 5)" by (simp_all add: shown_def sample_eval)
  then have "dir_tree (sample_img disk) 192 sample_pt sample_bs 3 []"
    by (intro dir_tree.intros [OF sample_chain [OF six_disks(1), of 3]]) simp_all
  then have "root_tree (img_of (sample_fat disk)) 192 sample_pt sample_bs (root_directory_offset (sample_fat disk))
      [Node (disk ! 0) [], Leaf (disk ! Suc 0)]"
    by (simp add: root_tree_def entry_node_def) (simp add: sample_eval)
  from print_tree_renders [OF this sample_geometry(3)] show ?thesis .
qed

theorem print_tree_never_returns_witness:
  "print_tree sample_pt sample_bs (sample_fat nested_disk) = None"
proof -
  have c: "cluster_of (nested_disk ! 2) = 3" "cluster_of (nested_disk ! 4) = 2" "is_dir (nested_disk ! 2)"
    "is_dir (nested_disk ! 4)" "shown 2 (nested_disk ! 2)" "shown 3 (nested_disk ! 4)"
    by (simp_all add: sample_eval shown_def)
  have "descends (sample_img nested_disk) 192 sample_pt sample_bs 2 3"
    "descends (sample_img nested_disk) 192 sample_pt sample_bs 3 2"
    unfolding descends_def
    using sample_chain [OF six_disks(2), of 2] sample_chain [OF six_disks(2), of 3] c
    by (force simp: dir_entries_def)+
  moreover have "used (nested_disk ! 0)" "is_dir (nested_disk ! 0)" "cluster_of (nested_disk ! 0) = 2"
    by (simp_all add: sample_eval)
  ultimately show ?thesis
    using print_tree_never_returns [of "sample_fat nested_disk" sample_bs sample_pt 192 "nested_disk ! 0" 2 3] by simp
qed

lemma cd_dotdot_returns_witness:
  "\<exists>st'. res_bind (change_directory (Some ''A'') sample_pt sample_bs (sample_fat disk))
      (change_directory (Some ''..'') sample_pt sample_bs) = ret st' \<and> current_directory st' = ''/root''"
proof -
  have "chain_on_disk (img_of (sample_fat disk)) 192 sample_pt sample_bs (cluster_of (disk ! 0)) [3]"
    using sample_chain [OF six_disks(1), of 3] by simp
  moreover have "find (named_dir ''..'') (dir_entries (img_of (sample_fat disk)) 192 sample_bs [3]) = Some (disk ! 4)"
    using disk_up by simp
  moreover have "cluster_of (disk ! 4) = 0" by (simp add: sample_eval)
  ultimately show ?thesis
    using cd_dotdot_returns [OF sample_current [OF six_disks(1)] _ sample_geometry(3) _ _ _ _ disk_A, of "[3]" "disk ! 4"]
    by auto
qed

section \<open>Starting\<close>

theorem shell_runs_commands_witness:
  "run_loop sample_pt sample_bs (''cd '' @ ''A'' @ newline @ []) (sample_fat disk) =
    res_bind (change_directory (Some ''A'') sample_pt sample_bs (puts (prompt (sample_fat disk)) (sample_fat disk)))
      (run_loop sample_pt sample_bs [])"
  using shell_runs_commands [of "''A''" sample_pt sample_bs "[]" "sample_fat disk"] by (simp add: one_line_def)

text \<open>An empty image: everything read from it is what the variables held before.\<close>

lemma read_empty: "img_of st = [] \<Longrightarrow> read_bytes n old st = (old, st)"
  by (simp add: read_bytes_def fread_def Let_def)

lemma zero_junk: "uninit st = (\<lambda>_. 0) \<Longrightarrow> automatic n st = replicate n 0"
  by (simp add: automatic_def map_replicate_const)

theorem shell_is_read_only_witness:
  "\<exists>st'. main [] (Some []) (\<lambda>_. 0) (''exit'' @ newline) = ret (0, st') \<and> img_of st' = [] \<and>
    length (current_directory st') < 1024"
proof -
  obtain pt st1 where 1: "read_partitions (zero_fat [] (\<lambda>_. 0)) = (pt, st1)" by fastforce
  obtain bs st2 where 2: "read_boot_sector pt st1 = (bs, st2)" by fastforce
  have st1: "img_of st1 = []" "uninit st1 = (\<lambda>_. 0)"
    using 1 by (auto simp: read_partitions_def read_empty zero_fat_def seek_def)
  then have "bs = boot_of (replicate 512 0)"
    using 2 zero_junk [OF st1(2)] by (auto simp: read_boot_sector_def read_empty)
  then have bs: "root_dir_entries bs = 0" by (simp add: boot_of_def bytes_at_def le16_def numeral_2_eq_2)
  let ?st3 = "find_root bs st2"
  have "print_tree_at pt bs (Root_loop 0 0 e) st = ret st" for e st
    by (subst print_tree_at.simps) (simp add: bs)
  then have "\<exists>st4. print_tree pt bs ?st3 = ret st4"
    unfolding print_tree_def by (subst print_tree_at.simps) simp
  then obtain st4 where st4: "print_tree pt bs ?st3 = ret st4" by blast
  have "run_loop pt bs (''exit'' @ newline @ []) (seek (root_directory_offset st4) st4) =
      ret (0, puts (prompt (seek (root_directory_offset st4) st4)) (seek (root_directory_offset st4) st4))"
    using getline_one_line [of "''exit''" "[]"] chomp_one_line [of "''exit''"]
    by (subst run_loop.simps) (simp add: Let_def cstr_def one_line_def)
  then have run: "main [] (Some []) (\<lambda>_. 0) (''exit'' @ newline) =
      ret (0, puts (prompt (seek (root_directory_offset st4) st4)) (seek (root_directory_offset st4) st4))"
    using st4 by (simp add: main_def 1 2 run_def)
  from shell_is_read_only [OF run] run show ?thesis by blast
qed

text \<open>A disk of one partition at sector 0 with a boot sector of two FATs and 16 root entries.\<close>

definition boot_img :: "byte list" where
  "boot_img = replicate 11 0 @ [0, 2, 1, 1, 0, 2, 16, 0, 0, 0, 0, 1, 0] @ replicate 488 0"

lemma zeros_at: "bytes_at (xs @ replicate n 0) (length xs + k) m = replicate (min m (n - k)) (0 :: byte)"
  by (simp add: bytes_at_def min_def)

theorem regions_in_order_witness:
  "\<exists>pt bs st1 st2. read_partitions (zero_fat boot_img (\<lambda>_. 0)) = (pt, st1) \<and> read_boot_sector pt st1 = (bs, st2) \<and>
    root_directory_offset (find_root bs st2) = 1536 \<and> first_data_sector pt bs = ret 2048"
proof -
  let ?st = "zero_fat boot_img (\<lambda>_. 0)"
  obtain pt st1 where 1: "read_partitions ?st = (pt, st1)" by fastforce
  obtain bs st2 where 2: "read_boot_sector pt st1 = (bs, st2)" by fastforce
  have l: "length boot_img = 512" by (simp add: boot_img_def)
  have b: "bytes_at boot_img 446 64 = replicate 64 0"
    unfolding boot_img_def append_assoc [symmetric]
    using zeros_at [of "replicate 11 0 @ [0, 2, 1, 1, 0, 2, 16, 0, 0, 0, 0, 1, 0]" 488 422 64] by simp
  have "read_bytes 64 (automatic 64 ?st) (seek 0x1BE ?st) = (replicate 64 0, at_pos 510 ?st)"
    using l b by (simp add: seek_nonneg read_bytes_full)
  then have pt: "start_sector (pt ! 0) = 0" "img_of st1 = boot_img"
    using 1 by (auto simp: read_partitions_def partition_of_def bytes_at_def le32_def eval_nat_numeral)
  have "bs = boot_of (bytes_at boot_img 0 512)"
    using 2 pt l by (auto simp: read_boot_sector_def seek_nonneg read_bytes_full u32_of_def)
  then have "bs = boot_of boot_img" using l by (simp add: bytes_at_all)
  then have bs: "sector_size bs = 512" "reserved_sectors bs = 1" "number_of_fats bs = 2" "root_dir_entries bs = 16"
    "fat_size_sectors bs = 1"
    by (simp_all add: boot_of_def boot_img_def bytes_at_def le16_def nth_append)
  have "root_directory_offset (find_root bs st2) = 1536 \<and> first_data_sector pt bs = ret 2048"
    using regions_in_order [OF 1 2, of 0] by (simp add: pt bs l)
  then show ?thesis using 1 2 by blast
qed

end
