(* ===== verification/Http_Request.thy ===== *)
theory Http_Request
  imports Cformat
begin

text \<open>
  \<open>Request\<close> of \<open>http_server/http\<close>: splitting strings, parsing the head of a request, and what
  the server asks a request. A \<open>std::map\<close> is a map, a \<open>std::vector\<close> a list; an index out of
  range faults, an exception is the fault \<open>Uncaught\<close>, since nothing in the server catches one.
\<close>

section \<open>Strings\<close>

text \<open>\<open>std::string::find\<close>: the place of the first occurrence.\<close>

primrec find_sub :: "string \<Rightarrow> string \<Rightarrow> nat option" where
  "find_sub d [] = (if d = [] then Some 0 else None)"
| "find_sub d (c # s) = (if take (length d) (c # s) = d then Some 0 else map_option Suc (find_sub d s))"

definition iscntrl :: "char \<Rightarrow> bool" where
  "iscntrl c \<longleftrightarrow> (of_char c :: nat) < 32 \<or> (of_char c :: nat) = 127"

definition strip_cntrl :: "string \<Rightarrow> string" where
  "strip_cntrl s = filter (\<lambda>c. \<not> iscntrl c) s"

lemma find_sub_Some: "find_sub d s = Some p \<Longrightarrow> p + length d \<le> length s \<and> take (length d) (drop p s) = d"
proof (induction s arbitrary: p)
  case (Cons c s)
  show ?case
  proof (cases "take (length d) (c # s) = d")
    case True
    then have "length d \<le> length (c # s)" by (metis length_take min.cobounded1)
    then show ?thesis using True Cons.prems by auto
  next
    case False
    then show ?thesis using Cons.prems Cons.IH by auto
  qed
qed (auto split: if_splits)

text \<open>
  \<open>string_split\<close>: the tokens before the last lose their control characters. Its reference
  argument holds the last token afterwards. With an empty delimiter the loop does not end.
\<close>

function string_split :: "string \<Rightarrow> string \<Rightarrow> string list res" where
  "string_split delim inp =
     (if delim = [] then None
      else case find_sub delim inp of
             None \<Rightarrow> ret [inp]
           | Some p \<Rightarrow> res_bind (string_split delim (drop (p + length delim) inp))
                         (\<lambda>ts. ret (strip_cntrl (take p inp) # ts)))"
  by pat_completeness auto
termination
proof (relation "measure (\<lambda>(d, s). length s)")
  fix d s p assume "d \<noteq> []" "find_sub d s = Some p"
  then show "((d, drop (p + length d) s), d, s) \<in> measure (\<lambda>(d, s). length s)"
    using find_sub_Some [of d s p] by (cases d) auto
qed simp

declare string_split.simps [simp del]

section \<open>The request\<close>

datatype RequestType = GET | POST | HEAD | OPTIONS | PUT | DELETE

definition string_to_type :: "(string \<times> RequestType) list" where
  "string_to_type = [(''GET'', GET), (''POST'', POST), (''OPTIONS'', OPTIONS), (''HEAD'', HEAD),
                     (''PUT'', PUT), (''DELETE'', DELETE)]"

definition type_to_string :: "RequestType \<Rightarrow> string" where
  "type_to_string t = (case t of GET \<Rightarrow> ''GET'' | POST \<Rightarrow> ''POST'' | OPTIONS \<Rightarrow> ''OPTIONS''
     | HEAD \<Rightarrow> ''HEAD'' | PUT \<Rightarrow> ''PUT'' | DELETE \<Rightarrow> ''DELETE'')"

text \<open>\<open>std::map::at\<close> throws if there is no such key.\<close>

definition to_request_type :: "string \<Rightarrow> RequestType res" where
  "to_request_type s = (case map_of string_to_type s of None \<Rightarrow> fail Uncaught | Some t \<Rightarrow> ret t)"

text \<open>The type has no initial value: \<open>None\<close>.\<close>

record request =
  req_type :: "RequestType option"
  req_path :: string
  req_version :: string
  req_fields :: "string \<Rightarrow> string option"
  req_boundary :: string

definition new_request :: request where
  "new_request = \<lparr>req_type = None, req_path = [], req_version = [], req_fields = Map.empty, req_boundary = []\<rparr>"

definition element :: "'a list \<Rightarrow> nat \<Rightarrow> 'a res" where
  "element xs i = (if i < length xs then ret (xs ! i) else fail OutOfBounds)"

primrec add_fields :: "string list \<Rightarrow> (string \<Rightarrow> string option) \<Rightarrow> (string \<Rightarrow> string option) res" where
  "add_fields [] m = ret m"
| "add_fields (l # ls) m =
     res_bind (string_split '': '' l) (\<lambda>tokens.
       if length tokens = 1 then add_fields ls m
       else res_bind (element tokens 0) (\<lambda>name. res_bind (element tokens 1) (\<lambda>val.
              add_fields ls (m(name \<mapsto> val)))))"

primrec find_boundary :: "string list \<Rightarrow> string \<Rightarrow> string res" where
  "find_boundary [] b = ret b"
| "find_boundary (t # ts) b =
     (if find_sub ''boundary'' t \<noteq> None
      then res_bind (string_split ''='' t) (\<lambda>parts. res_bind (element parts 1) (find_boundary ts))
      else find_boundary ts b)"

definition parse :: "string \<Rightarrow> request \<Rightarrow> request res" where
  "parse req r =
     res_bind (string_split newline req) (\<lambda>lines.
       if length lines = 0 then ret r
       else
         res_bind (string_split '' '' (lines ! 0)) (\<lambda>tokens.
         res_bind (element tokens 0) (\<lambda>tok0. res_bind (to_request_type tok0) (\<lambda>t.
         res_bind (element tokens 1) (\<lambda>p. res_bind (element tokens 2) (\<lambda>v.
         res_bind (add_fields (tl lines) (req_fields r)) (\<lambda>m.
           let r1 = r\<lparr>req_type := Some t, req_path := p, req_version := v, req_fields := m\<rparr> in
           case m ''Content-Type'' of
             None \<Rightarrow> ret r1
           | Some ct \<Rightarrow>
               res_bind (string_split ''; '' ct) (\<lambda>params.
               res_bind (find_boundary params (req_boundary r)) (\<lambda>b.
                 ret (r1\<lparr>req_fields := m(''Content-Type'' \<mapsto> last params), req_boundary := b\<rparr>))))))))))"

definition get_type :: "request \<Rightarrow> RequestType res" where
  "get_type r = (case req_type r of None \<Rightarrow> fail UninitRead | Some t \<Rightarrow> ret t)"

definition get_type_as_string :: "request \<Rightarrow> string res" where
  "get_type_as_string r = res_bind (get_type r) (\<lambda>t. ret (type_to_string t))"

definition has_path :: "request \<Rightarrow> bool" where
  "has_path r \<longleftrightarrow> length (req_path r) > 1"

definition get_field :: "request \<Rightarrow> string \<Rightarrow> string" where
  "get_field r f = (case req_fields r f of None \<Rightarrow> [] | Some v \<Rightarrow> v)"

definition keep_alive :: "request \<Rightarrow> bool" where
  "keep_alive r \<longleftrightarrow>
     (if req_fields r ''Connection'' \<noteq> None then the (req_fields r ''Connection'') = ''keep-alive'' else False)"

text \<open>\<open>substr(find_last_of(delim) + 1)\<close>; the whole string if there is none, since \<open>npos + 1\<close> is 0.\<close>

definition after_last :: "char \<Rightarrow> string \<Rightarrow> string" where
  "after_last c s = (if c \<in> set s then rev (takeWhile (\<lambda>x. x \<noteq> c) (rev s)) else s)"

definition get_path_extension :: "request \<Rightarrow> string" where
  "get_path_extension r = after_last CHR ''.'' (req_path r)"

definition is_script :: "request \<Rightarrow> bool" where
  "is_script r \<longleftrightarrow> get_path_extension r = ''py'' \<or> get_path_extension r = ''sh'' \<or> get_path_extension r = ''php''"

section \<open>Splitting is the inverse of joining\<close>

fun join :: "string \<Rightarrow> string list \<Rightarrow> string" where
  "join d [] = []"
| "join d [t] = t"
| "join d (t # u # ts) = t @ d @ join d (u # ts)"

lemma join_Cons: "ts \<noteq> [] \<Longrightarrow> join d (t # ts) = t @ d @ join d ts"
  by (cases ts) auto

definition pieces :: "string list \<Rightarrow> string list" where
  "pieces raw = map strip_cntrl (butlast raw) @ [last raw]"

lemma pieces_simps [simp]: "pieces [t] = [t]" "ts \<noteq> [] \<Longrightarrow> pieces (t # ts) = strip_cntrl t # pieces ts"
  by (simp_all add: pieces_def)

lemma length_pieces [simp]: "raw \<noteq> [] \<Longrightarrow> length (pieces raw) = length raw"
  by (simp add: pieces_def)

lemma find_sub_None: "find_sub d s = None \<Longrightarrow> s \<noteq> a @ d @ b"
proof (induction s arbitrary: a)
  case (Cons c s)
  show ?case
  proof
    assume eq: "c # s = a @ d @ b"
    show False
    proof (cases a)
      case Nil
      then have "take (length d) (c # s) = d" using eq by simp
      then show ?thesis using Cons.prems by simp
    next
      case (Cons x a')
      then show ?thesis using eq Cons.prems Cons.IH by (auto split: if_splits)
    qed
  qed
qed (auto split: if_splits)

lemma find_sub_first: "find_sub d s = Some p \<Longrightarrow> i < p \<Longrightarrow> take (length d) (drop i s) \<noteq> d"
proof (induction s arbitrary: p i)
  case (Cons c s)
  then show ?case by (cases i) (auto split: if_splits)
qed (auto split: if_splits)

lemma string_split_cases:
  "d \<noteq> [] \<Longrightarrow> find_sub d inp = None \<Longrightarrow> string_split d inp = ret [inp]"
  "d \<noteq> [] \<Longrightarrow> find_sub d inp = Some p \<Longrightarrow> string_split d inp =
     res_bind (string_split d (drop (p + length d) inp)) (\<lambda>ts. ret (strip_cntrl (take p inp) # ts))"
  by (simp_all add: string_split.simps)

lemma string_split_pieces:
  "d \<noteq> [] \<Longrightarrow> \<exists>raw. raw \<noteq> [] \<and> inp = join d raw \<and> string_split d inp = ret (pieces raw) \<and>
     (\<forall>t\<in>set raw. find_sub d t = None)"
proof (induction d inp rule: string_split.induct)
  case (1 d inp)
  show ?case
  proof (cases "find_sub d inp")
    case None
    then show ?thesis using 1(2) by (intro exI [of _ "[inp]"]) (simp add: string_split_cases)
  next
    case (Some p)
    obtain raw where raw: "raw \<noteq> []" "drop (p + length d) inp = join d raw"
      "string_split d (drop (p + length d) inp) = ret (pieces raw)" "\<forall>t\<in>set raw. find_sub d t = None"
      using 1(1) [OF 1(2) Some 1(2)] by blast
    have occ: "p + length d \<le> length inp" "take (length d) (drop p inp) = d"
      using find_sub_Some [OF Some] by auto
    have "inp = take p inp @ d @ join d raw"
      using occ raw(2) by (metis append_take_drop_id drop_drop add.commute)
    moreover have "find_sub d (take p inp) = None"
    proof (cases "find_sub d (take p inp)")
      case (Some q)
      note q = find_sub_Some [OF Some]
      then have "q < p" using 1(2) occ by (cases d) auto
      moreover have "take (length d) (drop q inp) = d"
        using q occ by (auto simp: drop_take min_def split: if_splits)
      ultimately show ?thesis using find_sub_first [OF \<open>find_sub d inp = Some p\<close>] by blast
    qed simp
    ultimately show ?thesis
      using raw Some 1(2) by (intro exI [of _ "take p inp # raw"]) (simp add: string_split_cases join_Cons)
  qed
qed

text \<open>
  \<open>string_split\<close> takes the text apart and loses nothing but control characters: the
  tokens it returns are the pieces of a text that was joined with the delimiter, no piece
  contains the delimiter, and only the last piece keeps its control characters. It ends for
  every delimiter that is not empty.
\<close>

lemma string_split_inverts_join:
  assumes "delim \<noteq> []"
  shows "\<exists>raw. raw \<noteq> [] \<and> inp = join delim raw \<and> (\<forall>t\<in>set raw. \<forall>a b. t \<noteq> a @ delim @ b) \<and>
    string_split delim inp = ret (map strip_cntrl (butlast raw) @ [last raw])"
proof -
  obtain raw where "raw \<noteq> []" "inp = join delim raw" "string_split delim inp = ret (pieces raw)"
    "\<forall>t\<in>set raw. find_sub delim t = None" using string_split_pieces [OF assms] by blast
  then show ?thesis
    using find_sub_None by (intro exI [of _ raw]) (simp add: pieces_def)
qed

lemma string_split_inverts_join_witness:
  "\<exists>raw. raw \<noteq> [] \<and> ''a, b'' = join '', '' raw \<and>
    string_split '', '' ''a, b'' = ret (map strip_cntrl (butlast raw) @ [last raw])"
  using string_split_inverts_join [of "'', ''" "''a, b''"] by blast

text \<open>Which pieces they are, if the first character of the delimiter does not occur in them.\<close>

lemma find_sub_skip: "c \<notin> set t \<Longrightarrow> find_sub (c # d) (t @ s) = map_option ((+) (length t)) (find_sub (c # d) s)"
proof (induction t)
  case Nil
  then show ?case by (cases "find_sub (c # d) s") auto
next
  case (Cons x t)
  then show ?case by (cases "find_sub (c # d) s") auto
qed

lemma find_sub_at [simp]: "find_sub d (d @ s) = Some 0"
proof -
  have "take (length d) (d @ s) = d" by simp
  then show ?thesis by (cases "d @ s") (simp_all only: find_sub.simps, simp_all)
qed

lemma find_sub_absent: "c \<notin> set t \<Longrightarrow> find_sub (c # d) t = None"
  using find_sub_skip [of c t d "[]"] by simp

lemma string_split_join:
  assumes "\<And>t. t \<in> set (butlast raw) \<Longrightarrow> c \<notin> set t" "find_sub (c # d) (last raw) = None" "raw \<noteq> []"
  shows "string_split (c # d) (join (c # d) raw) = ret (pieces raw)"
  using assms
proof (induction raw)
  case (Cons t raw)
  show ?case
  proof (cases "raw = []")
    case True
    then show ?thesis using Cons.prems(2) by (simp add: string_split_cases)
  next
    case False
    then have t: "c \<notin> set t" using Cons.prems(1) by simp
    have "find_sub (c # d) (t @ (c # d) @ join (c # d) raw) = Some (length t)"
      using find_sub_skip [OF t, of d "(c # d) @ join (c # d) raw"] find_sub_at [of "c # d"] by simp
    moreover have "string_split (c # d) (join (c # d) raw) = ret (pieces raw)"
      using False Cons.prems by (intro Cons.IH) auto
    ultimately show ?thesis
      using False by (simp add: join_Cons string_split_cases)
  qed
qed simp

section \<open>Parsing what a browser sends\<close>

definition crlf :: string where
  "crlf = [CHR 0x0D, CHR 0x0A]"

definition header_line :: "string \<times> string \<Rightarrow> string" where
  "header_line h = fst h @ '': '' @ snd h"

definition request_text :: "RequestType \<Rightarrow> string \<Rightarrow> string \<Rightarrow> (string \<times> string) list \<Rightarrow> string" where
  "request_text t p v hs =
     type_to_string t @ '' '' @ p @ '' '' @ v @ crlf @ concat (map (\<lambda>h. header_line h @ crlf) hs) @ crlf"

text \<open>A word has no control characters and not the character given.\<close>

definition word_without :: "char \<Rightarrow> string \<Rightarrow> bool" where
  "word_without c s \<longleftrightarrow> c \<notin> set s \<and> (\<forall>x\<in>set s. \<not> iscntrl x)"

definition good_header :: "string \<times> string \<Rightarrow> bool" where
  "good_header h \<longleftrightarrow> word_without CHR '':'' (fst h) \<and> (\<forall>x\<in>set (snd h). \<not> iscntrl x) \<and> find_sub '': '' (snd h) = None"

lemma strip_id [simp]: "\<forall>x\<in>set s. \<not> iscntrl x \<Longrightarrow> strip_cntrl s = s"
  by (simp add: strip_cntrl_def filter_id_conv)

lemma cntrl_LF [simp]: "iscntrl CHR 0x0A" "iscntrl CHR 0x0D" "\<not> iscntrl CHR '' ''" "\<not> iscntrl CHR '':''"
  by (simp_all add: iscntrl_def of_char_def)

lemma strip_append [simp]: "strip_cntrl (s @ t) = strip_cntrl s @ strip_cntrl t" "strip_cntrl [CHR 0x0D] = []"
  by (simp_all add: strip_cntrl_def)

lemma no_cntrl_LF: "\<forall>x\<in>set s. \<not> iscntrl x \<Longrightarrow> CHR 0x0A \<notin> set s"
  using cntrl_LF(1) by blast

text \<open>The lines of the text.\<close>

lemma join_lines: "concat (map (\<lambda>l. l @ [CHR 0x0D] @ newline) ls) = join newline (map (\<lambda>l. l @ [CHR 0x0D]) ls @ [[]])"
proof (induction ls)
  case (Cons l ls)
  then show ?case by (simp add: join_Cons)
qed simp

lemma lines_of_text:
  assumes "\<And>l. l \<in> set ls \<Longrightarrow> \<forall>x\<in>set l. \<not> iscntrl x"
  shows "string_split newline (concat (map (\<lambda>l. l @ [CHR 0x0D] @ newline) ls)) = ret (ls @ [[]])"
proof -
  let ?raw = "map (\<lambda>l. l @ [CHR 0x0D]) ls @ [[]]"
  have "string_split (CHR 0x0A # []) (join (CHR 0x0A # []) ?raw) = ret (pieces ?raw)"
    using assms no_cntrl_LF by (intro string_split_join) auto
  moreover have "pieces ?raw = ls @ [[]]"
    using assms by (auto simp: pieces_def intro!: map_idI)
  ultimately show ?thesis unfolding join_lines by (simp only: newline_def)
qed

lemma add_fields_headers:
  assumes "\<And>h. h \<in> set hs \<Longrightarrow> good_header h"
  shows "add_fields (map header_line hs @ [[], []]) m = ret (m ++ map_of (rev hs))"
  using assms
proof (induction hs arbitrary: m)
  case Nil
  have "string_split '': '' [] = ret [[]]" by (simp add: string_split_cases)
  then show ?case by simp
next
  case (Cons h hs)
  have "string_split '': '' (header_line h) = ret (pieces [fst h, snd h])"
    using string_split_join [of "[fst h, snd h]" "CHR '':''" "'' ''"] Cons.prems [of h]
    by (simp add: header_line_def good_header_def word_without_def)
  then have "string_split '': '' (header_line h) = ret [fst h, snd h]"
    using Cons.prems [of h] by (simp add: good_header_def word_without_def)
  then have "add_fields (map header_line (h # hs) @ [[], []]) m =
      add_fields (map header_line hs @ [[], []]) (m(fst h \<mapsto> snd h))"
    by (simp add: element_def)
  also have "\<dots> = ret (m(fst h \<mapsto> snd h) ++ map_of (rev hs))" using Cons by simp
  finally show ?case by (cases h) simp
qed

lemma type_to_string_word [simp]:
  "CHR '' '' \<notin> set (type_to_string t)" "x \<in> set (type_to_string t) \<Longrightarrow> \<not> iscntrl x"
  "to_request_type (type_to_string t) = ret t"
  by (cases t; auto simp: type_to_string_def to_request_type_def string_to_type_def iscntrl_def of_char_def)+

definition content_type_result ::
  "(string \<Rightarrow> string option) \<Rightarrow> request \<Rightarrow> request res" where
  "content_type_result m r =
     (case m ''Content-Type'' of
        None \<Rightarrow> ret r
      | Some ct \<Rightarrow> res_bind (string_split ''; '' ct) (\<lambda>params. res_bind (find_boundary params []) (\<lambda>b.
          ret (r\<lparr>req_fields := m(''Content-Type'' \<mapsto> last params), req_boundary := b\<rparr>))))"

lemma parse_text:
  assumes p: "word_without CHR '' '' p" and v: "word_without CHR '' '' v" and hs: "\<And>h. h \<in> set hs \<Longrightarrow> good_header h"
  shows "parse (request_text t p v hs) new_request = content_type_result (map_of (rev hs))
    \<lparr>req_type = Some t, req_path = p, req_version = v, req_fields = map_of (rev hs), req_boundary = []\<rparr>"
proof -
  let ?first = "type_to_string t @ '' '' @ p @ '' '' @ v"
  have whole: "request_text t p v hs = concat (map (\<lambda>l. l @ [CHR 0x0D] @ newline) (?first # map header_line hs @ [[]]))"
    by (simp add: request_text_def crlf_def newline_def comp_def)
  have good: "\<forall>x\<in>set l. \<not> iscntrl x" if "l \<in> set (?first # map header_line hs @ [[]])" for l
    using that p v hs type_to_string_word(2) [of _ t] unfolding set_simps set_append set_map
    by (fastforce simp: word_without_def good_header_def header_line_def)
  have "string_split newline (request_text t p v hs) = ret ((?first # map header_line hs @ [[]]) @ [[]])"
    unfolding whole by (rule lines_of_text) (rule good)
  then have lines: "string_split newline (request_text t p v hs) = ret (?first # map header_line hs @ [[], []])"
    by simp
  have "string_split '' '' (join '' '' [type_to_string t, p, v]) = ret (pieces [type_to_string t, p, v])"
    by (rule string_split_join) (use p v in \<open>auto simp: word_without_def find_sub_absent\<close>)
  then have tokens: "string_split '' '' ?first = ret [type_to_string t, p, v]"
    using p type_to_string_word(2) [of _ t] by (simp add: word_without_def)
  have fields: "add_fields (map header_line hs @ [[], []]) Map.empty = ret (map_of (rev hs))"
    using add_fields_headers [OF hs] by simp
  show ?thesis
    by (simp add: parse_def lines tokens [simplified] element_def fields new_request_def content_type_result_def
        cong: option.case_cong)
qed

text \<open>
  The parameters of a content type: none of them has a semicolon, and one that mentions a
  boundary has the form \<open>boundary=B\<close>. The last of these counts.
\<close>

definition good_param :: "string \<Rightarrow> bool" where
  "good_param x \<longleftrightarrow> CHR '';'' \<notin> set x \<and>
     (find_sub ''boundary'' x = None \<or> take 9 x = ''boundary='' \<and> CHR ''='' \<notin> set (drop 9 x))"

definition declared_boundary :: "string list \<Rightarrow> string \<Rightarrow> string" where
  "declared_boundary = fold (\<lambda>x b. if take 9 x = ''boundary='' then drop 9 x else b)"

lemma declared_boundary_simps [simp]:
  "declared_boundary [] b = b"
  "declared_boundary (x # xs) b = declared_boundary xs (if take 9 x = ''boundary='' then drop 9 x else b)"
  by (simp_all add: declared_boundary_def)

lemma find_boundary_declared:
  "\<forall>x\<in>set ps. good_param x \<Longrightarrow> find_boundary ps b = ret (declared_boundary ps b)"
proof (induction ps arbitrary: b)
  case (Cons x ps)
  show ?case
  proof (cases "take 9 x = ''boundary=''")
    case True
    then have x: "x = ''boundary='' @ drop 9 x" by (metis append_take_drop_id)
    have "find_sub ''boundary'' x \<noteq> None"
      using find_sub_at [of "''boundary''" "''='' @ drop 9 x"] x by (metis append.assoc append_Cons append_Nil option.distinct(1))
    moreover have eq: "CHR ''='' \<notin> set (drop 9 x)" using Cons.prems calculation by (auto simp: good_param_def)
    have "string_split ''='' (join ''='' [''boundary'', drop 9 x]) = ret (pieces [''boundary'', drop 9 x])"
      by (rule string_split_join) (use eq in \<open>auto simp: find_sub_absent\<close>)
    moreover have "join ''='' [''boundary'', drop 9 x] = x" using x by simp
    ultimately have "find_boundary (x # ps) b = find_boundary ps (drop 9 x)" by (simp add: element_def)
    then show ?thesis using Cons True by simp
  next
    case False
    then have "find_sub ''boundary'' x = None" using Cons.prems by (simp add: good_param_def)
    then show ?thesis using Cons False by simp
  qed
qed simp

lemma join_chars: "x \<in> set ps \<Longrightarrow> set x \<subseteq> set (join d ps)"
  by (induction d ps rule: join.induct) auto

lemma split_params:
  assumes "ps \<noteq> []" "\<forall>x\<in>set ps. CHR '';'' \<notin> set x" "\<forall>c\<in>set (join ''; '' ps). \<not> iscntrl c"
  shows "string_split ''; '' (join ''; '' ps) = ret ps"
proof -
  have "string_split ''; '' (join ''; '' ps) = ret (pieces ps)"
    by (rule string_split_join) (use assms(1,2) find_sub_absent [of "CHR '';''" "last ps" "'' ''"] in \<open>auto dest: in_set_butlastD\<close>)
  moreover have "map strip_cntrl (butlast ps) = butlast ps"
  proof (rule map_idI)
    fix x assume "x \<in> set (butlast ps)"
    then have "set x \<subseteq> set (join ''; '' ps)" using join_chars [of x ps "''; ''"] by (auto dest: in_set_butlastD)
    then show "strip_cntrl x = x" using assms(3) by (intro strip_id) blast
  qed
  ultimately show ?thesis using assms(1) by (simp add: pieces_def)
qed

lemma parse_params:
  assumes "word_without CHR '' '' p" "word_without CHR '' '' v" "\<And>h. h \<in> set hs \<Longrightarrow> good_header h"
    and ct: "map_of (rev hs) ''Content-Type'' = Some (join ''; '' ps)" "ps \<noteq> []" "\<forall>x\<in>set ps. good_param x"
  shows "parse (request_text t p v hs) new_request =
    ret \<lparr>req_type = Some t, req_path = p, req_version = v,
         req_fields = (map_of (rev hs))(''Content-Type'' \<mapsto> last ps), req_boundary = declared_boundary ps []\<rparr>"
proof -
  have "(''Content-Type'', join ''; '' ps) \<in> set hs" using map_of_SomeD [OF ct(1)] by simp
  then have "\<forall>c\<in>set (join ''; '' ps). \<not> iscntrl c" using assms(3) by (fastforce simp: good_header_def)
  then have "string_split ''; '' (join ''; '' ps) = ret ps"
    using ct(2,3) by (intro split_params) (auto simp: good_param_def)
  then show ?thesis
    using parse_text [where hs = hs, OF assms(1-3), of t] find_boundary_declared [OF ct(3), of "[]"]
    by (simp add: content_type_result_def ct(1))
qed

lemma parse_multipart:
  assumes "word_without CHR '' '' p" "word_without CHR '' '' v" "\<And>h. h \<in> set hs \<Longrightarrow> good_header h"
    and ct: "map_of (rev hs) ''Content-Type'' = Some (kind @ ''; boundary='' @ b)"
    and "CHR '';'' \<notin> set kind" "find_sub ''boundary'' kind = None" "CHR '';'' \<notin> set b" "CHR ''='' \<notin> set b"
  shows "parse (request_text t p v hs) new_request =
    ret \<lparr>req_type = Some t, req_path = p, req_version = v,
         req_fields = (map_of (rev hs))(''Content-Type'' \<mapsto> ''boundary='' @ b), req_boundary = b\<rparr>"
proof -
  have "map_of (rev hs) ''Content-Type'' = Some (join ''; '' [kind, ''boundary='' @ b])" using ct by simp
  moreover have "\<forall>x\<in>set [kind, ''boundary='' @ b]. good_param x" using assms(5-8) by (simp add: good_param_def)
  ultimately have "parse (request_text t p v hs) new_request = ret \<lparr>req_type = Some t, req_path = p, req_version = v,
      req_fields = (map_of (rev hs))(''Content-Type'' \<mapsto> last [kind, ''boundary='' @ b]),
      req_boundary = declared_boundary [kind, ''boundary='' @ b] []\<rparr>"
    using parse_params [where ps = "[kind, ''boundary='' @ b]" and hs = hs, OF assms(1-3)] by blast
  then show ?thesis by simp
qed

text \<open>
  Claim C18. \<open>parse\<close> reads what a browser sends: from the text of a request line and header
  lines, each ended by carriage return and newline, with an empty line at the end, it gets
  the method, the path, the version and the map of the headers, where a header that is
  repeated has its last value. With a content type of the parameters \<open>ps\<close>, the boundary
  they declare last is stored too; but of the header itself only the last parameter is left.
  So without a content type, and with one that has no further parameter, the headers are kept as
  they are.
\<close>

theorem parse_reads_request:
  assumes "word_without CHR '' '' p" "word_without CHR '' '' v" "\<And>h. h \<in> set hs \<Longrightarrow> good_header h"
    and "map_of (rev hs) ''Content-Type'' = None \<or> map_of (rev hs) ''Content-Type'' = Some (join ''; '' ps)"
    and "ps \<noteq> []" "\<forall>x\<in>set ps. good_param x"
  shows "parse (request_text t p v hs) new_request =
    ret (if map_of (rev hs) ''Content-Type'' = None
      then \<lparr>req_type = Some t, req_path = p, req_version = v, req_fields = map_of (rev hs), req_boundary = []\<rparr>
      else \<lparr>req_type = Some t, req_path = p, req_version = v,
            req_fields = (map_of (rev hs))(''Content-Type'' \<mapsto> last ps), req_boundary = declared_boundary ps []\<rparr>)"
proof (cases "map_of (rev hs) ''Content-Type''")
  case None
  then show ?thesis using parse_text [OF assms(1-3)] by (simp add: content_type_result_def)
next
  case (Some ct)
  then show ?thesis using parse_params [where hs = hs and ps = ps, OF assms(1-3) _ assms(5,6)] assms(4) by simp
qed

theorem parse_reads_request_witness:
  "parse (request_text POST ''/up'' ''HTTP/1.1'' [(''Host'', ''x:8080''), (''Content-Type'', ''multipart/form-data; boundary=xyz'')]) new_request =
    ret \<lparr>req_type = Some POST, req_path = ''/up'', req_version = ''HTTP/1.1'',
         req_fields = [''Host'' \<mapsto> ''x:8080'', ''Content-Type'' \<mapsto> ''boundary=xyz''], req_boundary = ''xyz''\<rparr>"
proof -
  let ?hs = "[(''Host'', ''x:8080''), (''Content-Type'', ''multipart/form-data; boundary=xyz'')]"
  have h: "good_header h" if "h \<in> set ?hs" for h
    using that by (auto simp: good_header_def word_without_def iscntrl_def of_char_def)
  have ps: "\<forall>x\<in>set [''multipart/form-data'', ''boundary=xyz'']. good_param x" by (simp add: good_param_def)
  from parse_reads_request [where hs = ?hs and ps = "[''multipart/form-data'', ''boundary=xyz'']" and p = "''/up''"
      and v = "''HTTP/1.1''" and t = POST, OF _ _ h _ _ ps]
  show ?thesis by (simp add: word_without_def iscntrl_def of_char_def)
qed

text \<open>
  The boundary of an upload is found: with a content type \<open>KIND; boundary=B\<close> as
  browsers send it, \<open>parse\<close> stores \<open>B\<close> as the boundary. It spoils the header on the way: what
  is stored as content type afterwards is its last parameter, not the type.
\<close>

lemma parse_finds_boundary:
  assumes "word_without CHR '' '' p" "word_without CHR '' '' v" "\<And>h. h \<in> set hs \<Longrightarrow> good_header h"
    and ct: "map_of (rev hs) ''Content-Type'' = Some (kind @ ''; boundary='' @ b)"
    and "CHR '';'' \<notin> set kind" "find_sub ''boundary'' kind = None" "CHR '';'' \<notin> set b" "CHR ''='' \<notin> set b"
  shows "\<exists>r. parse (request_text t p v hs) new_request = ret r \<and> req_boundary r = b \<and> req_path r = p \<and>
    get_field r ''Content-Type'' = ''boundary='' @ b"
  using parse_multipart [OF assms] by (simp add: get_field_def)

lemma parse_finds_boundary_witness:
  "\<exists>r. parse (request_text POST ''/up'' ''HTTP/1.1'' [(''Content-Type'', ''multipart/form-data; boundary=xyz'')]) new_request = ret r \<and>
    req_boundary r = ''xyz'' \<and> get_field r ''Content-Type'' = ''boundary=xyz''"
proof -
  have "\<exists>r. parse (request_text POST ''/up'' ''HTTP/1.1'' [(''Content-Type'', ''multipart/form-data; boundary=xyz'')]) new_request = ret r \<and>
    req_boundary r = ''xyz'' \<and> req_path r = ''/up'' \<and> get_field r ''Content-Type'' = ''boundary='' @ ''xyz''"
    by (rule parse_finds_boundary [where kind = "''multipart/form-data''"])
      (auto simp: word_without_def good_header_def iscntrl_def of_char_def)
  then show ?thesis by auto
qed

section \<open>Requests that bring the server down\<close>

lemma string_split_not_None: "d \<noteq> [] \<Longrightarrow> \<exists>raw. raw \<noteq> [] \<and> string_split d s = ret (pieces raw)"
  using string_split_pieces by blast

definition ends :: "'a res \<Rightarrow> bool" where
  "ends m \<longleftrightarrow> m \<noteq> None"

lemma ends_simps [simp]: "ends (ret x)" "ends (fail e)" "ends (element xs i)"
  by (simp_all add: ends_def element_def ret_def fail_def)

lemma ends_bind [intro!]: "ends m \<Longrightarrow> (\<And>x. m = ret x \<Longrightarrow> ends (f x)) \<Longrightarrow> ends (res_bind m f)"
  by (cases m rule: res_cases) (simp_all, simp add: ends_def)

lemma split_ends [simp]: "d \<noteq> [] \<Longrightarrow> ends (string_split d s)"
  using string_split_not_None [of d s] by auto

lemma add_fields_ends [simp]: "ends (add_fields ls m)"
  by (induction ls arbitrary: m) auto

lemma find_boundary_ends [simp]: "ends (find_boundary ts b)"
  by (induction ts arbitrary: b) auto

lemma to_type_ends [simp]: "ends (to_request_type s)"
  by (simp add: to_request_type_def split: option.split)

lemma parse_ends: "ends (parse req r)"
  by (auto simp: parse_def Let_def newline_def split: option.split)

lemma parse_unknown:
  assumes "string_split newline req = ret lines" "string_split '' '' (lines ! 0) = ret tokens"
    and "tokens ! 0 \<notin> type_to_string ` UNIV"
  shows "parse req r = fail Uncaught"
proof -
  obtain raw raw' where "raw \<noteq> []" "lines = pieces raw" "raw' \<noteq> []" "tokens = pieces raw'"
    using string_split_not_None [of newline req] string_split_not_None [of "'' ''" "lines ! 0"] assms(1,2)
    by (auto simp: newline_def)
  then have "lines \<noteq> []" "tokens \<noteq> []" by (auto simp: pieces_def)
  moreover have "map_of string_to_type (tokens ! 0) = None"
  proof -
    have "fst ` set string_to_type = type_to_string ` {GET, POST, OPTIONS, HEAD, PUT, DELETE}"
      by (simp add: string_to_type_def type_to_string_def)
    then show ?thesis using assms(3) unfolding map_of_eq_None_iff by blast
  qed
  ultimately show ?thesis
    using assms(1,2) by (auto simp: parse_def element_def to_request_type_def)
qed

text \<open>
  \<open>parse\<close> ends on every text, but on most it ends the process: if the first word of
  the first line, without control characters, is none of the six methods, an exception leaves
  \<open>parse\<close>, and nothing in the server catches it.
\<close>

lemma parse_unknown_method_uncaught:
  assumes "string_split newline req = ret lines" "string_split '' '' (lines ! 0) = ret tokens"
    and "tokens ! 0 \<notin> type_to_string ` UNIV"
  shows "parse req r = fail Uncaught \<and> (\<forall>req' r'. parse req' r' \<noteq> None)"
  using parse_unknown [OF assms] parse_ends by (auto simp: ends_def)

lemma parse_unknown_method_uncaught_witness: "parse ''FETCH / HTTP/1.1'' new_request = fail Uncaught"
proof -
  have 1: "string_split newline ''FETCH / HTTP/1.1'' = ret [''FETCH / HTTP/1.1'']"
    by (simp add: newline_def string_split_cases)
  have "string_split '' '' (join '' '' [''FETCH'', ''/'', ''HTTP/1.1'']) = ret (pieces [''FETCH'', ''/'', ''HTTP/1.1''])"
    by (rule string_split_join) auto
  then have 2: "string_split '' '' ([''FETCH / HTTP/1.1''] ! 0) = ret [''FETCH'', ''/'', ''HTTP/1.1'']"
    by (simp add: strip_cntrl_def iscntrl_def of_char_def)
  have "[''FETCH'', ''/'', ''HTTP/1.1''] ! 0 \<notin> type_to_string ` UNIV"
    by (auto simp: type_to_string_def split: RequestType.splits)
  from parse_unknown_method_uncaught [OF 1 2 this] show ?thesis by simp
qed

section \<open>Scripts\<close>

lemma after_last_append: "c \<notin> set e \<Longrightarrow> after_last c (q @ c # e) = e"
proof -
  assume "c \<notin> set e"
  then have "takeWhile (\<lambda>x. x \<noteq> c) (rev e @ c # rev q) = rev e" by (subst takeWhile_append2) auto
  then show ?thesis by (simp add: after_last_def)
qed

lemma after_last_eq:
  assumes "c \<notin> set e"
  shows "after_last c p = e \<longleftrightarrow> p = e \<or> (\<exists>q. p = q @ c # e)"
proof (cases "c \<in> set p")
  case True
  then obtain q x where "p = q @ c # x" "c \<notin> set x" by (meson split_list_last)
  then show ?thesis using assms after_last_append by fastforce
qed (auto simp: after_last_def)

text \<open>
  What the server runs: a request is a script exactly if its path ends with
  \<open>.py\<close>, \<open>.sh\<close> or \<open>.php\<close>, or is one of these words without a dot. Any such path is run.
\<close>

lemma is_script_iff:
  "is_script r \<longleftrightarrow> (\<exists>e\<in>{''py'', ''sh'', ''php''}. req_path r = e \<or> (\<exists>q. req_path r = q @ ''.'' @ e))"
proof -
  have "get_path_extension r = e \<longleftrightarrow> req_path r = e \<or> (\<exists>q. req_path r = q @ ''.'' @ e)"
    if "e \<in> {''py'', ''sh'', ''php''}" for e
    unfolding get_path_extension_def using that after_last_eq [of "CHR ''.''" e] by auto
  then show ?thesis unfolding is_script_def by blast
qed

lemma is_script_iff_witness: "is_script (new_request\<lparr>req_path := ''/hi.php''\<rparr>)"
  using is_script_iff [of "new_request\<lparr>req_path := ''/hi.php''\<rparr>"] by (auto intro: exI [of _ "''/hi''"])

end
