(* ===== verification/Http_Response.thy ===== *)
theory Http_Response
  imports Http_Request
begin

text \<open>
  \<open>Response\<close> of \<open>http_server/http\<close>: loading a file, choosing the MIME type, and the texts of
  the responses. The file system is a function from paths to the contents of regular files.
  \<open>_content_length\<close> has no initial value, so a response that cannot load any page uses it
  unset.
\<close>

type_synonym files = "string \<Rightarrow> string option"

definition http_version :: string where
  "http_version = ''HTTP/1.1''"

definition default_directory :: string where
  "default_directory = ''www''"

definition mime_types :: "(string \<times> string) list" where
  "mime_types =
     [(''.html'', ''text/html''), (''.css'', ''text/css''), (''.js'', ''text/javascript''),
      (''.jpg'', ''image/jpeg''), (''.jpeg'', ''image/jpeg''), (''.png'', ''image/png''),
      (''.gif'', ''image/gif''), (''.bmp'', ''image/bmp''), (''.ico'', ''image/x-icon''),
      (''.svg'', ''image/svg+xml''), (''.pdf'', ''application/pdf''), (''.json'', ''application/json''),
      (''.xml'', ''application/xml''), (''.zip'', ''application/zip''), (''.gzip'', ''application/gzip''),
      (''.mp3'', ''audio/mpeg''), (''.wav'', ''audio/wav''), (''.mp4'', ''video/mp4''),
      (''.mpeg'', ''video/mpeg''), (''.webm'', ''video/webm''), (''.ogg'', ''video/ogg''), (''.flv'', ''video/x-flv'')]"

record response =
  resp_text :: string
  resp_content :: string
  resp_mime :: string
  resp_length :: "int option"

definition new_response :: response where
  "new_response = \<lparr>resp_text = [], resp_content = [], resp_mime = ''text/plain'', resp_length = None\<rparr>"

definition load_file :: "files \<Rightarrow> string \<Rightarrow> response \<Rightarrow> bool \<times> response" where
  "load_file fs path r =
     (case fs (default_directory @ path) of
        None \<Rightarrow> (False, r)
      | Some c \<Rightarrow> (True, r\<lparr>resp_length := Some (i32 (int (length c))), resp_content := c\<rparr>))"

definition set_mime_type :: "string \<Rightarrow> response \<Rightarrow> response" where
  "set_mime_type path r =
     (if CHR ''.'' \<notin> set path then r\<lparr>resp_mime := ''text/html''\<rparr>
      else case map_of mime_types (CHR ''.'' # after_last CHR ''.'' path) of
             None \<Rightarrow> r\<lparr>resp_mime := ''text/html''\<rparr>
           | Some m \<Rightarrow> r\<lparr>resp_mime := m\<rparr>)"

text \<open>The text every response is put together as.\<close>

definition message :: "string \<Rightarrow> int \<Rightarrow> string \<Rightarrow> string \<Rightarrow> string" where
  "message status len mime body =
     http_version @ status @ crlf @ ''Content-Length: '' @ show_int len @ crlf @ ''Content-Type: '' @ mime @
     crlf @ crlf @ body"

definition with_content :: "string \<Rightarrow> response \<Rightarrow> response res" where
  "with_content status r =
     (case resp_length r of
        None \<Rightarrow> fail UninitRead
      | Some len \<Rightarrow> ret (r\<lparr>resp_text := message status len (resp_mime r) (resp_content r)\<rparr>))"

definition create_string_response :: "string \<Rightarrow> response \<Rightarrow> response" where
  "create_string_response s r = r\<lparr>resp_text := message '' 200 OK'' (int (length s)) (resp_mime r) s\<rparr>"

definition create_not_found_response :: "files \<Rightarrow> response \<Rightarrow> response res" where
  "create_not_found_response fs r =
     (let (_, r1) = load_file fs ''/not_found.html'' r
      in with_content '' 404 Not Found'' (set_mime_type ''/not_found.html'' r1))"

definition create_file_response :: "files \<Rightarrow> string \<Rightarrow> response \<Rightarrow> response res" where
  "create_file_response fs path r =
     (let (loaded, r1) = load_file fs path r in
      if \<not> loaded then create_not_found_response fs r1
      else with_content '' 200 OK'' (set_mime_type path r1))"

definition create_service_unavailable_response :: "files \<Rightarrow> response \<Rightarrow> response res" where
  "create_service_unavailable_response fs r =
     (let (_, r1) = load_file fs ''/service_unavailable.html'' r
      in with_content '' 503 Service Unavailable'' (set_mime_type ''/service_unavailable.html'' r1))"

definition create_created_response :: "response \<Rightarrow> response" where
  "create_created_response r =
     (let s = ''received'' in r\<lparr>resp_text := message '' 201 CREATED'' (int (length s)) (resp_mime r) s\<rparr>)"

text \<open>The length is returned as an \<open>int\<close>.\<close>

definition get_response_length :: "response \<Rightarrow> int" where
  "get_response_length r = i32 (int (length (resp_text r)))"

section \<open>Reading a response\<close>

text \<open>What a client gets: the status, the declared length and the rest behind the empty line.\<close>

definition read_message :: "string \<Rightarrow> (string \<times> nat \<times> string) option" where
  "read_message s =
     (case find_sub (crlf @ crlf) s of
        None \<Rightarrow> None
      | Some p \<Rightarrow>
          let head = take p s; status = takeWhile (\<lambda>c. c \<noteq> CHR 0x0D) head;
              len = takeWhile (\<lambda>c. c \<noteq> CHR 0x0D) (drop (length status + 2 + length ''Content-Length: '') head)
          in Some (drop (length http_version + 1) status, read_nat len, drop (p + 4) s))"

definition no_CR :: "string \<Rightarrow> bool" where
  "no_CR s \<longleftrightarrow> CHR 0x0D \<notin> set s"

lemma takeWhile_no_CR: "no_CR s \<Longrightarrow> takeWhile (\<lambda>c. c \<noteq> CHR 0x0D) (s @ CHR 0x0D # r) = s"
  by (subst takeWhile_append2) (auto simp: no_CR_def)

lemma digit_no_CR: "d < 10 \<Longrightarrow> digit d \<noteq> CHR 0x0D"
proof
  assume "d < 10" "digit d = CHR 0x0D"
  then have "(of_char (char_of (d + 48)) :: nat) = of_char CHR 0x0D" by (simp add: digit_def)
  moreover have "(of_char CHR 0x0D :: nat) = 13" by (simp add: of_char_def)
  ultimately show False using \<open>d < 10\<close> by (simp add: of_char_of)
qed

lemma show_nat_no_CR [simp]: "no_CR (show_nat n)"
proof (induction n rule: less_induct)
  case (less n)
  show ?case
  proof (cases "n < 10")
    case True
    then show ?thesis by (simp add: show_nat_def show_base.simps [of 10 n] no_CR_def digit_no_CR [symmetric])
  next
    case False
    then have "show_nat n = show_nat (n div 10) @ [digit (n mod 10)]"
      by (simp add: show_nat_def show_base.simps [of 10 n])
    then show ?thesis using less [of "n div 10"] False by (simp add: no_CR_def digit_no_CR [symmetric])
  qed
qed

text \<open>The end of the head is its first empty line.\<close>

lemma crlf_skip: "no_CR s \<Longrightarrow> find_sub (crlf @ crlf) (s @ t) = map_option ((+) (length s)) (find_sub (crlf @ crlf) t)"
  using find_sub_skip [of "CHR 0x0D" s "[CHR 0x0A, CHR 0x0D, CHR 0x0A]" t] by (simp add: crlf_def no_CR_def)

lemma crlf_step:
  "s \<noteq> [] \<Longrightarrow> no_CR s \<Longrightarrow> find_sub (crlf @ crlf) (crlf @ s @ t) = map_option ((+) 2) (find_sub (crlf @ crlf) (s @ t))"
  by (cases s) (auto simp: crlf_def no_CR_def option.map_comp comp_def)

lemma end_of_head:
  assumes "ls \<noteq> []" "\<And>l. l \<in> set ls \<Longrightarrow> l \<noteq> [] \<and> no_CR l"
  shows "find_sub (crlf @ crlf) (concat (map (\<lambda>l. l @ crlf) ls) @ crlf @ body) =
    Some (length (concat (map (\<lambda>l. l @ crlf) ls)) - 2)"
  using assms
proof (induction ls rule: induct_list012)
  case (2 l)
  then show ?case using crlf_skip [of l "crlf @ crlf @ body"] find_sub_at [of "crlf @ crlf" body]
    by (simp add: crlf_def)
next
  case (3 l l2 ls)
  have n: "no_CR l" "l2 \<noteq> []" "no_CR l2" using 3(4) by simp_all
  have IH: "find_sub (crlf @ crlf) (concat (map (\<lambda>l. l @ crlf) (l2 # ls)) @ crlf @ body) =
      Some (length (concat (map (\<lambda>l. l @ crlf) (l2 # ls))) - 2)"
    using 3(4) by (intro 3(2)) auto
  have "length crlf = 2" by (simp add: crlf_def)
  then show ?case
    using crlf_skip [OF n(1)] crlf_step [OF n(2,3), of "crlf @ concat (map (\<lambda>l. l @ crlf) ls) @ crlf @ body"] IH
    by simp
qed simp

lemma find_crlf:
  assumes "no_CR a" "no_CR b" "no_CR c" "a \<noteq> []" "b \<noteq> []" "c \<noteq> []"
  shows "find_sub (crlf @ crlf) (a @ crlf @ b @ crlf @ c @ crlf @ crlf @ body) =
    Some (length a + 2 + length b + 2 + length c)"
proof -
  have "l \<noteq> [] \<and> no_CR l" if "l \<in> set [a, b, c]" for l using that assms by auto
  from end_of_head [where ls = "[a, b, c]" and body = body, OF _ this] show ?thesis by (simp add: crlf_def add.assoc)
qed

lemma length_crlf [simp]: "length crlf = 2"
  by (simp add: crlf_def)

lemma cut_message:
  "take (length a + 2 + length b + 2 + length c) (a @ crlf @ b @ crlf @ c @ crlf @ crlf @ body) = a @ crlf @ b @ crlf @ c"
  "drop (length a + 2 + length b + 2 + length c + 4) (a @ crlf @ b @ crlf @ c @ crlf @ crlf @ body) = body"
  "drop (length a + 2 + length b1) (a @ crlf @ (b1 @ b2) @ crlf @ c) = b2 @ crlf @ c"
  by simp_all

text \<open>Every message can be read back.\<close>

lemma read_message_back:
  assumes "no_CR status" "no_CR mime" "0 \<le> len"
  shows "read_message (message ('' '' @ status) len mime body) = Some (status, nat len, body)"
proof -
  let ?a = "http_version @ '' '' @ status" and ?b = "''Content-Length: '' @ show_nat (nat len)"
    and ?c = "''Content-Type: '' @ mime"
  have m: "message ('' '' @ status) len mime body = ?a @ crlf @ ?b @ crlf @ ?c @ crlf @ crlf @ body"
    using assms(3) by (simp add: message_def show_int_def)
  have n: "no_CR ?a" "no_CR ?b" "no_CR ?c"
    using assms(1,2) show_nat_no_CR [of "nat len"] by (auto simp: no_CR_def http_version_def)
  let ?p = "length ?a + 2 + length ?b + 2 + length ?c"
  have p: "find_sub (crlf @ crlf) (message ('' '' @ status) len mime body) = Some ?p"
    unfolding m by (rule find_crlf [OF n]) (simp_all add: http_version_def)
  have s: "takeWhile (\<lambda>c. c \<noteq> CHR 0x0D) (?a @ crlf @ ?b @ crlf @ ?c) = ?a"
    using takeWhile_no_CR [OF n(1)] by (simp add: crlf_def)
  have t: "takeWhile (\<lambda>c. c \<noteq> CHR 0x0D) (show_nat (nat len) @ crlf @ ?c) = show_nat (nat len)"
    using takeWhile_no_CR [OF show_nat_no_CR] by (simp add: crlf_def)
  show ?thesis
    unfolding read_message_def p option.case Let_def unfolding m cut_message s t by (simp add: http_version_def)
qed

section \<open>The responses\<close>

lemma mime_types_no_CR: "map_of mime_types e = Some m \<Longrightarrow> no_CR m"
proof -
  assume "map_of mime_types e = Some m"
  then have "m \<in> snd ` set mime_types" by (force dest: map_of_SomeD)
  then show ?thesis by (auto simp: mime_types_def no_CR_def)
qed

lemma set_mime_no_CR [simp]: "no_CR (resp_mime (set_mime_type path r))"
  by (auto simp: set_mime_type_def mime_types_no_CR split: option.split) (simp_all add: no_CR_def)

lemma set_mime_sel [simp]:
  "resp_length (set_mime_type path r) = resp_length r" "resp_content (set_mime_type path r) = resp_content r"
  by (auto simp: set_mime_type_def split: option.split)

definition delivers :: "response res \<Rightarrow> string \<Rightarrow> string \<Rightarrow> bool" where
  "delivers m status body \<longleftrightarrow>
     (\<exists>r. m = ret r \<and> read_message (resp_text r) = Some (status, length body, body))"

lemma with_content_delivers:
  assumes "resp_length r = Some (i32 (int (length c)))" "resp_content r = c" "length c < 2 ^ 31"
    and "no_CR status" "no_CR (resp_mime r)"
  shows "delivers (with_content ('' '' @ status) r) status c"
proof -
  have "i32 (int (length c)) = int (length c)" using assms(3) by simp
  then show ?thesis
    using assms read_message_back [of status "resp_mime r" "int (length c)" c] by (simp add: delivers_def with_content_def)
qed

lemma statuses_no_CR [simp]:
  "no_CR ''200 OK''" "no_CR ''404 Not Found''" "no_CR ''503 Service Unavailable''" "no_CR ''201 CREATED''"
  by (simp_all add: no_CR_def)



text \<open>The responses that are not files.\<close>

lemma string_response_delivers:
  "delivers (ret (create_string_response s new_response)) ''200 OK'' s"
  "delivers (ret (create_created_response new_response)) ''201 CREATED'' ''received''"
  using read_message_back [of "''200 OK''" "''text/plain''" "int (length s)" s]
    read_message_back [of "''201 CREATED''" "''text/plain''" 8 "''received''"]
  by (simp_all add: delivers_def create_string_response_def create_created_response_def new_response_def no_CR_def)

end
