(* ===== verification/Http_Client.thy ===== *)
theory Http_Client
  imports Http_Response
begin

text \<open>
  \<open>Client\<close> of \<open>http_server/http\<close>: one TLS connection in a worker process. The TLS library, the
  kernel and the script interpreters are outside: what \<open>SSL_read\<close> returns and what a script
  prints are arguments, the calls the code makes are recorded in order.

  C arrays are strings of fixed length. \<open>strstr\<close> reads up to the first zero byte; if there is
  none in the array it runs out of it, a fault. The head of a request is copied to the heap
  without a zero byte behind, so \<open>parse\<close> gets whatever follows there: the parameter \<open>behind\<close>.
\<close>

section \<open>The connection\<close>

datatype call =
    SSL_write string
  | SSL_shutdown
  | SSL_free
  | Close_socket
  | Open_file string
  | Write_file string
  | Close_file
  | Run_script string string

text \<open>\<open>SSL_read\<close>: \<open>-1\<close>, 0, or bytes.\<close>

datatype ssl_read = Read_failed | Read_closed | Read_bytes string

record client =
  remainder :: string
  remaining_size :: nat
  client_open :: bool
  peer_disconnected :: bool
  buffer :: string
  calls :: "call list"

definition record_call :: "call \<Rightarrow> client \<Rightarrow> client" where
  "record_call x c = c\<lparr>calls := calls c @ [x]\<rparr>"

definition close_client :: "client \<Rightarrow> client" where
  "close_client c =
     (if \<not> client_open c then c
      else
        let c1 = (if \<not> peer_disconnected c then record_call SSL_shutdown c else c)
        in (record_call Close_socket (record_call SSL_free c1))\<lparr>client_open := False\<rparr>)"

text \<open>The constructor; \<open>accepted\<close> is \<open>SSL_accept > 0\<close>, \<open>junk\<close> what \<open>_remainder\<close> holds.\<close>

definition new_client :: "bool \<Rightarrow> string \<Rightarrow> client" where
  "new_client accepted junk =
     (let c = \<lparr>remainder = junk, remaining_size = 0, client_open = True, peer_disconnected = False,
               buffer = replicate 1024 NUL, calls = []\<rparr>
      in if accepted then c else close_client c)"

definition send_response :: "response \<Rightarrow> client \<Rightarrow> client" where
  "send_response r c =
     (if \<not> client_open c then c
      else record_call (SSL_write (take (nat (get_response_length r)) (resp_text r))) c)"

text \<open>An array of \<open>n\<close> bytes after \<open>memcpy\<close> of \<open>data\<close> to its start; too much is a fault.\<close>

definition copy_into :: "string \<Rightarrow> string \<Rightarrow> string res" where
  "copy_into data arr = (if length data \<le> length arr then ret (data @ drop (length data) arr) else fail OutOfBounds)"

definition strstr :: "string \<Rightarrow> string \<Rightarrow> nat option res" where
  "strstr arr pat =
     (case find_sub pat (cstr arr) of
        Some p \<Rightarrow> ret (Some p)
      | None \<Rightarrow> if NUL \<in> set arr then ret None else fail OutOfBounds)"

definition receive_headers ::
  "string \<Rightarrow> ssl_read \<Rightarrow> client \<Rightarrow> request \<Rightarrow> (bool \<times> client \<times> request) res" where
  "receive_headers behind input c req =
     (let c0 = c\<lparr>buffer := replicate 1024 NUL\<rparr> in
      case input of
        Read_failed \<Rightarrow> ret (False, close_client c0, req)
      | Read_closed \<Rightarrow> ret (False, close_client (c0\<lparr>peer_disconnected := True\<rparr>), req)
      | Read_bytes data \<Rightarrow>
          res_bind (copy_into data (buffer c0)) (\<lambda>buf.
            let c1 = c0\<lparr>buffer := buf, remainder := replicate 1024 NUL\<rparr> in
            res_bind (strstr buf (crlf @ crlf)) (\<lambda>pos.
              case pos of
                None \<Rightarrow> ret (True, c1, req)
              | Some p \<Rightarrow>
                  let offset = p + 4; rest = length data - offset in
                  res_bind (copy_into (take rest (drop offset buf)) (remainder c1)) (\<lambda>rem.
                  res_bind (parse (take offset buf @ behind) req) (\<lambda>req'.
                    ret (True, c1\<lparr>remaining_size := rest, remainder := rem\<rparr>, req'))))))"

section \<open>Scripts\<close>

definition runners :: "(string \<times> string) list" where
  "runners = [(''py'', ''python3''), (''sh'', ''bash''), (''php'', ''php'')]"

text \<open>
  \<open>execute_script\<close>; \<open>output\<close> is \<open>None\<close> if \<open>pipe\<close> fails, else what the parent reads from the
  pipe. \<open>std::map::operator[]\<close> gives the empty string for a key that is missing.
\<close>

definition execute_script :: "string option \<Rightarrow> request \<Rightarrow> client \<Rightarrow> client" where
  "execute_script output req c =
     (case output of
        None \<Rightarrow> c
      | Some s \<Rightarrow>
          let runner = (case map_of runners (get_path_extension req) of None \<Rightarrow> [] | Some x \<Rightarrow> x);
              c1 = record_call (Run_script runner (''www'' @ req_path req)) c
          in send_response (create_string_response s new_response) c1)"

section \<open>Uploads\<close>

text \<open>\<open>atoi\<close>: leading white space, an optional sign, digits.\<close>

definition isspace :: "char \<Rightarrow> bool" where
  "isspace c \<longleftrightarrow> c = CHR '' '' \<or> (9 \<le> (of_char c :: nat) \<and> (of_char c :: nat) \<le> 13)"

definition isdigit :: "char \<Rightarrow> bool" where
  "isdigit c \<longleftrightarrow> 48 \<le> (of_char c :: nat) \<and> (of_char c :: nat) \<le> 57"

definition atoi :: "string \<Rightarrow> int" where
  "atoi s =
     (let s1 = dropWhile isspace s;
          neg = (s1 \<noteq> [] \<and> hd s1 = CHR ''-'');
          s2 = (if s1 \<noteq> [] \<and> (hd s1 = CHR ''-'' \<or> hd s1 = CHR ''+'') then tl s1 else s1);
          n = int (read_nat (takeWhile isdigit s2))
      in i32 (if neg then - n else n))"

text \<open>The name of the file of a part of the form.\<close>

definition part_filename :: "string \<Rightarrow> string res" where
  "part_filename s =
     res_bind (string_split ''filename='' s) (\<lambda>spl.
     res_bind (element spl 1) (\<lambda>rest.
     res_bind (string_split crlf rest) (\<lambda>parts.
     res_bind (element parts 0) (\<lambda>name. ret (filter (\<lambda>ch. ch \<noteq> CHR 0x22) name)))))"

text \<open>\<open>write(fd, arr + from, n)\<close>, where \<open>n\<close> is converted to \<open>size_t\<close>.\<close>

definition write_file :: "string \<Rightarrow> nat \<Rightarrow> int \<Rightarrow> client \<Rightarrow> client res" where
  "write_file arr start n c =
     (if 0 \<le> n \<and> start + nat n \<le> length arr
      then ret (record_call (Write_file (take (nat n) (drop start arr))) c) else fail OutOfBounds)"

text \<open>One turn of the loop with the \<open>valread\<close> bytes just read in the array \<open>filebuf\<close>.\<close>

definition upload_chunk :: "string \<Rightarrow> int \<Rightarrow> string \<Rightarrow> client \<Rightarrow> client res" where
  "upload_chunk boundary valread filebuf c =
     res_bind (strstr filebuf boundary) (\<lambda>pos.
       case pos of
         None \<Rightarrow> write_file filebuf 0 valread c
       | Some p \<Rightarrow>
           let start = p + length boundary + 2 in
           if start > length filebuf then fail OutOfBounds
           else res_bind (strstr (drop start filebuf) (crlf @ crlf)) (\<lambda>pos2.
             case pos2 of
               None \<Rightarrow> write_file filebuf 0 (valread - (int (length (''--'' @ boundary)) + 6)) c
             | Some q \<Rightarrow>
                 let size = q + 4 in
                 res_bind (write_file filebuf 0 (int start) c) (\<lambda>c1.
                 res_bind (copy_into (take size (drop start filebuf)) (replicate 1024 NUL)) (\<lambda>buf.
                 if NUL \<notin> set buf then fail OutOfBounds
                 else res_bind (part_filename (cstr buf)) (\<lambda>name.
                   let c2 = record_call (Open_file name) (record_call Close_file (c1\<lparr>buffer := buf\<rparr>))
                   in write_file filebuf (start + size) (valread - int (start + size)) c2)))))"

text \<open>\<open>while (curlength < content_length)\<close>; without further input \<open>SSL_read\<close> does not return.\<close>

primrec upload_loop :: "ssl_read list \<Rightarrow> string \<Rightarrow> int \<Rightarrow> int \<Rightarrow> string \<Rightarrow> client \<Rightarrow> client res" where
  "upload_loop [] boundary cur len filebuf c = (if cur < len then None else ret c)"
| "upload_loop (x # xs) boundary cur len filebuf c =
     (if cur < len then
        (case x of
           Read_failed \<Rightarrow> ret c
         | Read_closed \<Rightarrow> ret c
         | Read_bytes data \<Rightarrow>
             res_bind (copy_into data filebuf) (\<lambda>fb.
             res_bind (upload_chunk boundary (int (length data)) fb c) (\<lambda>c1.
               upload_loop xs boundary (i32 (cur + int (length data))) len fb c1)))
      else ret c)"

definition handle_post :: "string \<Rightarrow> ssl_read list \<Rightarrow> request \<Rightarrow> client \<Rightarrow> client res" where
  "handle_post stack inputs req c =
     res_bind (strstr (remainder c) (crlf @ crlf)) (\<lambda>pos.
       case pos of
         None \<Rightarrow> fail NullDeref
       | Some p \<Rightarrow>
           let offset = p + 4 in
           if remaining_size c < offset then fail OutOfBounds
           else
             let rest = remaining_size c - offset; c1 = c\<lparr>remaining_size := rest\<rparr> in
             res_bind (copy_into (take rest (drop offset (remainder c))) (replicate 1024 NUL)) (\<lambda>buf.
             res_bind (part_filename (cstr (remainder c))) (\<lambda>name.
             res_bind (write_file buf 0 (int rest) (record_call (Open_file name) (c1\<lparr>buffer := buf\<rparr>))) (\<lambda>c2.
             res_bind (upload_loop inputs (req_boundary req) (int (rest + offset))
                         (atoi (get_field req ''Content-Length'')) stack c2) (\<lambda>c3.
               ret (send_response (create_created_response new_response) c3))))))"

section \<open>Connections are closed once\<close>

text \<open>
  \<open>sound_calls\<close>: while the connection is open nothing has been released; afterwards the TLS
  object and the socket have been released exactly once, in this order, and nothing was
  written after that.
\<close>

definition released :: "call \<Rightarrow> bool" where
  "released x \<longleftrightarrow> x = SSL_free \<or> x = Close_socket \<or> x = SSL_shutdown"

definition is_write :: "call \<Rightarrow> bool" where
  "is_write x \<longleftrightarrow> (\<exists>s. x = SSL_write s)"

definition sound_calls :: "client \<Rightarrow> bool" where
  "sound_calls c \<longleftrightarrow>
     (if client_open c then filter released (calls c) = []
      else \<exists>before after. calls c = before @ SSL_free # Close_socket # after \<and>
             filter released before \<in> {[], [SSL_shutdown]} \<and> filter released after = [] \<and> filter is_write after = [])"

lemma record_sel [simp]:
  "client_open (record_call x c) = client_open c" "calls (record_call x c) = calls c @ [x]"
  "remainder (record_call x c) = remainder c" "remaining_size (record_call x c) = remaining_size c"
  "peer_disconnected (record_call x c) = peer_disconnected c" "buffer (record_call x c) = buffer c"
  by (simp_all add: record_call_def)

lemma sound_closedI:
  "\<not> client_open c \<Longrightarrow> calls c = before @ SSL_free # Close_socket # after \<Longrightarrow>
   filter released before \<in> {[], [SSL_shutdown]} \<Longrightarrow> filter released after = [] \<Longrightarrow> filter is_write after = [] \<Longrightarrow>
   sound_calls c"
  unfolding sound_calls_def by (simp only: if_False) blast

lemma sound_closedE:
  assumes "sound_calls c" "\<not> client_open c"
  obtains before after where "calls c = before @ SSL_free # Close_socket # after"
    "filter released before \<in> {[], [SSL_shutdown]}" "filter released after = []" "filter is_write after = []"
  using assms unfolding sound_calls_def by (simp only: if_False) blast

lemma sound_record:
  assumes "sound_calls c" "\<not> released x" "client_open c \<or> \<not> is_write x"
  shows "sound_calls (record_call x c)"
proof (cases "client_open c")
  case True
  then show ?thesis using assms by (simp add: sound_calls_def)
next
  case False
  from sound_closedE [OF assms(1) False] obtain before after where
    "calls c = before @ SSL_free # Close_socket # after" "filter released before \<in> {[], [SSL_shutdown]}"
    "filter released after = []" "filter is_write after = []" by blast
  then show ?thesis
    using False assms(2,3) by (intro sound_closedI [of _ before "after @ [x]"]) simp_all
qed

lemma sound_close: "sound_calls c \<Longrightarrow> sound_calls (close_client c)"
proof (cases "client_open c")
  case True
  assume "sound_calls c"
  then have r: "filter released (calls c) = []" using True by (simp add: sound_calls_def)
  let ?before = "calls c @ (if peer_disconnected c then [] else [SSL_shutdown])"
  have "calls (close_client c) = ?before @ SSL_free # Close_socket # []" "\<not> client_open (close_client c)"
    using True by (simp_all add: close_client_def Let_def)
  then show ?thesis by (intro sound_closedI [of _ ?before "[]"]) (simp_all add: r released_def)
qed (simp add: close_client_def)

lemma sound_update [simp]:
  "sound_calls (c\<lparr>buffer := b\<rparr>) = sound_calls c" "sound_calls (c\<lparr>remainder := b\<rparr>) = sound_calls c"
  "sound_calls (c\<lparr>remaining_size := n\<rparr>) = sound_calls c" "sound_calls (c\<lparr>peer_disconnected := d\<rparr>) = sound_calls c"
  by (simp_all add: sound_calls_def)

lemma sound_new: "sound_calls (new_client accepted junk)"
proof -
  let ?c = "\<lparr>remainder = junk, remaining_size = 0, client_open = True, peer_disconnected = False,
    buffer = replicate 1024 NUL, calls = []\<rparr>"
  have "sound_calls ?c" by (simp add: sound_calls_def)
  then show ?thesis using sound_close [of ?c] by (simp add: new_client_def Let_def)
qed

lemma sound_send: "sound_calls c \<Longrightarrow> sound_calls (send_response r c)"
  by (auto simp: send_response_def released_def intro!: sound_record)

lemma sound_receive: "receive_headers behind input c req = ret (b, c', req') \<Longrightarrow> sound_calls c \<Longrightarrow> sound_calls c'"
  by (auto simp: receive_headers_def Let_def intro!: sound_close split: ssl_read.splits option.splits)

lemma sound_script: "sound_calls c \<Longrightarrow> sound_calls (execute_script output req c)"
  by (auto simp: execute_script_def Let_def released_def is_write_def
      intro!: sound_send sound_record split: option.split)

lemma sound_file_calls:
  "sound_calls c \<Longrightarrow> sound_calls (record_call (Open_file f) c)" "sound_calls c \<Longrightarrow> sound_calls (record_call Close_file c)"
  by (auto intro!: sound_record simp: released_def is_write_def)

lemma sound_write_file: "write_file arr start n c = ret c' \<Longrightarrow> sound_calls c \<Longrightarrow> sound_calls c'"
  by (auto simp: write_file_def released_def is_write_def intro!: sound_record split: if_splits)

lemma sound_chunk:
  assumes "upload_chunk b v fb c = ret c'" "sound_calls c"
  shows "sound_calls c'"
proof -
  have "\<exists>c1 arr start n. write_file arr start n c1 = ret c' \<and> sound_calls c1"
  proof (cases "\<exists>p q. strstr fb b = ret (Some p) \<and> p + length b + 2 \<le> length fb \<and>
      strstr (drop (p + length b + 2) fb) (crlf @ crlf) = ret (Some q)")
    case True
    then obtain p q where pq: "strstr fb b = ret (Some p)" "\<not> p + length b + 2 > length fb"
      "strstr (drop (p + length b + 2) fb) (crlf @ crlf) = ret (Some q)" by (auto simp: not_less)
    define start where "start = p + length b + 2"
    obtain c1 buf name where "write_file fb 0 (int start) c = ret c1"
      "write_file fb (start + (q + 4)) (v - int (start + (q + 4)))
        (record_call (Open_file name) (record_call Close_file (c1\<lparr>buffer := buf\<rparr>))) = ret c'"
      using assms(1) unfolding upload_chunk_def pq(1) res_bind_ret option.case Let_def start_def [symmetric]
        if_not_P [OF pq(2) [folded start_def]] pq(3) [folded start_def] by (auto split: if_splits)
    then show ?thesis using assms(2) sound_write_file sound_file_calls sound_update(1) by meson
  next
    case False
    then show ?thesis using assms
      by (fastforce simp: upload_chunk_def Let_def split: if_splits option.splits)
  qed
  then show ?thesis using sound_write_file by blast
qed

lemma sound_loop: "upload_loop xs b cur len fb c = ret c' \<Longrightarrow> sound_calls c \<Longrightarrow> sound_calls c'"
proof (induction xs arbitrary: cur fb c)
  case (Cons x xs)
  then show ?case by (auto split: if_splits ssl_read.splits dest: sound_chunk)
qed (auto split: if_splits)

lemma sound_post:
  assumes "handle_post stack xs req c = ret c'" "sound_calls c"
  shows "sound_calls c'"
proof -
  obtain p where "strstr (remainder c) (crlf @ crlf) = ret (Some p)"
    using assms(1) by (auto simp: handle_post_def split: option.splits)
  then obtain buf name c2 c3 cur where "write_file buf 0 (int (remaining_size c - (p + 4)))
      (record_call (Open_file name) (c\<lparr>remaining_size := remaining_size c - (p + 4), buffer := buf\<rparr>)) = ret c2"
    "upload_loop xs (req_boundary req) cur (atoi (get_field req ''Content-Length'')) stack c2 = ret c3"
    "send_response (create_created_response new_response) c3 = c'"
    using assms(1) by (auto simp: handle_post_def Let_def split: if_splits)
  then show ?thesis using assms(2) sound_write_file sound_file_calls(1) sound_loop sound_send
    by (metis sound_update(1,3))
qed

end
