(* ===== verification/Http_Worker.thy ===== *)
theory Http_Worker
  imports Http_Client
begin

text \<open>
  What a worker process does with one connection: the loop \<open>while (client.is_open())\<close> of
  \<open>Server::handle_communication\<close>. A round is what the outside does while one request is
  served. Without a further round an open connection waits for ever. What it
  logs is in \<open>Http_Access\<close>.
\<close>

section \<open>Serving\<close>

record round =
  behind_head :: string
  head_read :: ssl_read
  stack_junk :: string
  body_reads :: "ssl_read list"
  script_output :: "string option"

definition answer :: "files \<Rightarrow> round \<Rightarrow> request \<Rightarrow> client \<Rightarrow> client res" where
  "answer fs r req c =
     res_bind (get_type req) (\<lambda>t.
       if t = POST then handle_post (stack_junk r) (body_reads r) req c
       else if has_path req \<and> is_script req then ret (execute_script (script_output r) req c)
       else res_bind (create_file_response fs (if has_path req then req_path req else ''/index.html'') new_response)
              (\<lambda>resp. ret (send_response resp c)))"

definition serve_one :: "files \<Rightarrow> round \<Rightarrow> client \<Rightarrow> client res" where
  "serve_one fs r c =
     res_bind (receive_headers (behind_head r) (head_read r) c new_request) (\<lambda>(received, c1, req).
       if \<not> received then ret (close_client c1)
       else res_bind (get_type_as_string req) (\<lambda>_.
            res_bind (answer fs r req c1) (\<lambda>c2.
              ret (if \<not> keep_alive req then close_client c2 else c2))))"

primrec serve_connection :: "files \<Rightarrow> round list \<Rightarrow> client \<Rightarrow> client res" where
  "serve_connection fs [] c = (if client_open c then None else ret c)"
| "serve_connection fs (r # rs) c =
     (if client_open c then res_bind (serve_one fs r c) (serve_connection fs rs) else ret c)"

section \<open>A connection that ends is released once\<close>

lemma sound_answer: "answer fs r req c = ret c' \<Longrightarrow> sound_calls c \<Longrightarrow> sound_calls c'"
  by (auto simp: answer_def intro!: sound_script sound_send split: if_splits intro: sound_post)

lemma sound_serve_one: "serve_one fs r c = ret c' \<Longrightarrow> sound_calls c \<Longrightarrow> sound_calls c'"
  by (auto simp: serve_one_def intro!: sound_close split: if_splits dest: sound_receive sound_answer)

lemma serve_connection_sound:
  "serve_connection fs rs c = ret c' \<Longrightarrow> sound_calls c \<Longrightarrow> sound_calls c' \<and> \<not> client_open c'"
proof (induction rs arbitrary: c)
  case (Cons r rs)
  then show ?case by (auto split: if_splits dest: sound_serve_one)
qed (auto split: if_splits)

lemma count_released:
  "filter released xs \<in> {[], [SSL_shutdown]} \<Longrightarrow> count_list xs SSL_free = 0 \<and> count_list xs Close_socket = 0 \<and> count_list xs SSL_shutdown \<le> 1"
  "filter released xs = [] \<Longrightarrow> count_list xs SSL_free = 0 \<and> count_list xs Close_socket = 0 \<and> count_list xs SSL_shutdown = 0"
proof -
  have c: "released x \<Longrightarrow> count_list xs x = count_list (filter released xs) x" for x
    by (induction xs) auto
  have "released SSL_free" "released Close_socket" "released SSL_shutdown" by (simp_all add: released_def)
  note eqs = this [THEN c]
  show "filter released xs = [] \<Longrightarrow> count_list xs SSL_free = 0 \<and> count_list xs Close_socket = 0 \<and> count_list xs SSL_shutdown = 0"
    by (simp add: eqs)
  show "filter released xs \<in> {[], [SSL_shutdown]} \<Longrightarrow> count_list xs SSL_free = 0 \<and> count_list xs Close_socket = 0 \<and> count_list xs SSL_shutdown \<le> 1"
    by (elim insertE emptyE) (simp_all add: eqs)
qed

text \<open>
  Whatever a client sends and however often, when a worker is done with a connection
  it has released the TLS object and the socket exactly once, has shut the TLS session down at
  most once, and has written nothing to the connection after that.
\<close>

lemma connection_released_once:
  assumes "serve_connection fs rounds (new_client accepted junk) = ret c"
  shows "count_list (calls c) SSL_free = 1 \<and> count_list (calls c) Close_socket = 1 \<and>
    count_list (calls c) SSL_shutdown \<le> 1 \<and>
    (\<exists>before after. calls c = before @ SSL_free # Close_socket # after \<and> (\<forall>s. SSL_write s \<notin> set after))"
proof -
  have s: "sound_calls c" "\<not> client_open c"
    using serve_connection_sound [OF assms sound_new] by auto
  obtain before after where c: "calls c = before @ SSL_free # Close_socket # after"
    "filter released before \<in> {[], [SSL_shutdown]}" "filter released after = []" "filter is_write after = []"
    using sound_closedE [OF s] by blast
  have "\<forall>s. SSL_write s \<notin> set after" using c(4) by (auto simp: filter_empty_conv is_write_def)
  moreover have "count_list (calls c) SSL_free = 1 \<and> count_list (calls c) Close_socket = 1 \<and>
      count_list (calls c) SSL_shutdown \<le> 1"
    using count_released(1) [OF c(2)] count_released(2) [OF c(3)] by (simp add: c(1))
  ultimately show ?thesis using c(1) by blast
qed

lemma connection_released_once_witness:
  "\<exists>c. serve_connection Map.empty [] (new_client False []) = ret c \<and> count_list (calls c) SSL_free = 1"
proof -
  have "serve_connection Map.empty [] (new_client False []) = ret (new_client False [])"
    by (simp add: new_client_def Let_def close_client_def)
  from connection_released_once [OF this] this show ?thesis by blast
qed

section \<open>From the bytes of a request to the bytes of the file\<close>

lemma request_text_lines:
  "request_text t p v hs = concat (map (\<lambda>l. l @ crlf) ((type_to_string t @ '' '' @ p @ '' '' @ v) # map header_line hs)) @ crlf"
  by (simp add: request_text_def comp_def)

lemma no_cntrl_no_CR: "\<forall>x\<in>set s. \<not> iscntrl x \<Longrightarrow> no_CR s \<and> NUL \<notin> set s"
proof -
  assume s: "\<forall>x\<in>set s. \<not> iscntrl x"
  have "iscntrl NUL" "iscntrl CHR 0x0D" by (simp_all add: iscntrl_def of_char_def)
  then show ?thesis using s by (auto simp: no_CR_def)
qed

lemma request_head:
  assumes "word_without CHR '' '' p" "word_without CHR '' '' v" "\<And>h. h \<in> set hs \<Longrightarrow> good_header h"
  shows "find_sub (crlf @ crlf) (request_text t p v hs @ body) = Some (length (request_text t p v hs) - 4)"
    "NUL \<notin> set (request_text t p v hs)"
proof -
  let ?ls = "(type_to_string t @ '' '' @ p @ '' '' @ v) # map header_line hs"
  have c: "l \<noteq> [] \<and> (\<forall>x\<in>set l. \<not> iscntrl x)" if "l \<in> set ?ls" for l
    using that assms type_to_string_word(2) [of _ t]
    by (fastforce simp: word_without_def good_header_def header_line_def)
  then have ls: "l \<noteq> [] \<and> no_CR l" if "l \<in> set ?ls" for l using that no_cntrl_no_CR by blast
  have "length (request_text t p v hs) = length (concat (map (\<lambda>l. l @ crlf) ?ls)) + 2"
    by (simp add: request_text_lines)
  then show "find_sub (crlf @ crlf) (request_text t p v hs @ body) = Some (length (request_text t p v hs) - 4)"
    using end_of_head [where ls = ?ls and body = body, OF _ ls] by (simp add: request_text_lines)
  have "NUL \<notin> set l" if "l \<in> set ?ls" for l using c [OF that] no_cntrl_no_CR by blast
  then have "NUL \<notin> set (concat (map (\<lambda>l. l @ crlf) ls))" if "set ls \<subseteq> set ?ls" for ls
    using that by (induction ls) (auto simp: crlf_def)
  from this [OF subset_refl] show "NUL \<notin> set (request_text t p v hs)"
    unfolding request_text_lines by (simp add: crlf_def)
qed

lemma cstr_prefix: "NUL \<notin> set s \<Longrightarrow> cstr (s @ t) = s @ cstr t"
  by (induction s) (auto simp: cstr_def)

lemma receives_request:
  assumes "word_without CHR '' '' p" "word_without CHR '' '' v" "\<And>h. h \<in> set hs \<Longrightarrow> good_header h"
    and "''Content-Type'' \<notin> fst ` set hs" "length (request_text t p v hs) \<le> 1024"
  shows "\<exists>c'. receive_headers [] (Read_bytes (request_text t p v hs)) c new_request =
      ret (True, c', \<lparr>req_type = Some t, req_path = p, req_version = v, req_fields = map_of (rev hs), req_boundary = []\<rparr>) \<and>
    client_open c' = client_open c \<and> calls c' = calls c \<and> peer_disconnected c' = peer_disconnected c"
proof -
  let ?t = "request_text t p v hs"
  let ?buf = "?t @ replicate (1024 - length ?t) NUL"
  have len: "4 \<le> length ?t" by (simp add: request_text_def)
  have "strstr ?buf (crlf @ crlf) = ret (Some (length ?t - 4))"
    using request_head [OF assms(1-3)] by (simp add: strstr_def cstr_prefix)
  moreover have "copy_into ?t (replicate 1024 NUL) = ret ?buf"
    using assms(5) by (simp add: copy_into_def)
  moreover have "map_of (rev hs) ''Content-Type'' = None" using assms(4) by (simp add: map_of_eq_None_iff)
  then have "parse ?t new_request = ret \<lparr>req_type = Some t, req_path = p, req_version = v, req_fields = map_of (rev hs), req_boundary = []\<rparr>"
    using parse_text [where t = t, OF assms(1-3)] by (simp add: content_type_result_def)
  ultimately show ?thesis
    using len assms(5) by (simp add: receive_headers_def Let_def copy_into_def)
qed

lemma mime_short: "length (resp_mime (set_mime_type path r)) \<le> 24"
proof -
  have "length m \<le> 24" if "map_of mime_types e = Some m" for e m
  proof -
    have "m \<in> snd ` set mime_types" using that by (force dest: map_of_SomeD)
    then show ?thesis by (auto simp: mime_types_def)
  qed
  then show ?thesis by (auto simp: set_mime_type_def split: option.split)
qed

lemma file_response_sent:
  assumes "fs (''www'' @ path) = Some content" "length content < 2 ^ 31 - 200"
  shows "\<exists>resp. create_file_response fs path new_response = ret resp \<and>
    take (nat (get_response_length resp)) (resp_text resp) = resp_text resp \<and>
    read_message (resp_text resp) = Some (''200 OK'', length content, content)"
proof -
  let ?r = "set_mime_type path (new_response\<lparr>resp_length := Some (i32 (int (length content))), resp_content := content\<rparr>)"
  have i: "i32 (int (length content)) = int (length content)" using assms(2) by simp
  have r: "create_file_response fs path new_response =
      ret (?r\<lparr>resp_text := message '' 200 OK'' (int (length content)) (resp_mime ?r) content\<rparr>)"
    using assms(1) i by (simp add: create_file_response_def load_file_def default_directory_def with_content_def)
  have "length (show_nat (length content)) \<le> 10"
    using assms(2) by (intro length_show_nat) simp_all
  moreover have "length (resp_mime ?r) \<le> 24" by (rule mime_short)
  moreover have "length (message '' 200 OK'' (int (length content)) (resp_mime ?r) content) =
      53 + length (show_nat (length content)) + length (resp_mime ?r) + length content"
    by (simp add: message_def http_version_def show_int_def)
  ultimately have "length (message '' 200 OK'' (int (length content)) (resp_mime ?r) content) < 2 ^ 31"
    using assms(2) by linarith
  then show ?thesis
    using r read_message_back [of "''200 OK''" "resp_mime ?r" "int (length content)" content]
    by (simp add: get_response_length_def)
qed

text \<open>
  Claim C22. A worker serves files: from the bytes of a request for a file below \<open>www\<close> that is
  no script, sent at once and at most 1024 of them, it comes to exactly one write to the
  connection, which reads back as status 200 and the contents of the file; then the connection
  stays open if the client asked for \<open>keep-alive\<close> and is released if not. (The heap block
  with the head is followed by a zero byte.)
\<close>

theorem file_request_served:
  assumes "word_without CHR '' '' p" "word_without CHR '' '' v" "\<And>h. h \<in> set hs \<Longrightarrow> good_header h"
    and "''Content-Type'' \<notin> fst ` set hs" "length (request_text t p v hs) \<le> 1024"
    and r: "behind_head r = []" "head_read r = Read_bytes (request_text t p v hs)"
    and t: "t \<noteq> POST" "1 < length p" "\<not> (\<exists>e\<in>{''py'', ''sh'', ''php''}. after_last CHR ''.'' p = e)"
    and content: "fs (''www'' @ p) = Some content" "length content < 2 ^ 31 - 200"
    and "client_open c"
  shows "\<exists>c' txt. serve_one fs r c = ret c' \<and>
    read_message txt = Some (''200 OK'', length content, content) \<and>
    client_open c' = (map_of (rev hs) ''Connection'' = Some ''keep-alive'') \<and>
    calls c' = calls c @ SSL_write txt # (if client_open c' then []
      else (if peer_disconnected c then [] else [SSL_shutdown]) @ [SSL_free, Close_socket])"
proof -
  let ?req = "\<lparr>req_type = Some t, req_path = p, req_version = v, req_fields = map_of (rev hs), req_boundary = []\<rparr>"
  obtain c1 where c1: "receive_headers [] (Read_bytes (request_text t p v hs)) c new_request = ret (True, c1, ?req)"
    "client_open c1" "calls c1 = calls c" "peer_disconnected c1 = peer_disconnected c"
    using receives_request [OF assms(1-5), of c] assms(13) by auto
  obtain resp where resp: "create_file_response fs p new_response = ret resp"
    "take (nat (get_response_length resp)) (resp_text resp) = resp_text resp"
    "read_message (resp_text resp) = Some (''200 OK'', length content, content)"
    using file_response_sent [where fs = fs and path = p and content = content, OF content] by blast
  have "\<not> is_script ?req" using t(3) by (auto simp: is_script_def get_path_extension_def)
  then have a: "answer fs r ?req c1 = ret (record_call (SSL_write (resp_text resp)) c1)"
    using t(1,2) c1(2) resp by (simp add: answer_def get_type_def has_path_def send_response_def)
  have k: "keep_alive ?req \<longleftrightarrow> map_of (rev hs) ''Connection'' = Some ''keep-alive''"
    by (auto simp: keep_alive_def)
  let ?c2 = "record_call (SSL_write (resp_text resp)) c1"
  have "serve_one fs r c = ret (if keep_alive ?req then ?c2 else close_client ?c2)"
    using c1(1) a by (simp add: serve_one_def r get_type_as_string_def get_type_def)
  then show ?thesis
    using c1 resp(3) k
    by (intro exI [of _ "if keep_alive ?req then ?c2 else close_client ?c2"] exI [of _ "resp_text resp"])
      (simp add: close_client_def Let_def)
qed

theorem file_request_served_witness:
  "\<exists>c' txt. serve_one [''www/a.html'' \<mapsto> ''hello'']
      \<lparr>behind_head = [], head_read = Read_bytes (request_text GET ''/a.html'' ''HTTP/1.1'' [(''Host'', ''x'')]),
       stack_junk = [], body_reads = [], script_output = None\<rparr> (new_client True (replicate 1024 NUL)) = ret c' \<and>
    read_message txt = Some (''200 OK'', 5, ''hello'') \<and>
    calls c' = [SSL_write txt, SSL_shutdown, SSL_free, Close_socket]"
proof -
  let ?r = "\<lparr>behind_head = [], head_read = Read_bytes (request_text GET ''/a.html'' ''HTTP/1.1'' [(''Host'', ''x'')]),
       stack_junk = [], body_reads = [], script_output = None\<rparr>"
  have "\<exists>c' txt. serve_one [''www/a.html'' \<mapsto> ''hello''] ?r (new_client True (replicate 1024 NUL)) = ret c' \<and>
    read_message txt = Some (''200 OK'', length ''hello'', ''hello'') \<and>
    client_open c' = (map_of (rev [(''Host'', ''x'')]) ''Connection'' = Some ''keep-alive'') \<and>
    calls c' = calls (new_client True (replicate 1024 NUL)) @ SSL_write txt # (if client_open c' then []
      else (if peer_disconnected (new_client True (replicate 1024 NUL)) then [] else [SSL_shutdown]) @ [SSL_free, Close_socket])"
    by (rule file_request_served [where p = "''/a.html''" and v = "''HTTP/1.1''" and t = GET])
      (auto simp: word_without_def good_header_def iscntrl_def of_char_def request_text_def type_to_string_def
        header_line_def after_last_def new_client_def)
  then show ?thesis by (auto simp: new_client_def)
qed

end
