(* ===== verification/Http_Upload.thy ===== *)
theory Http_Upload
  imports Http_Worker
begin

text \<open>
  Uploads: \<open>handle_post\<close> stores what a browser sends as one file of a form, if the data does not
  get in the way of its searches. The array that receives the data is not cleared between two
  reads, so what the searches see is the data just read with the rest of the data read before.
\<close>

definition put :: "string \<Rightarrow> string \<Rightarrow> string" where
  "put d fb = d @ drop (length d) fb"

text \<open>No read of \<open>ds\<close> shows the boundary.\<close>

primrec no_boundary :: "string \<Rightarrow> string \<Rightarrow> string list \<Rightarrow> bool" where
  "no_boundary b fb [] \<longleftrightarrow> True"
| "no_boundary b fb (d # ds) \<longleftrightarrow> strstr (put d fb) b = ret None \<and> no_boundary b (put d fb) ds"

text \<open>What ends a form: the last boundary.\<close>

definition trailer :: "string \<Rightarrow> string" where
  "trailer b = crlf @ ''--'' @ b @ ''--'' @ crlf"

text \<open>The head of the part, with the name of the file.\<close>

definition part_head :: "string \<Rightarrow> string \<Rightarrow> string \<Rightarrow> string" where
  "part_head before name after = before @ ''filename='' @ [CHR 0x22] @ name @ [CHR 0x22] @ crlf @ after"

lemma length_put [simp]: "length d \<le> length fb \<Longrightarrow> length (put d fb) = length fb"
  by (simp add: put_def)

lemma copy_into_put: "length d \<le> length fb \<Longrightarrow> copy_into d fb = ret (put d fb)"
  by (simp add: copy_into_def put_def)

definition add_calls :: "call list \<Rightarrow> client \<Rightarrow> client" where
  "add_calls xs c = c\<lparr>calls := calls c @ xs\<rparr>"

lemma add_calls_simps [simp]:
  "add_calls [] c = c" "add_calls xs (add_calls ys c) = add_calls (ys @ xs) c" "record_call x c = add_calls [x] c"
  "calls (add_calls xs c) = calls c @ xs" "client_open (add_calls xs c) = client_open c"
  "peer_disconnected (add_calls xs c) = peer_disconnected c"
  by (simp_all add: add_calls_def record_call_def)

lemma loop_no_boundary:
  assumes "no_boundary b fb ds" "\<And>d. d \<in> set ds \<Longrightarrow> length d \<le> length fb"
    and "0 \<le> cur" "cur + int (length (concat ds)) < len" "len < 2 ^ 31"
  shows "upload_loop (map Read_bytes ds @ xs) b cur len fb c =
    upload_loop xs b (cur + int (length (concat ds))) len (foldl (\<lambda>fb d. put d fb) fb ds) (add_calls (map Write_file ds) c)"
  using assms
proof (induction ds arbitrary: cur fb c)
  case (Cons d ds)
  have d: "length d \<le> length fb" "length d \<le> length (put d fb)" using Cons.prems(2) by (simp_all add: put_def)
  have "write_file (put d fb) 0 (int (length d)) c = ret (add_calls [Write_file d] c)"
    using d by (simp add: write_file_def put_def)
  then have chunk: "upload_chunk b (int (length d)) (put d fb) c = ret (add_calls [Write_file d] c)"
    using Cons.prems(1) by (simp add: upload_chunk_def)
  have "i32 (cur + int (length d)) = cur + int (length d)" using Cons.prems(3-5) by simp
  moreover have "upload_loop (map Read_bytes ds @ xs) b (cur + int (length d)) len (put d fb) (add_calls [Write_file d] c) =
      upload_loop xs b (cur + int (length d) + int (length (concat ds))) len (foldl (\<lambda>fb d. put d fb) (put d fb) ds)
        (add_calls (map Write_file ds) (add_calls [Write_file d] c))"
    by (rule Cons.IH) (use Cons.prems d in auto)
  ultimately show ?case using Cons.prems(3,4) d by (simp add: copy_into_put chunk add.assoc)
qed simp

lemma length_trailer [simp]: "length (trailer b) = length b + 8"
  by (simp add: trailer_def crlf_def)

lemma loop_trailer:
  assumes fit: "length (d @ trailer b) \<le> length fb"
    and found: "strstr (put (d @ trailer b) fb) b = ret (Some (length d + 4))"
    and only: "strstr (drop (length d + 4 + length b + 2) (put (d @ trailer b) fb)) (crlf @ crlf) = ret None"
    and len: "cur < len" "cur + int (length (d @ trailer b)) = len" "0 \<le> cur" "len < 2 ^ 31"
  shows "upload_loop [Read_bytes (d @ trailer b)] b cur len fb c = ret (add_calls [Write_file d] c)"
proof -
  have "write_file (put (d @ trailer b) fb) 0 (int (length d)) c = ret (add_calls [Write_file d] c)"
    using fit by (simp add: write_file_def put_def)
  then have "upload_chunk b (int (length (d @ trailer b))) (put (d @ trailer b) fb) c = ret (add_calls [Write_file d] c)"
    using found only fit by (simp add: upload_chunk_def Let_def)
  then show ?thesis using len fit by (simp add: copy_into_put)
qed

lemma find_sub_intro:
  "take (length d) (drop p s) = d \<Longrightarrow> p + length d \<le> length s \<Longrightarrow> (\<And>i. i < p \<Longrightarrow> take (length d) (drop i s) \<noteq> d) \<Longrightarrow>
   find_sub d s = Some p"
proof (induction s arbitrary: p)
  case (Cons c s)
  show ?case
  proof (cases p)
    case (Suc q)
    have "find_sub d s = Some q"
      by (rule Cons.IH) (use Cons.prems(1,2) Suc in simp, use Cons.prems(2) Suc in simp, use Cons.prems(3) [of "Suc _"] Suc in simp)
    then show ?thesis using Cons.prems(3) [of 0] Suc by simp
  qed (use Cons.prems in simp)
qed simp

lemma part_filename_head:
  assumes "find_sub ''filename='' (part_head before name after @ d) = Some (length before)"
    and "find_sub ''filename='' ([CHR 0x22] @ name @ [CHR 0x22] @ crlf @ after @ d) = None"
    and "CHR 0x22 \<notin> set name" "\<forall>x\<in>set name. \<not> iscntrl x"
  shows "part_filename (part_head before name after @ d) = ret name"
proof -
  let ?q = "[CHR 0x22] @ name @ [CHR 0x22]"
  let ?rest = "?q @ crlf @ after @ d"
  have s: "drop (length before + length ''filename='') (part_head before name after @ d) = ?rest"
    "take (length before) (part_head before name after @ d) = before"
    by (simp_all add: part_head_def)
  have "string_split ''filename='' ?rest = ret [?rest]" using assms(2) by (intro string_split_cases) simp_all
  then have 1: "string_split ''filename='' (part_head before name after @ d) = ret [strip_cntrl before, ?rest]"
    using string_split_cases(2) [OF _ assms(1), unfolded s] by simp
  have cr: "iscntrl CHR 0x0D" by (simp add: iscntrl_def of_char_def)
  have "CHR 0x0D \<notin> set ?q" using assms(4) cr by auto
  then have f: "find_sub crlf ?rest = Some (length ?q)"
    using find_sub_skip [of "CHR 0x0D" ?q "[CHR 0x0A]" "crlf @ after @ d"] find_sub_at [of crlf "after @ d"] by (simp add: crlf_def)
  have "strip_cntrl ?q = ?q" using assms(4) by (simp add: strip_cntrl_def iscntrl_def of_char_def filter_id_conv)
  moreover obtain parts where "string_split crlf (after @ d) = ret parts"
    using string_split_not_None [of crlf "after @ d"] by (auto simp: crlf_def)
  ultimately have 2: "string_split crlf ?rest = ret (?q # parts)"
    using string_split_cases(2) [OF _ f] by (simp add: crlf_def)
  have "filter (\<lambda>ch. ch \<noteq> CHR 0x22) ?q = name" using assms(3) by (simp add: filter_id_conv) metis
  then show ?thesis using 1 2 by (simp add: part_filename_def element_def)
qed

lemma cstr_padded: "NUL \<notin> set s \<Longrightarrow> cstr (s @ replicate k NUL) = s"
  using cstr_prefix [of s "replicate k NUL"] by (cases k) (simp_all add: cstr_def)

lemma length_foldl_put: "(\<And>d. d \<in> set ds \<Longrightarrow> length d \<le> length fb) \<Longrightarrow> length (foldl (\<lambda>fb d. put d fb) fb ds) = length fb"
  by (induction ds arbitrary: fb) simp_all

lemma created_text:
  "\<exists>reply. send_response (create_created_response new_response) c = (if client_open c then add_calls [SSL_write reply] c else c) \<and>
     read_message reply = Some (''201 CREATED'', 8, ''received'')"
proof -
  let ?m = "message '' 201 CREATED'' 8 ''text/plain'' ''received''"
  have "read_message (message ('' '' @ ''201 CREATED'') 8 ''text/plain'' ''received'') = Some (''201 CREATED'', nat 8, ''received'')"
    by (rule read_message_back) (simp_all add: no_CR_def)
  moreover have "length ?m < 2 ^ 31" by (simp add: message_def http_version_def show_int_def show_nat_def show_base.simps)
  then have "take (nat (get_response_length (create_created_response new_response))) (resp_text (create_created_response new_response)) = ?m"
    by (simp add: get_response_length_def create_created_response_def new_response_def)
  ultimately show ?thesis by (intro exI [of _ ?m]) (simp add: send_response_def)
qed

text \<open>
  An upload is stored: with the head of the part and the first data \<open>d0\<close> in what was
  read with the request, the data of the further reads \<open>ds\<close>, and the rest \<open>dl\<close> with the closing
  boundary in the last read, exactly the data is appended to the file the part names, and the
  client is told so (201). This needs that the searches find what they are meant to find: the
  head ends at the first empty line and names one file, and a boundary shows only in the last
  array and with no empty line behind it. The file is not closed.
\<close>

lemma upload_stored:
  fixes before name after d0 dl :: string and ds :: "string list"
  defines "head \<equiv> part_head before name after"
  assumes first: "remainder c = head @ crlf @ crlf @ d0 @ replicate k NUL" "length (remainder c) = 1024"
      "remaining_size c = length head + 4 + length d0" "NUL \<notin> set head" "NUL \<notin> set d0"
    and head_end: "find_sub (crlf @ crlf) (head @ crlf @ crlf @ d0) = Some (length head)"
    and filename: "find_sub ''filename='' (head @ crlf @ crlf @ d0) = Some (length before)"
      "find_sub ''filename='' ([CHR 0x22] @ name @ [CHR 0x22] @ crlf @ after @ crlf @ crlf @ d0) = None"
      "CHR 0x22 \<notin> set name" "\<forall>x\<in>set name. \<not> iscntrl x"
    and len: "atoi (get_field req ''Content-Length'') =
        int (length head + 4 + length d0 + length (concat ds) + length (dl @ trailer (req_boundary req)))"
    and reads: "length stack = 16384" "\<And>d. d \<in> set ds \<Longrightarrow> length d \<le> 16384" "length (dl @ trailer (req_boundary req)) \<le> 16384"
    and searches: "no_boundary (req_boundary req) stack ds"
      "strstr (put (dl @ trailer (req_boundary req)) (foldl (\<lambda>fb d. put d fb) stack ds)) (req_boundary req) = ret (Some (length dl + 4))"
      "strstr (drop (length dl + 4 + length (req_boundary req) + 2)
         (put (dl @ trailer (req_boundary req)) (foldl (\<lambda>fb d. put d fb) stack ds))) (crlf @ crlf) = ret None"
  shows "\<exists>c' reply. handle_post stack (map Read_bytes (ds @ [dl @ trailer (req_boundary req)])) req c = ret c' \<and>
    calls c' = calls c @ [Open_file name] @ map Write_file (d0 # ds @ [dl]) @ (if client_open c then [SSL_write reply] else []) \<and>
    read_message reply = Some (''201 CREATED'', 8, ''received'') \<and>
    client_open c' = client_open c \<and> peer_disconnected c' = peer_disconnected c"
proof -
  let ?b = "req_boundary req" and ?c1 = "c\<lparr>remaining_size := length d0\<rparr>"
  let ?buf = "d0 @ replicate (1024 - length d0) NUL"
  let ?cur = "int (length head + 4 + length d0)"
  let ?len = "atoi (get_field req ''Content-Length'')"
  have n: "NUL \<notin> set (head @ crlf @ crlf @ d0)" using first(4,5) by (simp add: crlf_def)
  have cs: "cstr (remainder c) = head @ crlf @ crlf @ d0"
    using cstr_padded [OF n, of k] by (simp add: first(1))
  have d0: "length d0 \<le> 1024" using first(1,2) by (simp add: crlf_def)
  have pos: "strstr (remainder c) (crlf @ crlf) = ret (Some (length head))"
    using head_end by (simp add: strstr_def cs)
  have "take (length d0) (drop (length head + 4) (remainder c)) = d0" by (simp add: first(1) crlf_def)
  then have buf: "copy_into (take (length d0) (drop (length head + 4) (remainder c))) (replicate 1024 NUL) = ret ?buf"
    using d0 by (simp add: copy_into_def)
  have pn: "part_filename (cstr (remainder c)) = ret name"
    unfolding cs head_def by (rule part_filename_head) (use filename head_def in simp_all)
  let ?c2 = "add_calls [Open_file name, Write_file d0] (?c1\<lparr>buffer := ?buf\<rparr>)"
  have w: "write_file ?buf 0 (int (length d0)) (record_call (Open_file name) (?c1\<lparr>buffer := ?buf\<rparr>)) = ret ?c2"
    by (simp add: write_file_def)
  have l31: "?len < 2 ^ 31" using i32_range(2) unfolding atoi_def Let_def by simp
  have "?cur + int (length (concat ds)) < ?len" unfolding len by simp
  from loop_no_boundary [where ds = ds, OF searches(1) _ _ this l31] reads(1,2)
  have "upload_loop (map Read_bytes ds @ [Read_bytes (dl @ trailer ?b)]) ?b ?cur ?len stack ?c2 =
    upload_loop [Read_bytes (dl @ trailer ?b)] ?b (?cur + int (length (concat ds))) ?len
      (foldl (\<lambda>fb d. put d fb) stack ds) (add_calls (map Write_file ds) ?c2)" by simp
  also have "\<dots> = ret (add_calls [Write_file dl] (add_calls (map Write_file ds) ?c2))"
    by (rule loop_trailer [OF _ searches(2,3)])
      (use reads length_foldl_put [of ds stack] len l31 in simp_all)
  finally have l: "upload_loop (map Read_bytes (ds @ [dl @ trailer ?b])) ?b ?cur ?len stack ?c2 =
      ret (add_calls [Write_file dl] (add_calls (map Write_file ds) ?c2))" by simp
  let ?c3 = "add_calls [Write_file dl] (add_calls (map Write_file ds) ?c2)"
  obtain reply where reply: "send_response (create_created_response new_response) ?c3 = (if client_open ?c3 then add_calls [SSL_write reply] ?c3 else ?c3)"
    "read_message reply = Some (''201 CREATED'', 8, ''received'')" using created_text by blast
  have off: "remaining_size c - (length head + 4) = length d0" "\<not> remaining_size c < length head + 4" using first(3) by simp_all
  have "handle_post stack (map Read_bytes (ds @ [dl @ trailer ?b])) req c =
      ret (send_response (create_created_response new_response) ?c3)"
    unfolding handle_post_def pos res_bind_ret option.case Let_def off if_not_P [OF off(2)] buf pn w
    using l by (simp add: add.commute)
  then show ?thesis using reply by (intro exI [of _ "send_response (create_created_response new_response) ?c3"] exI [of _ reply]) simp
qed

section \<open>The request of an upload\<close>

text \<open>The length a client declares is read back.\<close>

lemma digit_isdigit: "d < 10 \<Longrightarrow> isdigit (digit d)"
  by (simp add: isdigit_def digit_def of_char_of)

lemma show_nat_digits: "show_nat n \<noteq> [] \<and> (\<forall>x\<in>set (show_nat n). isdigit x)"
proof (induction n rule: less_induct)
  case (less n)
  show ?case
  proof (cases "n < 10")
    case True
    then show ?thesis by (simp add: show_nat_def show_base.simps [of 10 n] digit_isdigit)
  next
    case False
    then have "show_nat n = show_nat (n div 10) @ [digit (n mod 10)]"
      by (simp add: show_nat_def show_base.simps [of 10 n])
    then show ?thesis using less [of "n div 10"] False by (auto simp: digit_isdigit)
  qed
qed

lemma isdigit_other: "isdigit x \<Longrightarrow> \<not> isspace x \<and> x \<noteq> CHR ''-'' \<and> x \<noteq> CHR ''+''"
  by (auto simp: isdigit_def isspace_def of_char_def)

lemma atoi_show_nat: "n < 2 ^ 31 \<Longrightarrow> atoi (show_nat n) = int n"
proof -
  assume n: "n < 2 ^ 31"
  obtain x xs where s: "show_nat n = x # xs" "isdigit x" "\<forall>y\<in>set xs. isdigit y"
    using show_nat_digits [of n] by (cases "show_nat n") auto
  have t: "takeWhile isdigit xs = xs" using s(3) by (simp add: takeWhile_eq_all_conv)
  show ?thesis using s isdigit_other [OF s(2)] n read_nat_show [of n] by (simp add: atoi_def t)
qed

lemma receives_body:
  assumes "word_without CHR '' '' p" "word_without CHR '' '' v" "\<And>h. h \<in> set hs \<Longrightarrow> good_header h"
    and "length (request_text t p v hs @ body) \<le> 1024" "parse (request_text t p v hs) new_request = ret req"
  shows "\<exists>c'. receive_headers [] (Read_bytes (request_text t p v hs @ body)) c new_request = ret (True, c', req) \<and>
    remainder c' = body @ replicate (1024 - length body) NUL \<and> remaining_size c' = length body \<and>
    client_open c' = client_open c \<and> calls c' = calls c \<and> peer_disconnected c' = peer_disconnected c"
proof -
  let ?t = "request_text t p v hs"
  let ?buf = "(?t @ body) @ replicate (1024 - length (?t @ body)) NUL"
  have len: "4 \<le> length ?t" by (simp add: request_text_def)
  have "cstr ?buf = ?t @ cstr (body @ replicate (1024 - length (?t @ body)) NUL)"
    using cstr_prefix [OF request_head(2) [OF assms(1-3)]] by simp
  then have "strstr ?buf (crlf @ crlf) = ret (Some (length ?t - 4))"
    using request_head(1) [OF assms(1-3)] by (simp add: strstr_def)
  moreover have "copy_into (?t @ body) (replicate 1024 NUL) = ret ?buf" using assms(4) by (simp add: copy_into_def)
  moreover have "length ?t - 4 + 4 = length ?t" using len by simp
  moreover have "copy_into (take (length (?t @ body) - length ?t) (drop (length ?t) ?buf)) (replicate 1024 NUL) =
      ret (body @ replicate (1024 - length body) NUL)"
    using assms(4) by (simp add: copy_into_def)
  moreover have "take (length ?t) ?buf = ?t" by simp
  ultimately show ?thesis using assms(5) by (simp add: receive_headers_def Let_def del: append_assoc)
qed

text \<open>
  Claim C23. An upload is stored, from the bytes of the request on: the request with its
  headers, the head of the part and the first data are in the first read, the rest of the form
  in further reads, and the declared length is that of the form. Then exactly the data is
  appended to the file the part names, the client is told so (201), and the connection
  is kept or released as the client asked. This needs that the searches find what they are
  meant to find: the head of the part ends at its first empty line and names one file, and the
  boundary shows only in the last array and with no empty line behind it. The file is not
  closed.
\<close>

theorem upload_request_served:
  fixes before name after d0 dl b kind :: string and ds :: "string list"
  defines "head \<equiv> part_head before name after"
  assumes words: "word_without CHR '' '' p" "word_without CHR '' '' v" "\<And>h. h \<in> set hs \<Longrightarrow> good_header h"
    and ct: "map_of (rev hs) ''Content-Type'' = Some (kind @ ''; boundary='' @ b)"
      "CHR '';'' \<notin> set kind" "find_sub ''boundary'' kind = None" "CHR '';'' \<notin> set b" "CHR ''='' \<notin> set b"
    and r: "behind_head r = []" "head_read r = Read_bytes (request_text POST p v hs @ head @ crlf @ crlf @ d0)"
      "length (request_text POST p v hs @ head @ crlf @ crlf @ d0) \<le> 1024"
      "body_reads r = map Read_bytes (ds @ [dl @ trailer b])"
    and plain: "NUL \<notin> set head" "NUL \<notin> set d0"
    and head_end: "find_sub (crlf @ crlf) (head @ crlf @ crlf @ d0) = Some (length head)"
    and filename: "find_sub ''filename='' (head @ crlf @ crlf @ d0) = Some (length before)"
      "find_sub ''filename='' ([CHR 0x22] @ name @ [CHR 0x22] @ crlf @ after @ crlf @ crlf @ d0) = None"
      "CHR 0x22 \<notin> set name" "\<forall>x\<in>set name. \<not> iscntrl x"
    and len: "map_of (rev hs) ''Content-Length'' = Some (show_nat n)" "n < 2 ^ 31"
      "n = length (head @ crlf @ crlf @ d0 @ concat ds @ dl @ trailer b)"
    and reads: "length (stack_junk r) = 16384" "\<And>d. d \<in> set ds \<Longrightarrow> length d \<le> 16384" "length (dl @ trailer b) \<le> 16384"
    and searches: "no_boundary b (stack_junk r) ds"
      "strstr (put (dl @ trailer b) (foldl (\<lambda>fb d. put d fb) (stack_junk r) ds)) b = ret (Some (length dl + 4))"
      "strstr (drop (length dl + 4 + length b + 2) (put (dl @ trailer b) (foldl (\<lambda>fb d. put d fb) (stack_junk r) ds))) (crlf @ crlf) = ret None"
    and c: "client_open c"
  shows "\<exists>c' reply. serve_one fs r c = ret c' \<and>
    read_message reply = Some (''201 CREATED'', 8, ''received'') \<and>
    client_open c' = (map_of (rev hs) ''Connection'' = Some ''keep-alive'') \<and>
    calls c' = calls c @ [Open_file name] @ map Write_file (d0 # ds @ [dl]) @ [SSL_write reply] @
      (if client_open c' then [] else (if peer_disconnected c then [] else [SSL_shutdown]) @ [SSL_free, Close_socket])"
proof -
  let ?req = "\<lparr>req_type = Some POST, req_path = p, req_version = v,
    req_fields = (map_of (rev hs))(''Content-Type'' \<mapsto> ''boundary='' @ b), req_boundary = b\<rparr>"
  let ?body = "head @ crlf @ crlf @ d0"
  have "parse (request_text POST p v hs) new_request = ret ?req"
    by (rule parse_multipart [OF words ct(1-5)])
  from receives_body [where body = ?body, OF words r(3) this, of c]
  obtain c1 where c1: "receive_headers [] (Read_bytes (request_text POST p v hs @ ?body)) c new_request = ret (True, c1, ?req)"
    "remainder c1 = ?body @ replicate (1024 - length ?body) NUL" "remaining_size c1 = length ?body"
    "client_open c1 = client_open c" "calls c1 = calls c" "peer_disconnected c1 = peer_disconnected c" by blast
  have body: "length ?body \<le> 1024" using r(3) by simp
  have cl: "atoi (get_field ?req ''Content-Length'') = int n"
    using atoi_show_nat [OF len(2)] by (simp add: get_field_def len(1))
  have b: "req_boundary ?req = b" by simp
  have "\<exists>c' reply. handle_post (stack_junk r) (map Read_bytes (ds @ [dl @ trailer b])) ?req c1 = ret c' \<and>
    calls c' = calls c1 @ [Open_file name] @ map Write_file (d0 # ds @ [dl]) @ (if client_open c1 then [SSL_write reply] else []) \<and>
    read_message reply = Some (''201 CREATED'', 8, ''received'') \<and> client_open c' = client_open c1 \<and>
    peer_disconnected c' = peer_disconnected c1"
  proof (rule upload_stored [where before = before and name = name and after = after and req = ?req and
      ds = ds and dl = dl and ?d0.0 = d0, folded head_def, unfolded b])
    show "remainder c1 = head @ crlf @ crlf @ d0 @ replicate (1024 - length ?body) NUL" using c1(2) by simp
    show "length (remainder c1) = 1024" using c1(2) body by simp
    show "remaining_size c1 = length head + 4 + length d0" using c1(3) by simp
    show "atoi (get_field ?req ''Content-Length'') = int (length head + 4 + length d0 + length (concat ds) + length (dl @ trailer b))"
      unfolding cl len(3) by simp
  qed (use plain head_end filename reads searches in blast)+
  then obtain c2 reply where c2: "handle_post (stack_junk r) (body_reads r) ?req c1 = ret c2"
    "calls c2 = calls c @ [Open_file name] @ map Write_file (d0 # ds @ [dl]) @ [SSL_write reply]"
    "read_message reply = Some (''201 CREATED'', 8, ''received'')" "client_open c2" "peer_disconnected c2 = peer_disconnected c"
    unfolding r(4) using c c1(4-6) by auto
  have k: "keep_alive ?req \<longleftrightarrow> map_of (rev hs) ''Connection'' = Some ''keep-alive''" by (auto simp: keep_alive_def)
  have "serve_one fs r c = ret (if keep_alive ?req then c2 else close_client c2)"
    using c1(1) c2(1) by (simp add: serve_one_def answer_def r(1,2) get_type_as_string_def get_type_def)
  then show ?thesis
    using c2(2-5) k by (intro exI [of _ "if keep_alive ?req then c2 else close_client c2"] exI [of _ reply])
      (simp add: close_client_def Let_def)
qed

definition sample_before :: string where
  "sample_before = ''--X'' @ crlf @ ''Content-Disposition: form-data; ''"

definition sample_headers :: "(string \<times> string) list" where
  "sample_headers = [(''Content-Type'', ''multipart/form-data; boundary=X''), (''Content-Length'', show_nat 94)]"

definition sample_part :: string where
  "sample_part = part_head sample_before ''a'' ''Content-Type: text/plain'' @ crlf @ crlf @ ''ab''"

definition sample_round :: round where
  "sample_round = \<lparr>behind_head = [], head_read = Read_bytes (request_text POST ''/up'' ''HTTP/1.1'' sample_headers @ sample_part),
     stack_junk = replicate 16384 NUL, body_reads = map Read_bytes ([''ef''] @ [''cd'' @ trailer ''X'']), script_output = None\<rparr>"

lemma sample_length: "length (part_head sample_before ''a'' ''Content-Type: text/plain'') = 75"
  by (simp add: part_head_def sample_before_def crlf_def)

lemma sample_searches:
  "find_sub (crlf @ crlf) (part_head sample_before ''a'' ''Content-Type: text/plain'' @ crlf @ crlf @ ''ab'') = Some 75"
  "find_sub ''filename='' (part_head sample_before ''a'' ''Content-Type: text/plain'' @ crlf @ crlf @ ''ab'') = Some (length sample_before)"
  "find_sub ''filename='' ([CHR 0x22] @ ''a'' @ [CHR 0x22] @ crlf @ ''Content-Type: text/plain'' @ crlf @ crlf @ ''ab'') = None"
  by (simp_all add: part_head_def sample_before_def crlf_def)

lemma sample_headers_good: "h \<in> set sample_headers \<Longrightarrow> good_header h"
  by (auto simp: sample_headers_def good_header_def word_without_def iscntrl_def of_char_def show_nat_def
      show_base.simps digit_def char_of_def bit_0)

lemma sample_request_length: "length (request_text POST ''/up'' ''HTTP/1.1'' sample_headers @ sample_part) \<le> 1024"
  by (simp add: request_text_def type_to_string_def header_line_def sample_headers_def sample_part_def
      part_head_def sample_before_def crlf_def show_nat_def show_base.simps)

lemma sample_arrays:
  fixes stack :: string
  assumes "stack = replicate 16384 NUL"
  shows "put ''ef'' stack = ''ef'' @ replicate 16382 NUL"
    "put (''cd'' @ trailer ''X'') (''ef'' @ replicate 16382 NUL) = (''cd'' @ trailer ''X'') @ replicate 16373 NUL"
  by (simp_all add: assms put_def trailer_def crlf_def)

lemma sample_array_searches:
  fixes stack :: string
  assumes "stack = replicate 16384 NUL"
  shows "no_boundary ''X'' stack [''ef'']"
    "strstr (put (''cd'' @ trailer ''X'') (foldl (\<lambda>fb d. put d fb) stack [''ef''])) ''X'' = ret (Some (length ''cd'' + 4))"
    "strstr (drop (length ''cd'' + 4 + length ''X'' + 2) (put (''cd'' @ trailer ''X'') (foldl (\<lambda>fb d. put d fb) stack [''ef''])))
       (crlf @ crlf) = ret None"
proof -
  note a = sample_arrays [OF assms]
  have s: "strstr (s @ replicate (Suc k) NUL) p = ret (find_sub p s)" if "NUL \<notin> set s" for s p k
    using that by (simp add: strstr_def cstr_padded del: replicate.simps split: option.split)
  have k: "16382 = Suc 16381" "16373 = Suc 16372" by simp_all
  show "no_boundary ''X'' stack [''ef'']" using s [of "''ef''" 16381 "''X''"] by (simp only: no_boundary.simps a k) simp
  show "strstr (put (''cd'' @ trailer ''X'') (foldl (\<lambda>fb d. put d fb) stack [''ef''])) ''X'' = ret (Some (length ''cd'' + 4))"
    unfolding foldl.simps a using s [of "''cd'' @ trailer ''X''" 16372 "''X''"] by (simp add: trailer_def crlf_def)
  show "strstr (drop (length ''cd'' + 4 + length ''X'' + 2) (put (''cd'' @ trailer ''X'') (foldl (\<lambda>fb d. put d fb) stack [''ef''])))
       (crlf @ crlf) = ret None"
    unfolding foldl.simps a using s [of crlf 16372 "crlf @ crlf"] by (simp add: trailer_def crlf_def)
qed

lemma sample_plain: "NUL \<notin> set (part_head sample_before ''a'' ''Content-Type: text/plain'')"
  by (simp add: part_head_def sample_before_def crlf_def)

theorem upload_request_served_witness:
  "\<exists>c' reply. serve_one Map.empty sample_round (new_client True []) = ret c' \<and>
    read_message reply = Some (''201 CREATED'', 8, ''received'') \<and>
    calls c' = [Open_file ''a'', Write_file ''ab'', Write_file ''ef'', Write_file ''cd'', SSL_write reply,
      SSL_shutdown, SSL_free, Close_socket]"
proof -
  let ?c = "new_client True []"
  note arrays = sample_array_searches [of "stack_junk sample_round", unfolded sample_round_def round.simps, OF refl]
  have h: "map_of (rev sample_headers) ''Content-Type'' = Some (''multipart/form-data'' @ ''; boundary='' @ ''X'')"
    "map_of (rev sample_headers) ''Content-Length'' = Some (show_nat 94)" "map_of (rev sample_headers) ''Connection'' = None"
    by (simp_all add: sample_headers_def)
  have "\<exists>c' reply. serve_one Map.empty sample_round ?c = ret c' \<and>
    read_message reply = Some (''201 CREATED'', 8, ''received'') \<and>
    client_open c' = (map_of (rev sample_headers) ''Connection'' = Some ''keep-alive'') \<and>
    calls c' = calls ?c @ [Open_file ''a''] @ map Write_file (''ab'' # [''ef''] @ [''cd'']) @ [SSL_write reply] @
      (if client_open c' then [] else (if peer_disconnected ?c then [] else [SSL_shutdown]) @ [SSL_free, Close_socket])"
  proof (rule upload_request_served [where before = sample_before and after = "''Content-Type: text/plain''" and
        p = "''/up''" and v = "''HTTP/1.1''" and kind = "''multipart/form-data''" and b = "''X''" and n = 94])
    show "head_read sample_round = Read_bytes (request_text POST ''/up'' ''HTTP/1.1'' sample_headers @
        part_head sample_before ''a'' ''Content-Type: text/plain'' @ crlf @ crlf @ ''ab'')"
      by (simp add: sample_round_def sample_part_def)
    show "length (request_text POST ''/up'' ''HTTP/1.1'' sample_headers @
        part_head sample_before ''a'' ''Content-Type: text/plain'' @ crlf @ crlf @ ''ab'') \<le> 1024"
      using sample_request_length by (simp only: sample_part_def)
    show "(94::nat) = length (part_head sample_before ''a'' ''Content-Type: text/plain'' @ crlf @ crlf @ ''ab'' @ concat [''ef''] @ ''cd'' @ trailer ''X'')"
      using sample_length by (simp add: crlf_def)
  qed (use h arrays sample_searches sample_length sample_plain sample_headers_good in
      \<open>simp_all add: sample_round_def word_without_def iscntrl_def of_char_def new_client_def trailer_def crlf_def\<close>)
  then show ?thesis by (auto simp: h(3) new_client_def)
qed

end
