(* ===== verification/Http_Pool.thy ===== *)
theory Http_Pool
  imports Http_Worker Disk "HOL-Library.Multiset"
begin

text \<open>
  The processes of the server (\<open>Server.cpp\<close>): the main process accepts connections, takes the
  number of an idle worker process from the message queue \<open>/available\<close> and hands the
  connection over a socket pair; a worker serves it and puts its number back.

  A descriptor keeps the number it has in the main process. Signals, \<open>accept\<close>, \<open>sendmsg\<close> and
  the bytes of the clients are the choices of the step relation \<open>server_step\<close>; a step is a
  blocking call with the code up to the next one. Log messages are not part of
  the state; those of a worker are in \<open>Http_Access\<close>.
\<close>

section \<open>Passing descriptors\<close>

record cmsg =
  cmsg_level :: int
  cmsg_type :: int
  cmsg_data :: "byte list"

record msg =
  msg_iov :: "byte list"
  msg_control :: "cmsg option"

definition SOL_SOCKET :: int where
  "SOL_SOCKET = 1"

definition SCM_RIGHTS :: int where
  "SCM_RIGHTS = 1"

text \<open>The message \<open>send_fd\<close> hands to \<open>sendmsg\<close>, and the result for its outcome \<open>sent\<close>.\<close>

definition fd_message :: "int \<Rightarrow> msg" where
  "fd_message fd =
     \<lparr>msg_iov = [0], msg_control = Some \<lparr>cmsg_level = SOL_SOCKET, cmsg_type = SCM_RIGHTS,
       cmsg_data = le_bytes 4 (unat (word_of_int fd :: u32))\<rparr>\<rparr>"

definition send_fd :: "int \<Rightarrow> bool \<Rightarrow> msg list \<Rightarrow> int \<times> msg list" where
  "send_fd fd sent channel = (if \<not> sent then (- 1, channel) else (0, channel @ [fd_message fd]))"

text \<open>\<open>recv_fd\<close> on what \<open>recvmsg\<close> stored; \<open>None\<close> if it failed.\<close>

definition recv_fd :: "msg option \<Rightarrow> int" where
  "recv_fd received =
     (case received of
        None \<Rightarrow> - 1
      | Some m \<Rightarrow> (case msg_control m of None \<Rightarrow> - 1 | Some c \<Rightarrow> sint (le32 (take 4 (cmsg_data c)))))"

section \<open>The queue of idle workers\<close>

text \<open>The numbers of Linux.\<close>

definition O_RDWR :: int where "O_RDWR = 2"
definition O_CREAT :: int where "O_CREAT = 64"
definition O_NONBLOCK :: int where "O_NONBLOCK = 2048"

record mq_attr =
  mq_flags :: int
  mq_maxmsg :: int

text \<open>
  \<open>mq_open\<close> takes from its flags whether calls on the descriptor block, and ignores \<open>mq_flags\<close>. A
  queue that exists keeps its size and its messages; a new one has the size asked for. The
  result is whether the queue does not block, its size, and its messages.
\<close>

definition mq_open :: "int \<Rightarrow> mq_attr \<Rightarrow> (nat \<times> int list) option \<Rightarrow> bool \<times> nat \<times> int list" where
  "mq_open oflag attr existing =
     (oflag AND O_NONBLOCK \<noteq> 0, case existing of None \<Rightarrow> (nat (mq_maxmsg attr), []) | Some q \<Rightarrow> q)"

section \<open>State\<close>

datatype worker_state = No_process | Waiting | Serving int client | Crashed int

record worker =
  channel :: "msg list"
  wstate :: worker_state

text \<open>Where the main process is in the loop of \<open>run\<close>.\<close>

datatype main_pc = Loop_head | At_accept | Accepted int | Chosen int int | Left_loop

record server =
  max_connections :: int
  should_stop :: bool
  available_clients :: "int list"
  available_nonblocking :: bool
  available_room :: nat
  client_processes :: "int list"
  workers :: "worker list"
  main_at :: main_pc
  open_sockets :: "int list"
  dropped :: "(int \<times> nat) list"
  refused :: "(int \<times> call list) list"
  finished :: "(int \<times> call list) list"

text \<open>
  \<open>dropped\<close>, \<open>refused\<close> and \<open>finished\<close> record what has happened to connections: received by a
  worker without its descriptor, answered with 503, served.
\<close>

definition new_server :: server where
  "new_server = \<lparr>max_connections = 10, should_stop = False, available_clients = [], available_nonblocking = False,
     available_room = 0, client_processes = [], workers = [], main_at = Loop_head, open_sockets = [], dropped = [],
     refused = [], finished = []\<rparr>"

definition configure_max_connections :: "int \<Rightarrow> server \<Rightarrow> server" where
  "configure_max_connections n s = s\<lparr>max_connections := n\<rparr>"

definition cancellation_requested :: "server \<Rightarrow> server" where
  "cancellation_requested s = s\<lparr>should_stop := True\<rparr>"

text \<open>
  \<open>mq_send(_available_clients, ...)\<close>: with a full queue it waits, or fails (which the code does not
  look at) if the queue does not block. That a signal ends the wait is left out.
\<close>

definition mq_send_available :: "int \<Rightarrow> server \<Rightarrow> server res" where
  "mq_send_available pid s =
     (if length (available_clients s) < available_room s then ret (s\<lparr>available_clients := available_clients s @ [pid]\<rparr>)
      else if available_nonblocking s then ret s else None)"

section \<open>Starting the workers\<close>

text \<open>
  One element per turn of the loop: \<open>None\<close> if \<open>socketpair\<close> fails, else what \<open>fork\<close> returns in
  the main process. \<open>Inl c\<close> is \<open>exit(c)\<close>. A child goes to \<open>recv_fd\<close>; that it can set up its
  signals is taken for granted.
\<close>

primrec fork_workers :: "int option list \<Rightarrow> nat \<Rightarrow> server \<Rightarrow> (int + server) res" where
  "fork_workers [] i s = ret (Inr s)"
| "fork_workers (x # xs) i s =
     (case x of
        None \<Rightarrow> ret (Inl 1)
      | Some pid \<Rightarrow>
          if pid < 0 then fork_workers xs (Suc i) s
          else res_bind (mq_send_available pid s) (\<lambda>s1. fork_workers xs (Suc i)
                 (s1\<lparr>client_processes := (client_processes s1)[i := pid],
                     workers := (workers s1)[i := \<lparr>channel = [], wstate = Waiting\<rparr>]\<rparr>)))"

text \<open>\<open>existing\<close> is the queue \<open>/available\<close> if there is one from before.\<close>

definition start_client_processes ::
  "bool \<Rightarrow> (nat \<times> int list) option \<Rightarrow> (nat \<Rightarrow> int option) \<Rightarrow> server \<Rightarrow> (int + server) res" where
  "start_client_processes mq_opened existing forks s =
     (let (nonblocking, room, messages) =
            mq_open (O_CREAT OR O_RDWR) \<lparr>mq_flags = O_NONBLOCK, mq_maxmsg = max_connections s\<rparr> existing;
          s1 = s\<lparr>available_clients := messages, available_nonblocking := nonblocking, available_room := room\<rparr>;
          n = nat (max_connections s)
      in if \<not> mq_opened then ret (Inl 1)
         else if max_connections s < 0 then fail Uncaught
         else fork_workers (map forks [0..<n]) 0
                (s1\<lparr>client_processes := replicate n 0, workers := replicate n \<lparr>channel = [], wstate = No_process\<rparr>\<rparr>))"

section \<open>The main process\<close>

text \<open>\<open>std::distance\<close> to what \<open>std::find\<close> returns: the length of the vector if there is none.\<close>

definition index_of :: "int \<Rightarrow> int list \<Rightarrow> nat" where
  "index_of pid pids = length (takeWhile (\<lambda>p. p \<noteq> pid) pids)"

definition close_socket :: "int \<Rightarrow> server \<Rightarrow> server" where
  "close_socket fd s = s\<lparr>open_sockets := remove1 fd (open_sockets s)\<rparr>"

text \<open>Behind \<open>mq_receive\<close>: with the number of a worker, or the answer \<open>503\<close>.\<close>

definition hand_over :: "bool \<Rightarrow> int \<Rightarrow> int \<Rightarrow> server \<Rightarrow> server res" where
  "hand_over sent fd pid s =
     (let i = index_of pid (client_processes s) in
      if length (workers s) \<le> i then fail OutOfBounds
      else
        let w = workers s ! i; (result, ch) = send_fd fd sent (channel w);
            s1 = s\<lparr>workers := (workers s)[i := w\<lparr>channel := ch\<rparr>], main_at := Loop_head\<rparr>
        in if result = - 1 then res_bind (mq_send_available pid s1) (\<lambda>s2. ret (close_socket fd s2)) else ret s1)"

definition refuse :: "files \<Rightarrow> bool \<Rightarrow> string \<Rightarrow> int \<Rightarrow> server \<Rightarrow> server res" where
  "refuse fs accepted junk fd s =
     (let c = new_client accepted junk in
      res_bind (create_service_unavailable_response fs new_response) (\<lambda>resp.
        let c1 = close_client (send_response resp c)
        in ret (close_socket fd (s\<lparr>main_at := Loop_head, refused := refused s @ [(fd, calls c1)]\<rparr>))))"

section \<open>A worker process\<close>

definition set_worker :: "nat \<Rightarrow> worker \<Rightarrow> server \<Rightarrow> server" where
  "set_worker i w s = s\<lparr>workers := (workers s)[i := w]\<rparr>"

text \<open>Behind \<open>recvmsg\<close>: a new connection, or none.\<close>

definition take_connection :: "bool \<Rightarrow> string \<Rightarrow> msg option \<Rightarrow> (int \<times> client) option" where
  "take_connection accepted junk received =
     (let fd = recv_fd received in if fd = - 1 then None else Some (fd, new_client accepted junk))"

lemma take_connection_Some [simp]:
  "take_connection accepted junk m = Some (fd, c) \<longleftrightarrow> recv_fd m = fd \<and> fd \<noteq> - 1 \<and> c = new_client accepted junk"
  by (auto simp: take_connection_def Let_def)

text \<open>
  \<open>recvmsg\<close> when the worker has no room for a further descriptor: the message comes without it.
\<close>

definition without_descriptor :: "msg \<Rightarrow> msg" where
  "without_descriptor m = m\<lparr>msg_control := None\<rparr>"

text \<open>The connection is done: the number of the process goes back to the queue.\<close>

definition give_back :: "nat \<Rightarrow> int \<Rightarrow> client \<Rightarrow> server \<Rightarrow> server res" where
  "give_back i fd c s =
     res_bind (mq_send_available (client_processes s ! i) s) (\<lambda>s1.
       ret (set_worker i ((workers s1 ! i)\<lparr>wstate := Waiting\<rparr>) (s1\<lparr>finished := finished s1 @ [(fd, calls c)]\<rparr>)))"

section \<open>Steps\<close>

text \<open>
  \<open>mq_receive\<close> on the empty queue returns \<open>-1\<close> at once if the queue does not block, and otherwise
  when a signal handler has run while it waited; the only handler is \<open>cancellation_requested\<close>. A
  worker goes on waiting when \<open>recv_fd\<close> returns \<open>-1\<close>, without giving its number back; it can
  die while it serves, by a fault or by \<open>SIGPIPE\<close>, for which there is no handler.
\<close>

inductive server_step :: "files \<Rightarrow> int \<Rightarrow> server \<Rightarrow> server \<Rightarrow> bool" for fs fd_limit where
  interrupt: "server_step fs fd_limit s (cancellation_requested s)"
| enter: "main_at s = Loop_head \<Longrightarrow> \<not> should_stop s \<Longrightarrow>
    server_step fs fd_limit s (s\<lparr>main_at := At_accept\<rparr>)"
| leave: "main_at s = Loop_head \<Longrightarrow> should_stop s \<Longrightarrow>
    server_step fs fd_limit s (s\<lparr>main_at := Left_loop\<rparr>)"
| accept: "main_at s = At_accept \<Longrightarrow> 0 \<le> fd \<Longrightarrow> fd < fd_limit \<Longrightarrow> fd \<notin> set (open_sockets s) \<Longrightarrow>
    server_step fs fd_limit s (s\<lparr>main_at := Accepted fd, open_sockets := open_sockets s @ [fd]\<rparr>)"
| accept_fails: "main_at s = At_accept \<Longrightarrow>
    server_step fs fd_limit s (s\<lparr>main_at := Loop_head\<rparr>)"
| take_worker: "main_at s = Accepted fd \<Longrightarrow> available_clients s = pid # rest \<Longrightarrow>
    server_step fs fd_limit s (s\<lparr>main_at := Chosen fd pid, available_clients := rest\<rparr>)"
| no_worker: "main_at s = Accepted fd \<Longrightarrow> available_clients s = [] \<Longrightarrow> available_nonblocking s \<Longrightarrow>
    refuse fs accepted junk fd s = ret s' \<Longrightarrow> server_step fs fd_limit s s'"
| no_worker_interrupted: "main_at s = Accepted fd \<Longrightarrow> available_clients s = [] \<Longrightarrow>
    refuse fs accepted junk fd (cancellation_requested s) = ret s' \<Longrightarrow> server_step fs fd_limit s s'"
| hand: "main_at s = Chosen fd pid \<Longrightarrow> hand_over sent fd pid s = ret s' \<Longrightarrow>
    server_step fs fd_limit s s'"
| receive: "i < length (workers s) \<Longrightarrow> workers s ! i = \<lparr>channel = m # ms, wstate = Waiting\<rparr> \<Longrightarrow>
    take_connection accepted junk (Some m) = Some (fd, c) \<Longrightarrow>
    server_step fs fd_limit s (set_worker i \<lparr>channel = ms, wstate = Serving fd c\<rparr> s)"
| receive_fails: "i < length (workers s) \<Longrightarrow> wstate (workers s ! i) = Waiting \<Longrightarrow>
    take_connection accepted junk None = None \<Longrightarrow> server_step fs fd_limit s s"
| receive_nothing: "i < length (workers s) \<Longrightarrow> workers s ! i = \<lparr>channel = m # ms, wstate = Waiting\<rparr> \<Longrightarrow>
    take_connection accepted junk (Some (without_descriptor m)) = None \<Longrightarrow>
    server_step fs fd_limit s ((set_worker i \<lparr>channel = ms, wstate = Waiting\<rparr> s)\<lparr>dropped := dropped s @ [(recv_fd (Some m), i)]\<rparr>)"
| serve: "i < length (workers s) \<Longrightarrow> workers s ! i = \<lparr>channel = ms, wstate = Serving fd c\<rparr> \<Longrightarrow> client_open c \<Longrightarrow>
    serve_one fs r c = ret c' \<Longrightarrow>
    server_step fs fd_limit s (set_worker i \<lparr>channel = ms, wstate = Serving fd c'\<rparr> s)"
| crash: "i < length (workers s) \<Longrightarrow> workers s ! i = \<lparr>channel = ms, wstate = Serving fd c\<rparr> \<Longrightarrow> client_open c \<Longrightarrow>
    serve_one fs r c = fail e \<Longrightarrow>
    server_step fs fd_limit s (set_worker i \<lparr>channel = ms, wstate = Crashed fd\<rparr> s)"
| broken_pipe: "i < length (workers s) \<Longrightarrow> workers s ! i = \<lparr>channel = ms, wstate = Serving fd c\<rparr> \<Longrightarrow> client_open c \<Longrightarrow>
    server_step fs fd_limit s (set_worker i \<lparr>channel = ms, wstate = Crashed fd\<rparr> s)"
| finish: "i < length (workers s) \<Longrightarrow> workers s ! i = \<lparr>channel = ms, wstate = Serving fd c\<rparr> \<Longrightarrow> \<not> client_open c \<Longrightarrow>
    give_back i fd c s = ret s' \<Longrightarrow> server_step fs fd_limit s s'"

inductive_cases server_stepE: "server_step fs fd_limit s s'"

abbreviation server_reaches :: "files \<Rightarrow> int \<Rightarrow> server \<Rightarrow> server \<Rightarrow> bool" where
  "server_reaches fs fd_limit \<equiv> (server_step fs fd_limit)\<^sup>*\<^sup>*"

lemma server_start [simp]: "server_reaches fs fd_limit s s"
  by simp

lemma server_next:
  "server_reaches fs fd_limit s0 s \<Longrightarrow> server_step fs fd_limit s s' \<Longrightarrow>
   server_reaches fs fd_limit s0 s'"
  by (rule rtranclp.rtrancl_into_rtrancl)

section \<open>Who holds a connection, who holds a worker\<close>

lemma recv_send [simp]: "0 \<le> fd \<Longrightarrow> fd < 2 ^ 31 \<Longrightarrow> recv_fd (Some (fd_message fd)) = fd"
proof -
  assume fd: "0 \<le> fd" "fd < 2 ^ 31"
  have "le32 (le_bytes 4 (unat (word_of_int fd :: u32))) = (word_of_int fd :: u32)"
    by (rule u32c.dec_enc) simp
  then show ?thesis using fd by (simp add: recv_fd_def fd_message_def sint_sbintrunc' signed_take_bit_int_eq_self)
qed

text \<open>The connections of a worker: those sent to it and the one it serves or died with.\<close>

definition conns_of :: "worker \<Rightarrow> int list" where
  "conns_of w = map (\<lambda>m. recv_fd (Some m)) (channel w) @
     (case wstate w of Serving fd _ \<Rightarrow> [fd] | Crashed fd \<Rightarrow> [fd] | _ \<Rightarrow> [])"

definition main_conns :: "main_pc \<Rightarrow> int list" where
  "main_conns p = (case p of Accepted fd \<Rightarrow> [fd] | Chosen fd _ \<Rightarrow> [fd] | _ \<Rightarrow> [])"

definition held :: "server \<Rightarrow> int multiset" where
  "held s = mset (main_conns (main_at s)) + mset (concat (map conns_of (workers s))) + mset (map fst (finished s)) +
     mset (map fst (dropped s))"

definition conns_ok :: "int \<Rightarrow> server \<Rightarrow> bool" where
  "conns_ok fd_limit s \<longleftrightarrow>
     mset (open_sockets s) = held s \<and> distinct (open_sockets s) \<and> (\<forall>fd\<in>set (open_sockets s). 0 \<le> fd \<and> fd < fd_limit)"

text \<open>
  The tokens of a slot: every mention of its process as idle, every connection it has, and every
  connection it has lost without giving its number back.
\<close>

definition chosen :: "main_pc \<Rightarrow> int \<Rightarrow> nat" where
  "chosen m pid = (case m of Chosen _ p \<Rightarrow> if p = pid then 1 else 0 | _ \<Rightarrow> 0)"

definition load :: "worker \<Rightarrow> nat" where
  "load w = length (channel w) + (case wstate w of Serving _ _ \<Rightarrow> 1 | _ \<Rightarrow> 0)"

definition tokens :: "server \<Rightarrow> nat \<Rightarrow> nat" where
  "tokens s i =
     count_list (available_clients s) (client_processes s ! i) + chosen (main_at s) (client_processes s ! i) +
     load (workers s ! i) + count_list (map snd (dropped s)) i"

definition alive :: "worker_state \<Rightarrow> bool" where
  "alive w = (case w of No_process \<Rightarrow> False | Crashed _ \<Rightarrow> False | _ \<Rightarrow> True)"

definition pids_ok :: "server \<Rightarrow> bool" where
  "pids_ok s \<longleftrightarrow>
     length (workers s) = nat (max_connections s) \<and> length (client_processes s) = nat (max_connections s) \<and>
     (\<forall>i<length (workers s). wstate (workers s ! i) = No_process \<longleftrightarrow> client_processes s ! i = 0) \<and>
     (\<forall>i<length (workers s). \<forall>j<length (workers s).
        client_processes s ! i = client_processes s ! j \<and> client_processes s ! i \<noteq> 0 \<longrightarrow> i = j)"

definition named :: "server \<Rightarrow> int \<Rightarrow> bool" where
  "named s pid \<longleftrightarrow> pid \<noteq> 0 \<and> pid \<in> set (client_processes s)"

definition tokens_ok :: "server \<Rightarrow> bool" where
  "tokens_ok s \<longleftrightarrow> \<not> available_nonblocking s \<and>
     (\<forall>i<length (workers s). tokens s i = (if alive (wstate (workers s ! i)) then 1 else 0)) \<and>
     (\<forall>pid\<in>set (available_clients s). named s pid) \<and>
     (case main_at s of Chosen _ pid \<Rightarrow> named s pid | _ \<Rightarrow> True)"

lemma index_of_lt: "pid \<in> set pids \<Longrightarrow> index_of pid pids < length pids \<and> pids ! index_of pid pids = pid"
  by (induction pids) (auto simp: index_of_def)

lemma mset_update:
  assumes "i < length ws"
  shows "mset (concat (map f (ws[i := w]))) + mset (f (ws ! i)) = mset (concat (map f ws)) + mset (f w)"
  using assms
proof (induction ws arbitrary: i)
  case (Cons x ws)
  then show ?case by (cases i) (auto simp: ac_simps)
qed simp

lemma mset_update_same:
  "i < length ws \<Longrightarrow> mset (f (ws ! i)) = mset (f w) \<Longrightarrow> mset (concat (map f (ws[i := w]))) = mset (concat (map f ws))"
  using mset_update [of i ws f w] by simp

lemma named_slot:
  assumes "pids_ok s" "named s pid"
  obtains i where "i < length (workers s)" "index_of pid (client_processes s) = i" "client_processes s ! i = pid"
    "\<And>j. j < length (workers s) \<Longrightarrow> client_processes s ! j = pid \<Longrightarrow> j = i"
proof
  have p: "pid \<in> set (client_processes s)" "pid \<noteq> 0" using assms(2) by (auto simp: named_def)
  have l: "length (client_processes s) = length (workers s)" using assms(1) by (simp add: pids_ok_def)
  show i: "index_of pid (client_processes s) < length (workers s)" "index_of pid (client_processes s) = index_of pid (client_processes s)"
    "client_processes s ! index_of pid (client_processes s) = pid"
    using index_of_lt [OF p(1)] l by auto
  show "j = index_of pid (client_processes s)" if "j < length (workers s)" "client_processes s ! j = pid" for j
    using assms(1) i that p(2) unfolding pids_ok_def by metis
qed

text \<open>The processes stay the same; only a worker that serves can die.\<close>

lemma set_worker_sel [simp]:
  "client_processes (set_worker i w s) = client_processes s" "available_clients (set_worker i w s) = available_clients s"
  "main_at (set_worker i w s) = main_at s" "dropped (set_worker i w s) = dropped s" "available_room (set_worker i w s) = available_room s"
  "available_nonblocking (set_worker i w s) = available_nonblocking s" "open_sockets (set_worker i w s) = open_sockets s"
  "workers (set_worker i w s) = (workers s)[i := w]" "finished (set_worker i w s) = finished s"
  "refused (set_worker i w s) = refused s" "max_connections (set_worker i w s) = max_connections s"
  "should_stop (set_worker i w s) = should_stop s"
  by (simp_all add: set_worker_def)

lemma close_socket_sel [simp]:
  "client_processes (close_socket fd s) = client_processes s" "available_clients (close_socket fd s) = available_clients s"
  "main_at (close_socket fd s) = main_at s" "dropped (close_socket fd s) = dropped s" "available_room (close_socket fd s) = available_room s"
  "available_nonblocking (close_socket fd s) = available_nonblocking s" "open_sockets (close_socket fd s) = remove1 fd (open_sockets s)"
  "workers (close_socket fd s) = workers s" "finished (close_socket fd s) = finished s"
  "refused (close_socket fd s) = refused s" "max_connections (close_socket fd s) = max_connections s"
  "should_stop (close_socket fd s) = should_stop s"
  by (simp_all add: close_socket_def)

lemma cancellation_sel [simp]:
  "client_processes (cancellation_requested s) = client_processes s" "available_clients (cancellation_requested s) = available_clients s"
  "main_at (cancellation_requested s) = main_at s" "dropped (cancellation_requested s) = dropped s" "available_room (cancellation_requested s) = available_room s"
  "available_nonblocking (cancellation_requested s) = available_nonblocking s" "open_sockets (cancellation_requested s) = open_sockets s"
  "workers (cancellation_requested s) = workers s" "finished (cancellation_requested s) = finished s"
  "refused (cancellation_requested s) = refused s" "max_connections (cancellation_requested s) = max_connections s"
  "should_stop (cancellation_requested s)"
  by (simp_all add: cancellation_requested_def)

lemma refuseE:
  assumes "refuse fs accepted junk fd s = ret s'"
  obtains resp where "s' = close_socket fd (s\<lparr>main_at := Loop_head,
    refused := refused s @ [(fd, calls (close_client (send_response resp (new_client accepted junk))))]\<rparr>)"
    "create_service_unavailable_response fs new_response = ret resp"
  using assms by (auto simp: refuse_def Let_def)

lemma mq_send_cases:
  assumes "mq_send_available pid s = ret s'"
  obtains (room) "length (available_clients s) < available_room s" "s' = s\<lparr>available_clients := available_clients s @ [pid]\<rparr>"
    | (full) "available_nonblocking s" "s' = s"
  using assms by (auto simp: mq_send_available_def split: if_splits)

lemma hand_over_named:
  assumes "hand_over sent fd pid s = ret s'"
  defines "i \<equiv> index_of pid (client_processes s)"
  shows "i < length (workers s)"
    "sent \<Longrightarrow> s' = set_worker i ((workers s ! i)\<lparr>channel := channel (workers s ! i) @ [fd_message fd]\<rparr>) (s\<lparr>main_at := Loop_head\<rparr>)"
    "\<not> sent \<Longrightarrow> \<exists>s1. mq_send_available pid (s\<lparr>main_at := Loop_head\<rparr>) = ret s1 \<and> s' = close_socket fd s1"
proof -
  show i: "i < length (workers s)" using assms by (auto simp: hand_over_def Let_def split: if_splits)
  have "(workers s)[i := (workers s ! i)\<lparr>channel := channel (workers s ! i)\<rparr>] = workers s" by simp
  moreover have "s\<lparr>workers := workers s, main_at := Loop_head\<rparr> = s\<lparr>main_at := Loop_head\<rparr>" by simp
  ultimately show "sent \<Longrightarrow> s' = set_worker i ((workers s ! i)\<lparr>channel := channel (workers s ! i) @ [fd_message fd]\<rparr>) (s\<lparr>main_at := Loop_head\<rparr>)"
    "\<not> sent \<Longrightarrow> \<exists>s1. mq_send_available pid (s\<lparr>main_at := Loop_head\<rparr>) = ret s1 \<and> s' = close_socket fd s1"
    using assms i by (auto simp: hand_over_def Let_def send_fd_def set_worker_def split: if_splits)
qed

text \<open>A connection that could not be sent: the number of the worker goes back.\<close>

lemma hand_over_failed:
  assumes "hand_over False fd pid s = ret s'"
  shows "\<exists>xs. (xs = [pid] \<or> xs = [] \<and> available_nonblocking s) \<and>
    s' = close_socket fd (s\<lparr>main_at := Loop_head, available_clients := available_clients s @ xs\<rparr>)"
proof -
  obtain s1 where s1: "mq_send_available pid (s\<lparr>main_at := Loop_head\<rparr>) = ret s1" "s' = close_socket fd s1"
    using hand_over_named(3) [OF assms] by auto
  from s1(1) show ?thesis
  proof (cases rule: mq_send_cases)
    case room
    then show ?thesis using s1(2) by (intro exI [of _ "[pid]"]) simp
  next
    case full
    then show ?thesis using s1(2) by (intro exI [of _ "[]"]) simp
  qed
qed

lemma give_back_cases:
  assumes "give_back i fd c s = ret s'"
  shows "\<exists>xs. (xs = [client_processes s ! i] \<and> length (available_clients s) < available_room s \<or> xs = [] \<and> available_nonblocking s) \<and>
    s' = set_worker i ((workers s ! i)\<lparr>wstate := Waiting\<rparr>)
      (s\<lparr>available_clients := available_clients s @ xs, finished := finished s @ [(fd, calls c)]\<rparr>)"
proof -
  obtain s1 where s1: "mq_send_available (client_processes s ! i) s = ret s1"
    "s' = set_worker i ((workers s1 ! i)\<lparr>wstate := Waiting\<rparr>) (s1\<lparr>finished := finished s1 @ [(fd, calls c)]\<rparr>)"
    using assms by (auto simp: give_back_def)
  from s1(1) show ?thesis
  proof (cases rule: mq_send_cases)
    case room
    then show ?thesis using s1(2) by (intro exI [of _ "[client_processes s ! i]"]) simp
  next
    case full
    then show ?thesis using s1(2) by (intro exI [of _ "[]"]) simp
  qed
qed

section \<open>Every step keeps the invariants\<close>

lemma set_worker_pids:
  assumes "pids_ok s" "i < length (workers s)" "wstate w = No_process \<longleftrightarrow> wstate (workers s ! i) = No_process"
  shows "pids_ok (set_worker i w s)"
  using assms by (auto simp: pids_ok_def nth_list_update)

lemma pids_ok_frame [simp]:
  "pids_ok (s\<lparr>main_at := m\<rparr>) = pids_ok s" "pids_ok (s\<lparr>available_clients := a\<rparr>) = pids_ok s"
  "pids_ok (s\<lparr>open_sockets := op\<rparr>) = pids_ok s" "pids_ok (s\<lparr>finished := f\<rparr>) = pids_ok s" "pids_ok (s\<lparr>dropped := dr\<rparr>) = pids_ok s"
  "pids_ok (s\<lparr>refused := r\<rparr>) = pids_ok s" "pids_ok (cancellation_requested s) = pids_ok s"
  "pids_ok (close_socket fd s) = pids_ok s"
  by (simp_all add: pids_ok_def)

lemma pids_step:
  assumes "server_step fs maxfd s s'" "pids_ok s"
  shows "pids_ok s' \<and> client_processes s' = client_processes s \<and> max_connections s' = max_connections s \<and>
    available_room s' = available_room s \<and> available_nonblocking s' = available_nonblocking s"
  using assms(1)
proof cases
  case (no_worker fd accepted junk)
  from no_worker(4) show ?thesis by (rule refuseE) (use assms(2) in simp)
next
  case (no_worker_interrupted fd accepted junk)
  from no_worker_interrupted(3) show ?thesis by (rule refuseE) (use assms(2) in simp)
next
  case (hand fd pid sent)
  show ?thesis
  proof (cases sent)
    case True
    then show ?thesis using hand_over_named(1,2) [OF hand(2)] assms(2) by (auto intro!: set_worker_pids)
  next
    case False
    then show ?thesis using hand_over_failed [of fd pid s s'] hand(2) assms(2) by auto
  qed
next
  case (finish i ms fd c)
  obtain xs where "s' = set_worker i ((workers s ! i)\<lparr>wstate := Waiting\<rparr>)
      (s\<lparr>available_clients := available_clients s @ xs, finished := finished s @ [(fd, calls c)]\<rparr>)"
    using give_back_cases [OF finish(4)] by blast
  then show ?thesis using assms(2) finish(1,2) by (auto intro!: set_worker_pids)
qed (use assms(2) in \<open>auto intro!: set_worker_pids\<close>)

lemma held_frame [simp]:
  "held (s\<lparr>available_clients := a\<rparr>) = held s" "held (s\<lparr>open_sockets := op\<rparr>) = held s"
  "held (s\<lparr>refused := r\<rparr>) = held s" "held (cancellation_requested s) = held s"
  "held (close_socket fd s) = held s"
  by (simp_all add: held_def)

lemma held_set_worker:
  "i < length (workers s) \<Longrightarrow> mset (conns_of (workers s ! i)) = mset (conns_of w) \<Longrightarrow> held (set_worker i w s) = held s"
  by (simp add: held_def mset_update_same)

lemma held_give_worker:
  "i < length (workers s) \<Longrightarrow> mset (conns_of w) = add_mset fd (mset (conns_of (workers s ! i))) \<Longrightarrow>
   held (set_worker i w s) = add_mset fd (held s)"
  using mset_update [of i "workers s" conns_of w] by (simp add: held_def)

lemma held_main:
  "held (s\<lparr>main_at := m\<rparr>) + mset (main_conns (main_at s)) = held s + mset (main_conns m)"
  by (simp add: held_def ac_simps)

lemma conns_close:
  assumes "conns_ok maxfd s" "held s = add_mset fd (held s1)" "open_sockets s1 = open_sockets s"
  shows "conns_ok maxfd (close_socket fd s1)"
proof -
  have "mset (remove1 fd (open_sockets s)) = held s1"
    using assms(1,2) by (simp add: conns_ok_def)
  then show ?thesis using assms(1,3) set_remove1_subset [of fd "open_sockets s"]
    by (auto simp: conns_ok_def)
qed

lemma conns_same: "conns_ok maxfd s \<Longrightarrow> held s' = held s \<Longrightarrow> open_sockets s' = open_sockets s \<Longrightarrow> conns_ok maxfd s'"
  by (simp add: conns_ok_def)

lemma conns_step:
  assumes "server_step fs maxfd s s'" "conns_ok maxfd s" "maxfd \<le> 2 ^ 31"
  shows "conns_ok maxfd s'"
  using assms(1)
proof cases
  case interrupt
  then show ?thesis using assms(2) by (simp add: conns_ok_def)
next
  case enter
  then show ?thesis using assms(2) by (simp add: conns_ok_def held_def main_conns_def)
next
  case leave
  then show ?thesis using assms(2) by (simp add: conns_ok_def held_def main_conns_def)
next
  case (accept fd)
  then show ?thesis using assms(2) by (auto simp: conns_ok_def held_def main_conns_def)
next
  case accept_fails
  then show ?thesis using assms(2) by (simp add: conns_ok_def held_def main_conns_def)
next
  case (take_worker fd pid rest)
  then show ?thesis using assms(2) by (simp add: conns_ok_def held_def main_conns_def)
next
  case (no_worker fd accepted junk)
  from no_worker(4) show ?thesis
    by (rule refuseE) (use no_worker(1) in \<open>auto intro!: conns_close [OF assms(2)] simp: held_def main_conns_def\<close>)
next
  case (no_worker_interrupted fd accepted junk)
  from no_worker_interrupted(3) show ?thesis
    by (rule refuseE) (use no_worker_interrupted(1) in \<open>auto intro!: conns_close [OF assms(2)] simp: held_def main_conns_def\<close>)
next
  case (hand fd pid sent)
  note h = hand_over_named [OF hand(2)]
  have "fd \<in># held s" using hand(1) by (simp add: held_def main_conns_def)
  then have "fd \<in> set (open_sockets s)" using assms(2) by (metis conns_ok_def set_mset_mset)
  then have fd: "0 \<le> fd" "fd < 2 ^ 31" using assms(2,3) by (auto simp: conns_ok_def)
  have m: "held s = add_mset fd (held (s\<lparr>main_at := Loop_head\<rparr>))"
    using hand(1) by (simp add: held_def main_conns_def)
  show ?thesis
  proof (cases sent)
    case True
    let ?w = "workers s ! index_of pid (client_processes s)"
    have "mset (conns_of (?w\<lparr>channel := channel ?w @ [fd_message fd]\<rparr>)) = add_mset fd (mset (conns_of ?w))"
      using fd by (simp add: conns_of_def)
    then have "held s' = held s"
      unfolding h(2) [OF True] m using h(1) by (simp add: held_give_worker)
    then show ?thesis by (rule conns_same [OF assms(2)]) (simp add: h(2) [OF True])
  next
    case False
    then obtain xs where "s' = close_socket fd (s\<lparr>main_at := Loop_head, available_clients := available_clients s @ xs\<rparr>)"
      using hand_over_failed [of fd pid s s'] hand(2) by auto
    then show ?thesis using m by (auto intro!: conns_close [OF assms(2)] simp: held_def)
  qed
next
  case (receive i m ms accepted junk fd c)
  have "held s' = held s"
    unfolding receive(1) by (rule held_set_worker) (use receive in \<open>simp_all add: conns_of_def\<close>)
  then show ?thesis using receive(1) by (intro conns_same [OF assms(2)]) simp_all
next
  case receive_fails
  then show ?thesis using assms(2) by simp
next
  case (receive_nothing i m ms accepted junk)
  have "mset (concat (map conns_of ((workers s)[i := \<lparr>channel = ms, wstate = Waiting\<rparr>]))) + {#recv_fd (Some m)#} =
      mset (concat (map conns_of (workers s)))"
    using mset_update [OF receive_nothing(2), of conns_of "\<lparr>channel = ms, wstate = Waiting\<rparr>"] receive_nothing(3)
    by (simp add: conns_of_def)
  then have "held s' = held s" unfolding receive_nothing(1) by (simp add: held_def ac_simps)
  then show ?thesis using receive_nothing(1) by (intro conns_same [OF assms(2)]) simp_all
next
  case (serve i ms fd c r c')
  have "held s' = held s"
    unfolding serve(1) by (rule held_set_worker) (use serve in \<open>simp_all add: conns_of_def\<close>)
  then show ?thesis using serve(1) by (intro conns_same [OF assms(2)]) simp_all
next
  case (crash i ms fd c r e)
  have "held s' = held s"
    unfolding crash(1) by (rule held_set_worker) (use crash in \<open>simp_all add: conns_of_def\<close>)
  then show ?thesis using crash(1) by (intro conns_same [OF assms(2)]) simp_all
next
  case (broken_pipe i ms fd c)
  have "held s' = held s"
    unfolding broken_pipe(1) by (rule held_set_worker) (use broken_pipe in \<open>simp_all add: conns_of_def\<close>)
  then show ?thesis using broken_pipe(1) by (intro conns_same [OF assms(2)]) simp_all
next
  case (finish i ms fd c)
  let ?w = "workers s ! i"
  obtain xs where s': "s' = set_worker i (?w\<lparr>wstate := Waiting\<rparr>)
      (s\<lparr>available_clients := available_clients s @ xs, finished := finished s @ [(fd, calls c)]\<rparr>)"
    using give_back_cases [OF finish(4)] by blast
  have "mset (concat (map conns_of ((workers s)[i := ?w\<lparr>wstate := Waiting\<rparr>]))) + {#fd#} = mset (concat (map conns_of (workers s)))"
    using mset_update [OF finish(1), of conns_of "?w\<lparr>wstate := Waiting\<rparr>"] finish(2) by (simp add: conns_of_def)
  then have "held s' = held s" unfolding s' by (simp add: held_def ac_simps)
  then show ?thesis using s' by (intro conns_same [OF assms(2)]) simp_all
qed

lemma tokens_frame [simp]:
  "tokens (s\<lparr>open_sockets := op\<rparr>) i = tokens s i" "tokens (s\<lparr>finished := f\<rparr>) i = tokens s i"
  "tokens (s\<lparr>refused := r\<rparr>) i = tokens s i" "tokens (cancellation_requested s) i = tokens s i"
  "tokens (close_socket fd s) i = tokens s i"
  by (simp_all add: tokens_def)

lemma named_frame [simp]:
  "named (s\<lparr>main_at := m\<rparr>) = named s" "named (s\<lparr>available_clients := a\<rparr>) = named s"
  "named (s\<lparr>open_sockets := op\<rparr>) = named s" "named (s\<lparr>finished := f\<rparr>) = named s"
  "named (s\<lparr>refused := r\<rparr>) = named s" "named (cancellation_requested s) = named s"
  "named (close_socket fd s) = named s" "named (set_worker i w s) = named s" "named (s\<lparr>dropped := dr\<rparr>) = named s"
  by (simp_all add: named_def fun_eq_iff)

lemma alive_simps [simp]: "alive Waiting" "alive (Serving fd c)" "\<not> alive (Crashed fd)" "\<not> alive No_process"
  by (simp_all add: alive_def)

lemma chosen_simps [simp]:
  "chosen Loop_head p = 0" "chosen At_accept p = 0" "chosen (Accepted fd) p = 0" "chosen Left_loop p = 0"
  "chosen (Chosen fd q) p = (if q = p then 1 else 0)"
  by (simp_all add: chosen_def)

text \<open>A change that leaves the balance of every slot alone.\<close>

lemma tokens_ok_balance:
  assumes "tokens_ok s" "length (workers s') = length (workers s)"
    "\<And>j. j < length (workers s) \<Longrightarrow> tokens s' j = tokens s j \<and> alive (wstate (workers s' ! j)) = alive (wstate (workers s ! j))"
    "\<And>pid. pid \<in> set (available_clients s') \<Longrightarrow> named s' pid" "\<And>fd pid. main_at s' = Chosen fd pid \<Longrightarrow> named s' pid"
    "available_nonblocking s' = available_nonblocking s"
  shows "tokens_ok s'"
  using assms by (auto simp: tokens_ok_def split: main_pc.split)

lemma tokens_okD:
  assumes "tokens_ok s"
  shows "i < length (workers s) \<Longrightarrow> tokens s i = (if alive (wstate (workers s ! i)) then 1 else 0)"
    "pid \<in> set (available_clients s) \<Longrightarrow> named s pid" "main_at s = Chosen fd pid \<Longrightarrow> named s pid"
    "\<not> available_nonblocking s"
  using assms by (auto simp: tokens_ok_def)

lemma tokens_death:
  assumes "s' = set_worker i \<lparr>channel = ms, wstate = Crashed fd\<rparr> s" "tokens_ok s" "i < length (workers s)"
    "workers s ! i = \<lparr>channel = ms, wstate = Serving fd c\<rparr>"
  shows "tokens_ok s'"
proof -
  note t = tokens_okD [OF assms(2)]
  have "tokens s i = 1" using t(1) [OF assms(3)] assms(4) by simp
  then have "tokens s' i = 0" unfolding assms(1) using assms(3,4) by (simp add: tokens_def load_def)
  moreover have "tokens s' j = tokens s j" if "j \<noteq> i" for j unfolding assms(1) using that by (simp add: tokens_def)
  ultimately show ?thesis using t assms(1,3)
    by (auto simp: tokens_ok_def nth_list_update split: main_pc.split)
qed

lemma tokens_step:
  assumes "server_step fs maxfd s s'" "pids_ok s" "tokens_ok s"
  shows "tokens_ok s'"
proof -
  note t = tokens_okD [OF assms(3)]
  from assms(1) show ?thesis
  proof cases
    case (take_worker fd pid rest)
    then show ?thesis
      by (intro tokens_ok_balance [OF assms(3)]) (use t(2,3) in \<open>auto simp: tokens_def\<close>)
  next
    case (no_worker fd accepted junk)
    from no_worker(4) show ?thesis
      by (rule refuseE) (use no_worker t(2,3) in \<open>auto intro!: tokens_ok_balance [OF assms(3)] simp: tokens_def\<close>)
  next
    case (no_worker_interrupted fd accepted junk)
    from no_worker_interrupted(3) show ?thesis
      by (rule refuseE) (use no_worker_interrupted(1,2) t(2,3) in \<open>auto intro!: tokens_ok_balance [OF assms(3)] simp: tokens_def\<close>)
  next
    case (hand fd pid sent)
    note h = hand_over_named [OF hand(2)]
    obtain i where i: "i < length (workers s)" "index_of pid (client_processes s) = i" "client_processes s ! i = pid"
      "\<And>j. j < length (workers s) \<Longrightarrow> client_processes s ! j = pid \<Longrightarrow> j = i"
      using named_slot [OF assms(2) t(3) [OF hand(1)]] by blast
    have ne: "client_processes s ! j \<noteq> pid" if "j < length (workers s)" "j \<noteq> i" for j using i(4) that by blast
    show ?thesis
    proof (cases sent)
      case True
      let ?w = "(workers s ! i)\<lparr>channel := channel (workers s ! i) @ [fd_message fd]\<rparr>"
      have s': "s' = set_worker i ?w (s\<lparr>main_at := Loop_head\<rparr>)" using h(2) [OF True] i(2) by simp
      have "tokens s' j = tokens s j \<and> alive (wstate (workers s' ! j)) = alive (wstate (workers s ! j))"
        if "j < length (workers s)" for j
        unfolding s' using i(1,3) hand(1) that ne [OF that] by (cases "j = i") (simp_all add: tokens_def load_def)
      then show ?thesis
        by (intro tokens_ok_balance [OF assms(3)]) (use t(2,3) s' in simp_all)
    next
      case False
      have s': "s' = close_socket fd (s\<lparr>main_at := Loop_head, available_clients := available_clients s @ [pid]\<rparr>)"
        using hand_over_failed [of fd pid s s'] hand(2) False t(4) by auto
      have "tokens s' j = tokens s j" for j
        unfolding s' using hand(1) by (simp add: tokens_def)
      then show ?thesis
        by (intro tokens_ok_balance [OF assms(3)]) (use t(2,3) hand(1) s' in auto)
    qed
  next
    case (receive i m ms accepted junk fd c)
    then show ?thesis
      by (intro tokens_ok_balance [OF assms(3)]) (use t(2,3) in \<open>auto simp: tokens_def load_def nth_list_update\<close>)
  next
    case receive_fails
    then show ?thesis using assms(3) by simp
  next
    case (receive_nothing i m ms accepted junk)
    then show ?thesis
      by (intro tokens_ok_balance [OF assms(3)]) (use t(2,3) in \<open>auto simp: tokens_def load_def nth_list_update\<close>)
  next
    case (serve i ms fd c r c')
    then show ?thesis
      by (intro tokens_ok_balance [OF assms(3)]) (use t(2,3) in \<open>auto simp: tokens_def load_def nth_list_update\<close>)
  next
    case (crash i ms fd c r e)
    have "s' = set_worker i \<lparr>channel = ms, wstate = Crashed fd\<rparr> s" using crash by simp
    then show ?thesis by (rule tokens_death [OF _ assms(3) crash(2,3)])
  next
    case (broken_pipe i ms fd c)
    then show ?thesis by (intro tokens_death [OF _ assms(3) broken_pipe(2,3)])
  next
    case (finish i ms fd c)
    have s': "s' = set_worker i ((workers s ! i)\<lparr>wstate := Waiting\<rparr>)
        (s\<lparr>available_clients := available_clients s @ [client_processes s ! i], finished := finished s @ [(fd, calls c)]\<rparr>)"
      using give_back_cases [OF finish(4)] t(4) by blast
    have n: "wstate (workers s ! i) \<noteq> No_process" using finish(2) by simp
    then have pid: "client_processes s ! i \<noteq> 0" "named s (client_processes s ! i)"
      using assms(2) finish(1) by (auto simp: pids_ok_def named_def)
    have other: "client_processes s ! i \<noteq> client_processes s ! j" if "j < length (workers s)" "j \<noteq> i" for j
      using assms(2) finish(1) that pid(1) unfolding pids_ok_def by metis
    have "tokens s' j = tokens s j \<and> alive (wstate (workers s' ! j)) = alive (wstate (workers s ! j))"
      if "j < length (workers s)" for j
      unfolding s' using other [OF that] finish(1,2) that
      by (cases "j = i") (simp_all add: tokens_def load_def)
    then show ?thesis
      by (intro tokens_ok_balance [OF assms(3)]) (use t(2,3) pid(2) s' in auto)
  qed (use t(2,3) in \<open>auto intro!: tokens_ok_balance [OF assms(3)] simp: tokens_def\<close>)
qed

end
