(* ===== verification/Http_Service.thy ===== *)
theory Http_Service
  imports Http_Pool
begin

text \<open>
  What the invariants of the worker processes mean for the server from its start on: where
  workers and connections are, what the clients get, when the server refuses, how long it can
  serve, and what it does at its end.
\<close>

section \<open>The start\<close>

text \<open>\<open>fork\<close> returns a negative number or one no other child has.\<close>

definition forks_ok :: "nat \<Rightarrow> (nat \<Rightarrow> int option) \<Rightarrow> bool" where
  "forks_ok n forks \<longleftrightarrow>
     (\<forall>i<n. forks i \<noteq> Some 0) \<and> (\<forall>i<n. \<forall>j<n. \<forall>pid>0. forks i = Some pid \<and> forks j = Some pid \<longrightarrow> i = j)"

text \<open>\<open>existing\<close> is the queue \<open>/available\<close> a former server has left behind, if there is one.\<close>

definition started_from :: "(nat \<times> int list) option \<Rightarrow> int \<Rightarrow> (nat \<Rightarrow> int option) \<Rightarrow> server \<Rightarrow> bool" where
  "started_from existing n forks s \<longleftrightarrow>
     start_client_processes True existing forks (configure_max_connections n new_server) = ret (Inr s) \<and> forks_ok (nat n) forks"

abbreviation started :: "int \<Rightarrow> (nat \<Rightarrow> int option) \<Rightarrow> server \<Rightarrow> bool" where
  "started \<equiv> started_from None"

definition old_messages :: "(nat \<times> int list) option \<Rightarrow> int list" where
  "old_messages existing = (case existing of None \<Rightarrow> [] | Some (room, ms) \<Rightarrow> ms)"

lemma old_messages_simps [simp]: "old_messages None = []" "old_messages (Some (room, ms)) = ms"
  by (simp_all add: old_messages_def)

text \<open>The flags of the call are what decides whether the queue blocks.\<close>

lemma available_blocks:
  "mq_open (O_CREAT OR O_RDWR) attr existing =
     (False, case existing of None \<Rightarrow> nat (mq_maxmsg attr) | Some q \<Rightarrow> fst q, old_messages existing)"
  by (simp add: mq_open_def O_CREAT_def O_RDWR_def O_NONBLOCK_def old_messages_def split: option.splits)

lemma fork_workers_slots:
  assumes "fork_workers xs i s = ret (Inr s')" "\<not> available_nonblocking s" "i + length xs = length (workers s)"
    "length (client_processes s) = length (workers s)"
  shows "length (workers s') = length (workers s) \<and> length (client_processes s') = length (workers s) \<and>
    (\<forall>j<i. workers s' ! j = workers s ! j \<and> client_processes s' ! j = client_processes s ! j) \<and>
    (\<forall>k<length xs. \<exists>pid. xs ! k = Some pid \<and>
       ((pid < 0 \<longrightarrow> workers s' ! (i + k) = workers s ! (i + k) \<and> client_processes s' ! (i + k) = client_processes s ! (i + k)) \<and>
        (0 \<le> pid \<longrightarrow> workers s' ! (i + k) = \<lparr>channel = [], wstate = Waiting\<rparr> \<and> client_processes s' ! (i + k) = pid))) \<and>
    available_clients s' = available_clients s @ filter (\<lambda>p. 0 \<le> p) (map the xs)"
  using assms
proof (induction xs arbitrary: i s)
  case (Cons x xs)
  then obtain pid where x: "x = Some pid" by (cases x) auto
  define t where "t = (if pid < 0 then s else s\<lparr>available_clients := available_clients s @ [pid],
    client_processes := (client_processes s)[i := pid], workers := (workers s)[i := \<lparr>channel = [], wstate = Waiting\<rparr>]\<rparr>)"
  have i: "i < length (workers s)" "i < length (client_processes s)" using Cons.prems by auto
  have r: "fork_workers xs (Suc i) t = ret (Inr s')" using Cons.prems(1,2)
    by (auto simp: x t_def mq_send_available_def split: if_splits)
  have l: "\<not> available_nonblocking t" "Suc i + length xs = length (workers t)" "length (client_processes t) = length (workers t)"
    "length (workers t) = length (workers s)"
    using Cons.prems by (auto simp: t_def)
  note ih = Cons.IH [OF r l(1-3)]
  have slot: "workers s' ! i = workers t ! i" "client_processes s' ! i = client_processes t ! i" using ih by auto
  have "\<exists>pid. (x # xs) ! k = Some pid \<and>
       ((pid < 0 \<longrightarrow> workers s' ! (i + k) = workers s ! (i + k) \<and> client_processes s' ! (i + k) = client_processes s ! (i + k)) \<and>
        (0 \<le> pid \<longrightarrow> workers s' ! (i + k) = \<lparr>channel = [], wstate = Waiting\<rparr> \<and> client_processes s' ! (i + k) = pid))"
    if "k < length (x # xs)" for k
  proof (cases k)
    case 0
    then show ?thesis using slot i by (auto simp: x t_def)
  next
    case (Suc k')
    then obtain p where "xs ! k' = Some p"
      "(p < 0 \<longrightarrow> workers s' ! (Suc i + k') = workers t ! (Suc i + k') \<and> client_processes s' ! (Suc i + k') = client_processes t ! (Suc i + k')) \<and>
        (0 \<le> p \<longrightarrow> workers s' ! (Suc i + k') = \<lparr>channel = [], wstate = Waiting\<rparr> \<and> client_processes s' ! (Suc i + k') = p)"
      using ih \<open>k < length (x # xs)\<close> by auto
    then show ?thesis using Suc by (auto simp: t_def split: if_splits)
  qed
  moreover have "\<forall>j<i. workers s' ! j = workers s ! j \<and> client_processes s' ! j = client_processes s ! j"
    using ih by (auto simp: t_def)
  moreover have "available_clients s' = available_clients s @ filter (\<lambda>p. 0 \<le> p) (map the (x # xs))"
    using ih by (auto simp: t_def x)
  ultimately show ?case using ih l(4) by metis
qed simp

lemma fork_workers_frame:
  "fork_workers xs i s = ret (Inr s') \<Longrightarrow>
     main_at s' = main_at s \<and> open_sockets s' = open_sockets s \<and> finished s' = finished s \<and> refused s' = refused s \<and>
     should_stop s' = should_stop s \<and> max_connections s' = max_connections s \<and> dropped s' = dropped s \<and>
     available_room s' = available_room s \<and> available_nonblocking s' = available_nonblocking s"
  by (induction xs arbitrary: i s) (auto simp: mq_send_available_def split: option.splits if_splits)

lemma startedD:
  assumes "started_from q n forks s"
  shows "0 \<le> n" "max_connections s = n" "length (workers s) = nat n" "length (client_processes s) = nat n"
    "main_at s = Loop_head" "open_sockets s = []" "finished s = []" "refused s = []" "\<not> should_stop s"
    "i < nat n \<Longrightarrow> \<exists>pid. forks i = Some pid \<and> pid \<noteq> 0 \<and>
       workers s ! i = \<lparr>channel = [], wstate = if pid < 0 then No_process else Waiting\<rparr> \<and>
       client_processes s ! i = (if pid < 0 then 0 else pid)"
    "available_clients s = old_messages q @ filter (\<lambda>p. 0 \<le> p) (map (\<lambda>i. the (forks i)) [0..<nat n])"
    "dropped s = []" "available_room s = (case q of None \<Rightarrow> nat n | Some x \<Rightarrow> fst x)" "\<not> available_nonblocking s"
proof -
  let ?s = "(configure_max_connections n new_server)\<lparr>available_clients := old_messages q, available_nonblocking := False,
    available_room := case q of None \<Rightarrow> nat n | Some x \<Rightarrow> fst x, client_processes := replicate (nat n) 0,
    workers := replicate (nat n) \<lparr>channel = [], wstate = No_process\<rparr>\<rparr>"
  show n: "0 \<le> n" using assms
    by (auto simp: started_from_def start_client_processes_def available_blocks configure_max_connections_def Let_def split: if_splits)
  have f: "fork_workers (map forks [0..<nat n]) 0 ?s = ret (Inr s)" using assms
    by (auto simp: started_from_def start_client_processes_def available_blocks configure_max_connections_def Let_def split: if_splits cong: option.case_cong)
  have ok: "forks_ok (nat n) forks" using assms by (simp add: started_from_def)
  note l = fork_workers_slots [OF f, simplified]
  show "max_connections s = n" "main_at s = Loop_head" "open_sockets s = []" "finished s = []" "refused s = []" "\<not> should_stop s"
    "dropped s = []" "available_room s = (case q of None \<Rightarrow> nat n | Some x \<Rightarrow> fst x)" "\<not> available_nonblocking s"
    using fork_workers_frame [OF f] by (simp_all add: configure_max_connections_def new_server_def)
  show "length (workers s) = nat n" "length (client_processes s) = nat n" using l by blast+
  show "available_clients s = old_messages q @ filter (\<lambda>p. 0 \<le> p) (map (\<lambda>i. the (forks i)) [0..<nat n])"
    using l by (simp add: comp_def configure_max_connections_def new_server_def)
  assume i: "i < nat n"
  then obtain pid where "forks i = Some pid" "(pid < 0 \<longrightarrow> workers s ! i = workers ?s ! i \<and> client_processes s ! i = client_processes ?s ! i) \<and>
        (0 \<le> pid \<longrightarrow> workers s ! i = \<lparr>channel = [], wstate = Waiting\<rparr> \<and> client_processes s ! i = pid)"
    using l by auto
  moreover have "workers ?s ! i = \<lparr>channel = [], wstate = No_process\<rparr>" "client_processes ?s ! i = 0"
    using i by simp_all
  ultimately show "\<exists>pid. forks i = Some pid \<and> pid \<noteq> 0 \<and>
       workers s ! i = \<lparr>channel = [], wstate = if pid < 0 then No_process else Waiting\<rparr> \<and>
       client_processes s ! i = (if pid < 0 then 0 else pid)"
    using ok i by (auto simp: forks_ok_def split: if_splits)
qed

lemma started_slot:
  assumes "started_from q n forks s" "i < nat n"
  obtains (failed) pid where "forks i = Some pid" "pid < 0" "workers s ! i = \<lparr>channel = [], wstate = No_process\<rparr>"
      "client_processes s ! i = 0"
    | (forked) pid where "forks i = Some pid" "0 < pid" "workers s ! i = \<lparr>channel = [], wstate = Waiting\<rparr>"
      "client_processes s ! i = pid"
proof -
  obtain pid where p: "forks i = Some pid" "pid \<noteq> 0"
    "workers s ! i = \<lparr>channel = [], wstate = if pid < 0 then No_process else Waiting\<rparr>"
    "client_processes s ! i = (if pid < 0 then 0 else pid)"
    using startedD(10) [OF assms] by blast
  show thesis
  proof (cases "pid < 0")
    case True
    then show ?thesis using p by (intro failed) simp_all
  next
    case False
    then show ?thesis using p by (intro forked) simp_all
  qed
qed

lemma count_distinct: "distinct xs \<Longrightarrow> count_list xs x = (if x \<in> set xs then 1 else 0)"
  by (induction xs) auto

text \<open>With a new queue exactly the processes forked are idle.\<close>

lemma started_idle:
  assumes "started n forks s"
  shows "distinct (available_clients s)"
    "set (available_clients s) = {pid. 0 < pid \<and> (\<exists>i<nat n. forks i = Some pid)}"
proof -
  have ok: "forks_ok (nat n) forks" using assms by (simp add: started_from_def)
  have slot: "\<exists>pid. forks i = Some pid \<and> pid \<noteq> 0" if "i < nat n" for i
    using startedD(10) [OF assms that] by blast
  have "inj_on (\<lambda>i. the (forks i)) (set (filter (\<lambda>i. 0 \<le> the (forks i)) [0..<nat n]))"
  proof (rule inj_onI)
    fix i j assume ij: "i \<in> set (filter (\<lambda>i. 0 \<le> the (forks i)) [0..<nat n])"
      "j \<in> set (filter (\<lambda>i. 0 \<le> the (forks i)) [0..<nat n])" "the (forks i) = the (forks j)"
    then have l: "i < nat n" "j < nat n" by auto
    obtain p q where p: "forks i = Some p" "p \<noteq> 0" "forks j = Some q" using slot [OF l(1)] slot [OF l(2)] by blast
    then have "q = p" "0 < p" using ij by auto
    then show "i = j" using p l ok unfolding forks_ok_def by blast
  qed
  then show "distinct (available_clients s)"
    using startedD(11) [OF assms] by (simp add: filter_map distinct_map comp_def)
  show "set (available_clients s) = {pid. 0 < pid \<and> (\<exists>i<nat n. forks i = Some pid)}"
  proof (intro set_eqI iffI)
    fix pid assume "pid \<in> set (available_clients s)"
    then obtain i where i: "i < nat n" "pid = the (forks i)" "0 \<le> pid" by (auto simp: startedD(11) [OF assms])
    then show "pid \<in> {pid. 0 < pid \<and> (\<exists>i<nat n. forks i = Some pid)}" using slot [OF i(1)] by force
  next
    fix pid assume "pid \<in> {pid. 0 < pid \<and> (\<exists>i<nat n. forks i = Some pid)}"
    then obtain i where "0 < pid" "i < nat n" "forks i = Some pid" by blast
    then have "i \<in> {0..<nat n}" "pid = the (forks i)" "0 \<le> pid" by auto
    then show "pid \<in> set (available_clients s)" by (simp add: startedD(11) [OF assms])
  qed
qed

lemma started_pids_ok:
  assumes "started_from q n forks s"
  shows "pids_ok s"
proof -
  have ok: "forks_ok (nat n) forks" using assms by (simp add: started_from_def)
  have "i = j" if "i < nat n" "j < nat n" "client_processes s ! i = client_processes s ! j" "client_processes s ! i \<noteq> 0" for i j
    using that ok started_slot [OF assms that(1)] started_slot [OF assms that(2)] by (metis forks_ok_def)
  moreover have "wstate (workers s ! i) = No_process \<longleftrightarrow> client_processes s ! i = 0" if "i < nat n" for i
    using started_slot [OF assms that] by (cases; simp)
  ultimately show ?thesis using startedD(2-4) [OF assms] by (simp add: pids_ok_def)
qed

lemma started_tokens_ok:
  assumes "started n forks s"
  shows "tokens_ok s"
proof -
  have "tokens s i = (if alive (wstate (workers s ! i)) then 1 else 0)" if "i < nat n" for i
  proof -
    have c: "tokens s i = (if client_processes s ! i \<in> set (available_clients s) then 1 else 0) + load (workers s ! i)"
      by (simp add: tokens_def startedD(5,12) [OF assms] count_distinct [OF started_idle(1) [OF assms]])
    from started_slot [OF assms that] show ?thesis
      by cases (use that in \<open>auto simp: c load_def started_idle(2) [OF assms]\<close>)
  qed
  moreover have "named s pid" if p: "pid \<in> set (available_clients s)" for pid
  proof -
    obtain i where i: "0 < pid" "i < nat n" "forks i = Some pid" using p started_idle(2) [OF assms] by auto
    then have "client_processes s ! i = pid" using started_slot [OF assms i(2)] by force
    then show ?thesis using i(1,2) startedD(4) [OF assms] nth_mem by (fastforce simp: named_def)
  qed
  ultimately show ?thesis using startedD(3,5,14) [OF assms] by (simp add: tokens_ok_def)
qed

lemma started_conns_ok:
  assumes "started_from q n forks s"
  shows "conns_ok maxfd s"
proof -
  have "conns_of w = []" if w: "w \<in> set (workers s)" for w
  proof -
    obtain i where "i < nat n" "w = workers s ! i" using w startedD(3) [OF assms] by (auto simp: in_set_conv_nth)
    from started_slot [OF assms this(1)] this(2) show ?thesis by cases (simp_all add: conns_of_def)
  qed
  then have "concat (map conns_of (workers s)) = []" by simp
  then show ?thesis using startedD(5-7,12) [OF assms] by (simp add: conns_ok_def held_def main_conns_def)
qed

section \<open>Invariants of a running server\<close>

text \<open>Where the connections are, where the workers are, and what the TLS calls were.\<close>

definition released_once :: "call list \<Rightarrow> bool" where
  "released_once cs \<longleftrightarrow> count_list cs SSL_free = 1 \<and> count_list cs Close_socket = 1 \<and> count_list cs SSL_shutdown \<le> 1"

definition calls_ok :: "server \<Rightarrow> bool" where
  "calls_ok s \<longleftrightarrow>
     (\<forall>w\<in>set (workers s). \<forall>fd c. wstate w = Serving fd c \<longrightarrow> sound_calls c) \<and>
     (\<forall>(fd, cs)\<in>set (finished s @ refused s). released_once cs)"

lemma sound_released:
  assumes "sound_calls c" "\<not> client_open c"
  shows "released_once (calls c)"
proof -
  obtain before after where c: "calls c = before @ SSL_free # Close_socket # after"
    "filter released before \<in> {[], [SSL_shutdown]}" "filter released after = []" "filter is_write after = []"
    using sound_closedE [OF assms] by blast
  show ?thesis using count_released(1) [OF c(2)] count_released(2) [OF c(3)] by (simp add: c(1) released_once_def)
qed

lemma closed_close [simp]: "\<not> client_open (close_client c)"
  by (simp add: close_client_def Let_def)

lemma calls_frame [simp]:
  "calls_ok (s\<lparr>main_at := m\<rparr>) = calls_ok s" "calls_ok (s\<lparr>available_clients := a\<rparr>) = calls_ok s"
  "calls_ok (s\<lparr>open_sockets := op\<rparr>) = calls_ok s" "calls_ok (cancellation_requested s) = calls_ok s"
  "calls_ok (close_socket fd s) = calls_ok s" "calls_ok (s\<lparr>dropped := dr\<rparr>) = calls_ok s"
  by (simp_all add: calls_ok_def)

lemma calls_set_worker:
  assumes "calls_ok s" "\<And>fd c. wstate w = Serving fd c \<Longrightarrow> sound_calls c"
  shows "calls_ok (set_worker i w s)"
proof -
  have "set ((workers s)[i := w]) \<subseteq> insert w (set (workers s))" by (rule set_update_subset_insert)
  then show ?thesis using assms by (fastforce simp: calls_ok_def)
qed

lemma calls_okD: "calls_ok s \<Longrightarrow> i < length (workers s) \<Longrightarrow> wstate (workers s ! i) = Serving fd c \<Longrightarrow> sound_calls c"
  using nth_mem by (fastforce simp: calls_ok_def)

text \<open>What is noted for a connection that is refused.\<close>

lemma refused_released: "released_once (calls (close_client (send_response resp (new_client accepted junk))))"
  by (intro sound_released sound_close sound_send sound_new) simp

lemma calls_step:
  assumes "server_step fs maxfd s s'" "calls_ok s"
  shows "calls_ok s'"
  using assms(1)
proof cases
  case (no_worker fd accepted junk)
  from no_worker(4) show ?thesis
    by (rule refuseE) (use assms(2) refused_released in \<open>auto simp: calls_ok_def\<close>)
next
  case (no_worker_interrupted fd accepted junk)
  from no_worker_interrupted(3) show ?thesis
    by (rule refuseE) (use assms(2) refused_released in \<open>auto simp: calls_ok_def\<close>)
next
  case (hand fd pid sent)
  note h = hand_over_named [OF hand(2)]
  show ?thesis
  proof (cases sent)
    case True
    show ?thesis unfolding h(2) [OF True]
      using assms(2) calls_okD [OF assms(2) h(1)] by (auto intro!: calls_set_worker)
  next
    case False
    then show ?thesis using hand_over_failed [of fd pid s s'] hand(2) assms(2) by auto
  qed
next
  case (serve i ms fd c r c')
  then have "sound_calls c'" using sound_serve_one calls_okD [OF assms(2)] by (metis worker.select_convs(2))
  then show ?thesis using serve(1) assms(2) by (auto intro!: calls_set_worker)
next
  case (finish i ms fd c)
  obtain xs where s': "s' = set_worker i ((workers s ! i)\<lparr>wstate := Waiting\<rparr>)
      (s\<lparr>available_clients := available_clients s @ xs, finished := finished s @ [(fd, calls c)]\<rparr>)"
    using give_back_cases [OF finish(4)] by blast
  have "released_once (calls c)" using finish sound_released calls_okD [OF assms(2)] by (metis worker.select_convs(2))
  then have "calls_ok (s\<lparr>available_clients := available_clients s @ xs, finished := finished s @ [(fd, calls c)]\<rparr>)"
    using assms(2) by (auto simp: calls_ok_def)
  then show ?thesis unfolding s' by (rule calls_set_worker) simp
qed (use assms(2) in \<open>auto intro!: calls_set_worker sound_new\<close>)

interpretation procs: step_invariant "server_step fs maxfd"
  "\<lambda>s. pids_ok s \<and> client_processes s = client_processes s1 \<and> max_connections s = max_connections s1 \<and>
     available_room s = available_room s1 \<and> available_nonblocking s = available_nonblocking s1"
  for fs maxfd s1
  by unfold_locales (metis pids_step)

interpretation slots: step_invariant "server_step fs maxfd" "\<lambda>s. pids_ok s \<and> tokens_ok s" for fs maxfd
  by unfold_locales (metis pids_step tokens_step)

interpretation conns: step_invariant "server_step fs maxfd" "\<lambda>s. maxfd \<le> 2 ^ 31 \<and> conns_ok maxfd s" for fs maxfd
  by unfold_locales (use conns_step in blast)

interpretation tls: step_invariant "server_step fs maxfd" calls_ok for fs maxfd
  by unfold_locales (rule calls_step)

lemma server_procs:
  assumes "started_from q n forks s0" "server_reaches fs maxfd s0 s"
  shows "pids_ok s" "client_processes s = client_processes s0" "max_connections s = n" "length (workers s) = nat n"
    "available_room s = (case q of None \<Rightarrow> nat n | Some x \<Rightarrow> fst x)" "\<not> available_nonblocking s"
proof -
  note inv = procs.runs_inv [of fs maxfd s0 s s0, OF assms(2)]
  show "pids_ok s" "client_processes s = client_processes s0" "max_connections s = n"
    "available_room s = (case q of None \<Rightarrow> nat n | Some x \<Rightarrow> fst x)" "\<not> available_nonblocking s"
    using inv started_pids_ok [OF assms(1)] startedD(2,13,14) [OF assms(1)] by simp_all
  then show "length (workers s) = nat n" by (simp add: pids_ok_def)
qed

lemma server_tokens:
  assumes "started n forks s0" "server_reaches fs maxfd s0 s"
  shows "tokens_ok s"
  using slots.runs_inv [OF assms(2)] started_pids_ok [OF assms(1)] started_tokens_ok [OF assms(1)] by blast

lemma server_conns:
  assumes "started_from q n forks s0" "server_reaches fs maxfd s0 s" "maxfd \<le> 2 ^ 31"
  shows "conns_ok maxfd s"
  using conns.runs_inv [OF assms(2)] started_conns_ok [OF assms(1)] assms(3) by blast

section \<open>Workers and connections\<close>

lemma distinct_if_count: "(\<And>x. count_list xs x \<le> 1) \<Longrightarrow> distinct xs"
proof (induction xs)
  case (Cons a xs)
  have "count_list xs x \<le> 1" for x using Cons.prems [of x] by (simp split: if_splits)
  moreover have "a \<notin> set xs" using Cons.prems [of a] by (simp add: count_list_0_iff)
  ultimately show ?case using Cons.IH by simp
qed simp

lemma idle_distinct:
  assumes "pids_ok s" "tokens_ok s"
  shows "distinct (available_clients s)" "length (available_clients s) \<le> nat (max_connections s)"
    "pid \<in> set (client_processes s) \<Longrightarrow> pid \<notin> set (available_clients s) \<Longrightarrow>
       length (available_clients s) < nat (max_connections s)"
proof -
  note t = tokens_okD [OF assms(2)]
  have l: "length (client_processes s) = nat (max_connections s)" "length (workers s) = nat (max_connections s)"
    using assms(1) by (simp_all add: pids_ok_def)
  have sub: "set (available_clients s) \<subseteq> set (client_processes s)" using t(2) by (auto simp: named_def)
  show d: "distinct (available_clients s)"
  proof (rule distinct_if_count)
    fix pid
    show "count_list (available_clients s) pid \<le> 1"
    proof (cases "pid \<in> set (available_clients s)")
      case True
      then obtain j where "j < length (workers s)" "client_processes s ! j = pid"
        using named_slot [OF assms(1) t(2) [OF True]] by blast
      then show ?thesis using t(1) [of j] by (simp add: tokens_def split: if_splits)
    qed (simp add: count_list_0_iff)
  qed
  have "card (set (available_clients s)) \<le> card (set (client_processes s))" using sub by (rule card_mono [rotated]) simp
  then show "length (available_clients s) \<le> nat (max_connections s)"
    using distinct_card [OF d] card_length [of "client_processes s"] l by simp
  assume "pid \<in> set (client_processes s)" "pid \<notin> set (available_clients s)"
  then have "card (set (available_clients s)) < card (set (client_processes s))"
    using sub by (intro psubset_card_mono) auto
  then show "length (available_clients s) < nat (max_connections s)"
    using distinct_card [OF d] card_length [of "client_processes s"] l by simp
qed

text \<open>
  Claim C19. On a queue that did not exist before the start, a worker process that is
  alive is at every moment exactly one of: listed once as idle, chosen by the main process for
  the connection it has just accepted, about to receive one connection, serving one connection,
  or stranded: the one connection it was given came without its descriptor, and it has gone on to
  wait without giving its number back; a process that has died, or was never started, is
  none of them. The queue has room for every worker, so a worker that is done with its
  connection can put its number back at once.
\<close>

theorem worker_held_once:
  assumes "started n forks s0" "server_reaches fs fd_limit s0 s" "i < nat n"
  shows "count_list (available_clients s) (client_processes s ! i) + chosen (main_at s) (client_processes s ! i) +
      length (channel (workers s ! i)) + (case wstate (workers s ! i) of Serving _ _ \<Rightarrow> 1 | _ \<Rightarrow> 0) +
      count_list (map snd (dropped s)) i = (if alive (wstate (workers s ! i)) then 1 else 0) \<and>
    length (available_clients s) \<le> available_room s \<and>
    (\<forall>fd c. wstate (workers s ! i) = Serving fd c \<longrightarrow> length (available_clients s) < available_room s)"
proof -
  note inv = server_procs [OF assms(1,2)] server_tokens [OF assms(1,2)]
  have i: "i < length (workers s)" using assms(3) inv(4) by simp
  have t: "tokens s i = (if alive (wstate (workers s ! i)) then 1 else 0)" by (rule tokens_okD(1) [OF inv(7) i])
  have "client_processes s ! i \<notin> set (available_clients s)" if "wstate (workers s ! i) = Serving fd c" for fd c
    using t that by (simp add: tokens_def load_def count_list_0_iff)
  moreover have "client_processes s ! i \<in> set (client_processes s)" using i inv(1) by (auto simp: pids_ok_def)
  ultimately show ?thesis
    using t idle_distinct(2,3) [OF inv(1,7)] inv(3,5) by (auto simp: tokens_def load_def)
qed

text \<open>Two workers and an accepted connection.\<close>

definition two_workers :: "nat \<Rightarrow> int option" where
  "two_workers i = Some (100 + int i)"

definition two_started :: server where
  "two_started = \<lparr>max_connections = 2, should_stop = False, available_clients = [100, 101], available_nonblocking = False,
     available_room = 2, client_processes = [100, 101], workers = [\<lparr>channel = [], wstate = Waiting\<rparr>, \<lparr>channel = [], wstate = Waiting\<rparr>], main_at = Loop_head,
     open_sockets = [], dropped = [], refused = [], finished = []\<rparr>"

lemma two_workers_start: "started 2 two_workers two_started"
  by (simp add: started_from_def start_client_processes_def available_blocks mq_send_available_def configure_max_connections_def
      new_server_def two_workers_def two_started_def forks_ok_def Let_def upt_rec numeral_2_eq_2)

lemma two_chosen:
  "server_reaches fs 1024 two_started (two_started\<lparr>main_at := Chosen 7 100, available_clients := [101], open_sockets := [7]\<rparr>)"
proof -
  let ?s1 = "two_started\<lparr>main_at := At_accept\<rparr>"
  let ?s2 = "?s1\<lparr>main_at := Accepted 7, open_sockets := open_sockets ?s1 @ [7]\<rparr>"
  let ?s3 = "?s2\<lparr>main_at := Chosen 7 100, available_clients := [101]\<rparr>"
  have "server_step fs 1024 two_started ?s1" by (rule enter) (simp_all add: two_started_def)
  moreover have "server_step fs 1024 ?s1 ?s2" by (rule accept) (simp_all add: two_started_def)
  moreover have "server_step fs 1024 ?s2 ?s3" by (rule take_worker) (simp_all add: two_started_def)
  ultimately have "server_reaches fs 1024 two_started ?s3"
    by (rule server_next [OF server_next [OF server_next [OF server_start]]])
  then show ?thesis by (simp add: two_started_def)
qed

theorem worker_held_once_witness:
  "length (available_clients (two_started\<lparr>main_at := Chosen 7 100, available_clients := [101], open_sockets := [7]\<rparr>)) \<le> nat 2"
  using worker_held_once [OF two_workers_start two_chosen, of 0] by simp

lemma named_worker:
  assumes "started n forks s0" "server_reaches fs fd_limit s0 s" "main_at s = Chosen fd pid"
  obtains i where "i < nat n" "index_of pid (client_processes s) = i" "client_processes s ! i = pid"
    "workers s ! i = \<lparr>channel = [], wstate = Waiting\<rparr>" "length (available_clients s) < available_room s"
proof -
  note inv = server_procs [OF assms(1,2)] server_tokens [OF assms(1,2)]
  have n: "named s pid" by (rule tokens_okD(3) [OF inv(7) assms(3)])
  obtain i where i: "i < length (workers s)" "index_of pid (client_processes s) = i" "client_processes s ! i = pid"
    using named_slot [OF inv(1) n] by blast
  have "tokens s i = (if alive (wstate (workers s ! i)) then 1 else 0)" by (rule tokens_okD(1) [OF inv(7) i(1)])
  then have t: "alive (wstate (workers s ! i))" "load (workers s ! i) = 0" "count_list (available_clients s) pid = 0"
    using i(3) assms(3) by (auto simp: tokens_def split: if_splits)
  then have "workers s ! i = \<lparr>channel = [], wstate = Waiting\<rparr>"
    by (cases "workers s ! i") (auto simp: load_def alive_def split: worker_state.splits)
  moreover have "length (available_clients s) < available_room s"
    using idle_distinct(3) [OF inv(1,7)] n t(3) inv(3,5) by (auto simp: named_def count_list_0_iff)
  ultimately show thesis using that i inv(4) by simp
qed

text \<open>
  Claim C24. On a queue that did not exist before the start, the worker the main process has
  chosen is idle: the search for its number finds it, and if \<open>sendmsg\<close> works the connection is
  the only thing in the channel of that worker, and what that worker receives from it is the
  descriptor that was sent; if not, the number is idle again, the connection is closed, and no
  worker has changed.
\<close>

theorem connection_handed_to_idle_worker:
  assumes "started n forks s0" "server_reaches fs fd_limit s0 s" "fd_limit \<le> 2 ^ 31"
    and "main_at s = Chosen fd pid"
  shows "\<exists>i<nat n. client_processes s ! i = pid \<and> workers s ! i = \<lparr>channel = [], wstate = Waiting\<rparr> \<and>
    hand_over True fd pid s = ret (set_worker i \<lparr>channel = [fd_message fd], wstate = Waiting\<rparr> (s\<lparr>main_at := Loop_head\<rparr>)) \<and>
    recv_fd (Some (fd_message fd)) = fd \<and>
    hand_over False fd pid s = ret (close_socket fd (s\<lparr>main_at := Loop_head, available_clients := available_clients s @ [pid]\<rparr>))"
proof -
  obtain i where i: "i < nat n" "index_of pid (client_processes s) = i" "client_processes s ! i = pid"
    "workers s ! i = \<lparr>channel = [], wstate = Waiting\<rparr>" "length (available_clients s) < available_room s"
    using named_worker [OF assms(1,2,4)] by blast
  have l: "i < length (workers s)" using i(1) server_procs(4) [OF assms(1,2)] by simp
  have c: "conns_ok fd_limit s" by (rule server_conns [OF assms(1-3)])
  have "fd \<in># held s" using assms(4) by (simp add: held_def main_conns_def)
  then have "fd \<in> set (open_sockets s)" using c by (metis conns_ok_def set_mset_mset)
  then have fd: "0 \<le> fd" "fd < 2 ^ 31" using c assms(3) by (auto simp: conns_ok_def)
  have same: "(workers s)[i := \<lparr>channel = [], wstate = Waiting\<rparr>] = workers s"
    using list_update_id [of "workers s" i] by (simp add: i(4))
  have "hand_over True fd pid s = ret (set_worker i \<lparr>channel = [fd_message fd], wstate = Waiting\<rparr> (s\<lparr>main_at := Loop_head\<rparr>))"
    using i(2,4) l by (simp add: hand_over_def send_fd_def Let_def set_worker_def)
  moreover have "hand_over False fd pid s = ret (close_socket fd (s\<lparr>main_at := Loop_head, available_clients := available_clients s @ [pid]\<rparr>))"
    using i(2,4,5) l by (simp add: hand_over_def send_fd_def Let_def same mq_send_available_def)
  ultimately show ?thesis using i recv_send [OF fd] by blast
qed

theorem connection_handed_to_idle_worker_witness:
  "recv_fd (Some (fd_message 7)) = 7"
  using connection_handed_to_idle_worker [OF two_workers_start two_chosen, of 7 100] by simp

text \<open>
  Claim C20. Every connection the main process has open is in exactly one place: with the main
  process, sent to or served by one worker, lost with a worker that died, received by a worker
  without its descriptor and so forgotten, or done. So no two workers ever have the same
  connection. Because the main process does not close a connection it has handed over, all of
  them, the forgotten and the done included, stay open in it and use up its descriptors: the
  server forgets and ends at most \<open>fd_limit\<close> connections in its life.
\<close>

theorem connections_held_once:
  assumes "started_from q n forks s0" "server_reaches fs fd_limit s0 s" "fd_limit \<le> 2 ^ 31"
  shows "mset (main_conns (main_at s)) + mset (concat (map conns_of (workers s))) + mset (map fst (finished s)) +
      mset (map fst (dropped s)) = mset (open_sockets s) \<and> distinct (open_sockets s) \<and>
    set (map fst (finished s)) \<subseteq> set (open_sockets s) \<and> set (map fst (dropped s)) \<subseteq> set (open_sockets s) \<and>
    length (finished s) + length (dropped s) \<le> nat fd_limit"
proof -
  have c: "conns_ok fd_limit s" by (rule server_conns [OF assms])
  then have m: "mset (open_sockets s) = held s" and d: "distinct (open_sockets s)"
    and r: "set (open_sockets s) \<subseteq> {0..<fd_limit}" by (auto simp: conns_ok_def)
  have "mset (map fst (finished s)) + mset (map fst (dropped s)) \<subseteq># mset (open_sockets s)" by (simp add: m held_def ac_simps)
  from set_mset_mono [OF this] size_mset_mono [OF this]
  have sub: "set (map fst (finished s)) \<subseteq> set (open_sockets s)" "set (map fst (dropped s)) \<subseteq> set (open_sockets s)"
    "length (finished s) + length (dropped s) \<le> length (open_sockets s)"
    by simp_all
  have "length (open_sockets s) \<le> nat fd_limit"
    using card_mono [OF _ r] distinct_card [OF d] by simp
  then show ?thesis using m d sub by (simp add: held_def)
qed

theorem connections_held_once_witness:
  "distinct (open_sockets (two_started\<lparr>main_at := Chosen 7 100, available_clients := [101], open_sockets := [7]\<rparr>))"
  using connections_held_once [OF two_workers_start two_chosen] by simp

text \<open>
  Claim C25. However the clients behave, every connection a worker is done with and every
  connection that was refused has had its TLS object freed once, its socket closed once, and its
  session shut down at most once by the process that had it.
\<close>

theorem clients_released_once:
  assumes "started_from q n forks s0" "server_reaches fs fd_limit s0 s"
    and "(fd, cs) \<in> set (finished s) \<union> set (refused s)"
  shows "count_list cs SSL_free = 1 \<and> count_list cs Close_socket = 1 \<and> count_list cs SSL_shutdown \<le> 1"
proof -
  have "wstate w \<noteq> Serving fd c" if w: "w \<in> set (workers s0)" for w fd c
  proof -
    obtain i where "i < nat n" "w = workers s0 ! i" using w startedD(3) [OF assms(1)] by (auto simp: in_set_conv_nth)
    from started_slot [OF assms(1) this(1)] this(2) show ?thesis by cases simp_all
  qed
  then have "calls_ok s0" using startedD(7,8) [OF assms(1)] by (auto simp: calls_ok_def)
  from tls.runs_inv [OF assms(2) this] assms(3) show ?thesis by (auto simp: calls_ok_def released_once_def)
qed

text \<open>A client that fails the TLS handshake is done at once.\<close>

lemma two_finished:
  "\<exists>s. server_reaches fs 1024 two_started s \<and> finished s = [(7, [SSL_shutdown, SSL_free, Close_socket])]"
proof -
  let ?s = "two_started\<lparr>main_at := Chosen 7 100, available_clients := [101], open_sockets := [7]\<rparr>"
  let ?c = "new_client False []"
  let ?s1 = "set_worker 0 \<lparr>channel = [fd_message 7], wstate = Waiting\<rparr> (?s\<lparr>main_at := Loop_head\<rparr>)"
  let ?s2 = "set_worker 0 \<lparr>channel = [], wstate = Serving 7 ?c\<rparr> ?s1"
  let ?s3 = "set_worker 0 \<lparr>channel = [], wstate = Waiting\<rparr>
    (?s2\<lparr>available_clients := [101, 100], finished := [(7, [SSL_shutdown, SSL_free, Close_socket])]\<rparr>)"
  have "hand_over True 7 100 ?s = ret ?s1"
    by (simp add: hand_over_def send_fd_def index_of_def set_worker_def two_started_def)
  then have 1: "server_step fs 1024 ?s ?s1" by (intro hand [where sent = True]) simp_all
  have 2: "server_step fs 1024 ?s1 ?s2"
    by (rule receive [where m = "fd_message 7"]) (simp_all add: two_started_def)
  have "calls ?c = [SSL_shutdown, SSL_free, Close_socket]" by (simp add: new_client_def close_client_def)
  then have "give_back 0 7 ?c ?s2 = ret ?s3"
    by (simp add: give_back_def mq_send_available_def two_started_def set_worker_def)
  then have 3: "server_step fs 1024 ?s2 ?s3"
    by (intro finish [where ms = "[]"]) (simp_all add: two_started_def new_client_def Let_def)
  have "finished ?s3 = [(7, [SSL_shutdown, SSL_free, Close_socket])]" by simp
  then show ?thesis
    using server_next [OF server_next [OF server_next [OF two_chosen 1] 2] 3] by blast
qed

theorem clients_released_once_witness:
  "\<exists>s. server_reaches Map.empty 1024 two_started s \<and> (\<forall>(fd, cs)\<in>set (finished s). count_list cs SSL_free = 1) \<and>
    finished s \<noteq> []"
proof -
  obtain s where s: "server_reaches Map.empty 1024 two_started s" "finished s = [(7, [SSL_shutdown, SSL_free, Close_socket])]"
    using two_finished by blast
  then have "count_list [SSL_shutdown, SSL_free, Close_socket] SSL_free = 1"
    using clients_released_once [OF two_workers_start s(1), of 7 "[SSL_shutdown, SSL_free, Close_socket]"] by simp
  then show ?thesis using s by auto
qed

section \<open>A queue that a former server has left behind\<close>

lemma index_of_missing: "pid \<notin> set pids \<Longrightarrow> index_of pid pids = length pids"
  by (induction pids) (auto simp: index_of_def)

text \<open>Until the old number is taken no worker has anything to do.\<close>

definition old_first :: "int \<Rightarrow> server \<Rightarrow> bool" where
  "old_first pid s \<longleftrightarrow> pid \<notin> set (client_processes s) \<and> length (client_processes s) = length (workers s) \<and>
     (case main_at s of Chosen fd p \<Rightarrow> p = pid | _ \<Rightarrow> available_clients s \<noteq> [] \<and> hd (available_clients s) = pid) \<and>
     finished s = [] \<and> refused s = [] \<and> (\<forall>w\<in>set (workers s). channel w = [] \<and> (wstate w = Waiting \<or> wstate w = No_process))"

lemma old_firstD:
  assumes "old_first pid s"
  shows "main_at s = Chosen fd p \<Longrightarrow> p = pid" "hand_over sent fd pid s = fail OutOfBounds"
    "finished s = []" "refused s = []"
    "i < length (workers s) \<Longrightarrow> channel (workers s ! i) = [] \<and> (wstate (workers s ! i) = Waiting \<or> wstate (workers s ! i) = No_process)"
  using assms nth_mem [of i "workers s"] by (auto simp: old_first_def hand_over_def Let_def index_of_missing)

lemma old_first_step:
  assumes "server_step fs maxfd s s'" "old_first pid s"
  shows "old_first pid s'"
proof -
  note o = old_firstD [OF assms(2)]
  from assms(1) show ?thesis
  proof cases
    case interrupt
    then show ?thesis using assms(2) by (simp add: old_first_def split: main_pc.splits)
  next
    case (take_worker fd p rest)
    then show ?thesis using assms(2) by (simp add: old_first_def)
  next
    case (no_worker fd accepted junk)
    then show ?thesis using assms(2) by (simp add: old_first_def)
  next
    case (no_worker_interrupted fd accepted junk)
    then show ?thesis using assms(2) by (simp add: old_first_def)
  next
    case (hand fd p sent)
    then show ?thesis using o(1,2) by auto
  next
    case (receive i m ms accepted junk fd c)
    then show ?thesis using o(5) [of i] by simp
  next
    case receive_fails
    then show ?thesis using assms(2) by simp
  next
    case (receive_nothing i m ms accepted junk)
    then show ?thesis using o(5) [of i] by simp
  next
    case (serve i ms fd c r c')
    then show ?thesis using o(5) [of i] by simp
  next
    case (crash i ms fd c r e)
    then show ?thesis using o(5) [of i] by simp
  next
    case (broken_pipe i ms fd c)
    then show ?thesis using o(5) [of i] by simp
  next
    case (finish i ms fd c)
    then show ?thesis using o(5) [of i] by simp
  qed (use assms(2) in \<open>simp_all add: old_first_def\<close>)
qed

interpretation old_queue: step_invariant "server_step fs maxfd" "old_first pid" for fs maxfd pid
  by unfold_locales (rule old_first_step)

lemma started_old_first:
  assumes "started_from (Some (room, pid # old)) n forks s" "0 < pid" "\<forall>i<nat n. forks i \<noteq> Some pid"
  shows "old_first pid s"
proof -
  have slot: "client_processes s ! i \<noteq> pid \<and> channel (workers s ! i) = [] \<and> (wstate (workers s ! i) = Waiting \<or> wstate (workers s ! i) = No_process)"
    if "i < nat n" for i
    using started_slot [OF assms(1) that] by cases (use assms(2,3) that in auto)
  have l: "length (workers s) = nat n" "length (client_processes s) = nat n" using startedD(3,4) [OF assms(1)] by auto
  have "pid \<notin> set (client_processes s)" using slot l(2) by (metis in_set_conv_nth)
  moreover have "\<forall>w\<in>set (workers s). channel w = [] \<and> (wstate w = Waiting \<or> wstate w = No_process)"
    using slot l(1) by (metis in_set_conv_nth)
  ultimately show ?thesis using startedD(5,7,8,11) [OF assms(1)] l by (simp add: old_first_def)
qed


text \<open>The number of worker 41 of the former server, in front of those of the two new workers.\<close>

lemma two_workers_restart:
  "started_from (Some (10, [41])) 2 two_workers (two_started\<lparr>available_clients := [41, 100, 101], available_room := 10\<rparr>)"
  by (simp add: started_from_def start_client_processes_def available_blocks mq_send_available_def configure_max_connections_def
      new_server_def two_workers_def two_started_def forks_ok_def Let_def upt_rec numeral_2_eq_2)


end
