(* ===== verification/Http_Limits.thy ===== *)
theory Http_Limits
  imports Http_Service
begin

text \<open>
  When the server refuses, and when it stops serving for good.
\<close>

section \<open>Refusing a connection\<close>

definition patient :: "server \<Rightarrow> bool" where
  "patient s \<longleftrightarrow> \<not> available_nonblocking s \<and> (should_stop s \<or> refused s = [])"

lemma patient_step:
  assumes "server_step fs fd_limit s s'" "patient s"
  shows "patient s'"
  using assms(1)
proof cases
  case (no_worker fd accepted junk)
  then show ?thesis using assms(2) by (simp add: patient_def)
next
  case (no_worker_interrupted fd accepted junk)
  from no_worker_interrupted(3) show ?thesis by (rule refuseE) (use assms(2) in \<open>simp add: patient_def\<close>)
next
  case (hand fd pid sent)
  show ?thesis
  proof (cases sent)
    case True
    then show ?thesis using hand_over_named(2) [OF hand(2)] assms(2) by (simp add: patient_def)
  next
    case False
    then show ?thesis using hand_over_failed [of fd pid s s'] hand(2) assms(2) by (auto simp: patient_def)
  qed
next
  case (finish i ms fd c)
  show ?thesis using give_back_cases [OF finish(4)] assms(2) by (auto simp: patient_def)
qed (use assms(2) in \<open>simp_all add: patient_def\<close>)

interpretation refusals: step_invariant "server_step fs fd_limit" patient for fs fd_limit
  by unfold_locales (rule patient_step)

lemma waits_for_worker:
  assumes "server_step fs fd_limit s s'" "main_at s = Accepted fd" "available_clients s = []" "\<not> available_nonblocking s"
  shows "should_stop s' \<or> main_at s' = Accepted fd"
  using assms(1)
proof cases
  case (no_worker_interrupted fd accepted junk)
  from no_worker_interrupted(3) show ?thesis by (rule refuseE) simp
next
  case (finish i ms fd c)
  show ?thesis using give_back_cases [OF finish(4)] assms(2) by auto
qed (use assms in auto)

lemma refuses_at_once:
  assumes "main_at s = Accepted fd" "available_clients s = []" "available_nonblocking s" "refused s = []"
    "fs ''www/service_unavailable.html'' = Some page"
  shows "\<exists>s' txt. server_step fs fd_limit s s' \<and> should_stop s' = should_stop s \<and> main_at s' = Loop_head \<and>
    refused s' = [(fd, [SSL_write txt, SSL_shutdown, SSL_free, Close_socket])]"
proof -
  obtain resp where "create_service_unavailable_response fs new_response = ret resp"
    using assms(5) by (simp add: create_service_unavailable_response_def load_file_def default_directory_def
        with_content_def)
  then have "refuse fs True [] fd s = ret (close_socket fd (s\<lparr>main_at := Loop_head, refused := refused s @
      [(fd, [SSL_write (take (nat (get_response_length resp)) (resp_text resp)), SSL_shutdown, SSL_free, Close_socket])]\<rparr>))"
    by (simp add: refuse_def Let_def new_client_def send_response_def close_client_def)
  from no_worker [OF assms(1-3) this] show ?thesis using assms(4) by (auto intro!: exI)
qed

text \<open>
  Claim C26. The answer 503 is for the case that no worker is idle. But the flags with which the
  server opens the queue, whether it is new or not, make it a queue that blocks, so
  503 is not given as long as the server is not being stopped: a connection for which no
  worker is idle waits, and the main process with it. If the queue did not block, as the server
  asks for in the attributes where it is ignored, the same connection would be answered with 503
  and released, and the server would go on.
\<close>

theorem unavailable_only_when_stopping:
  assumes "started_from existing n forks s0" "server_reaches fs fd_limit s0 s" "\<not> should_stop s"
  shows "\<not> available_nonblocking s \<and> refused s = [] \<and>
    (\<forall>fd. main_at s = Accepted fd \<and> available_clients s = [] \<longrightarrow>
       (\<forall>s'. server_step fs fd_limit s s' \<longrightarrow> should_stop s' \<or> main_at s' = Accepted fd) \<and>
       (\<forall>page. fs ''www/service_unavailable.html'' = Some page \<longrightarrow>
          (\<exists>s' txt. server_step fs fd_limit (s\<lparr>available_nonblocking := True\<rparr>) s' \<and> \<not> should_stop s' \<and>
             main_at s' = Loop_head \<and> refused s' = [(fd, [SSL_write txt, SSL_shutdown, SSL_free, Close_socket])])))"
proof -
  have "patient s0" using startedD(8,14) [OF assms(1)] by (simp add: patient_def)
  then have p: "\<not> available_nonblocking s" "refused s = []"
    using refusals.runs_inv [OF assms(2)] assms(3) by (auto simp: patient_def)
  moreover have "\<exists>s' txt. server_step fs fd_limit (s\<lparr>available_nonblocking := True\<rparr>) s' \<and> \<not> should_stop s' \<and>
      main_at s' = Loop_head \<and> refused s' = [(fd, [SSL_write txt, SSL_shutdown, SSL_free, Close_socket])]"
    if "main_at s = Accepted fd" "available_clients s = []" "fs ''www/service_unavailable.html'' = Some page" for fd page
    using refuses_at_once [of "s\<lparr>available_nonblocking := True\<rparr>" fd fs page fd_limit] that p assms(3) by simp
  ultimately show ?thesis using waits_for_worker by blast
qed

text \<open>Both workers have been given a connection when a third one is accepted.\<close>

lemma two_busy:
  "\<exists>s. server_reaches fs 1024 two_started s \<and> main_at s = Accepted 9 \<and> available_clients s = [] \<and> \<not> should_stop s"
proof -
  let ?s0 = "two_started\<lparr>main_at := Chosen 7 100, available_clients := [101], open_sockets := [7]\<rparr>"
  let ?w = "\<lparr>channel = [fd_message 7], wstate = Waiting\<rparr>"
  let ?s1 = "set_worker 0 ?w (?s0\<lparr>main_at := Loop_head\<rparr>)"
  let ?s2 = "?s1\<lparr>main_at := At_accept\<rparr>"
  let ?s3 = "?s2\<lparr>main_at := Accepted 8, open_sockets := open_sockets ?s2 @ [8]\<rparr>"
  let ?s4 = "?s3\<lparr>main_at := Chosen 8 101, available_clients := []\<rparr>"
  let ?s5 = "set_worker 1 \<lparr>channel = [fd_message 8], wstate = Waiting\<rparr> (?s4\<lparr>main_at := Loop_head\<rparr>)"
  let ?s6 = "?s5\<lparr>main_at := At_accept\<rparr>"
  let ?s7 = "?s6\<lparr>main_at := Accepted 9, open_sockets := open_sockets ?s6 @ [9]\<rparr>"
  have "hand_over True 7 100 ?s0 = ret ?s1"
    by (simp add: hand_over_def send_fd_def index_of_def set_worker_def two_started_def)
  then have 1: "server_step fs 1024 ?s0 ?s1" by (intro hand [where sent = True]) simp_all
  have 2: "server_step fs 1024 ?s1 ?s2" by (rule enter) (simp_all add: two_started_def)
  have 3: "server_step fs 1024 ?s2 ?s3" by (rule accept) simp_all
  have 4: "server_step fs 1024 ?s3 ?s4" by (rule take_worker) simp_all
  have "hand_over True 8 101 ?s4 = ret ?s5"
    by (simp add: hand_over_def send_fd_def index_of_def set_worker_def two_started_def)
  then have 5: "server_step fs 1024 ?s4 ?s5" by (intro hand [where sent = True]) simp_all
  have 6: "server_step fs 1024 ?s5 ?s6" by (rule enter) (simp_all add: two_started_def)
  have 7: "server_step fs 1024 ?s6 ?s7" by (rule accept) simp_all
  have "server_reaches fs 1024 two_started ?s7"
    by (rule server_next [OF server_next [OF server_next [OF server_next [OF server_next [OF server_next [OF server_next
      [OF two_chosen 1] 2] 3] 4] 5] 6] 7])
  moreover have "main_at ?s7 = Accepted 9" "available_clients ?s7 = []" "\<not> should_stop ?s7"
    by (simp_all add: two_started_def)
  ultimately show ?thesis by blast
qed

theorem unavailable_only_when_stopping_witness:
  "\<exists>s. server_reaches Map.empty 1024 two_started s \<and> main_at s = Accepted 9 \<and> refused s = [] \<and>
    (\<forall>s'. server_step Map.empty 1024 s s' \<longrightarrow> should_stop s' \<or> main_at s' = Accepted 9)"
proof -
  obtain s where s: "server_reaches Map.empty 1024 two_started s" "main_at s = Accepted 9" "available_clients s = []" "\<not> should_stop s"
    using two_busy by blast
  from unavailable_only_when_stopping [OF two_workers_start s(1,4)] s show ?thesis by blast
qed

section \<open>A request that ends its worker\<close>

text \<open>A word the server does not know as a method, in a request on its own.\<close>

definition unknown_method :: "string \<Rightarrow> bool" where
  "unknown_method m \<longleftrightarrow> m \<notin> type_to_string ` {GET, POST, OPTIONS, HEAD, PUT, DELETE} \<and>
     (\<forall>c\<in>set m. \<not> iscntrl c \<and> c \<noteq> CHR '' '') \<and> length m \<le> 1000"

definition method_request :: "string \<Rightarrow> string" where
  "method_request m = m @ '' / HTTP/1.1'' @ crlf @ crlf"

text \<open>The first read gives this request; \<open>behind\<close> is what is in the heap behind the copy of it.\<close>

definition bad_round :: "string \<Rightarrow> string \<Rightarrow> round" where
  "bad_round m behind =
     \<lparr>behind_head = behind, head_read = Read_bytes (method_request m), stack_junk = [], body_reads = [], script_output = None\<rparr>"

lemma string_split_first:
  assumes "c \<notin> set t"
  shows "\<exists>ts. string_split [c] (t @ c # s) = ret (strip_cntrl t # ts)"
proof -
  have f: "find_sub [c] (t @ c # s) = Some (length t)"
    using find_sub_skip [OF assms, of "[]" "c # s"] find_sub_at [of "[c]" s] by simp
  obtain ts where "string_split [c] s = ret ts" using string_split_not_None [of "[c]" s] by auto
  then show ?thesis using string_split_cases(2) [OF _ f] by simp
qed

lemma method_request_uncaught:
  assumes "unknown_method m"
  shows "parse (method_request m @ behind) r = fail Uncaught"
proof -
  have "(UNIV :: RequestType set) \<subseteq> {GET, POST, OPTIONS, HEAD, PUT, DELETE}"
  proof
    fix t :: RequestType
    show "t \<in> {GET, POST, OPTIONS, HEAD, PUT, DELETE}" by (cases t) simp_all
  qed
  then have m: "\<forall>c\<in>set m. \<not> iscntrl c" "CHR '' '' \<notin> set m" "m \<notin> type_to_string ` UNIV"
    using assms unfolding unknown_method_def by blast+
  have lf: "CHR 0x0A \<notin> set (m @ '' / HTTP/1.1'' @ [CHR 0x0D])" using m(1) by (auto simp: iscntrl_def of_char_def)
  have "strip_cntrl (m @ '' / HTTP/1.1'' @ [CHR 0x0D]) = m @ '' / HTTP/1.1''"
    using m(1) by (simp add: strip_cntrl_def iscntrl_def of_char_def)
  moreover have "method_request m @ behind = (m @ '' / HTTP/1.1'' @ [CHR 0x0D]) @ CHR 0x0A # crlf @ behind"
    by (simp add: method_request_def crlf_def)
  ultimately obtain ts where 1: "string_split newline (method_request m @ behind) = ret ((m @ '' / HTTP/1.1'') # ts)"
    using string_split_first [OF lf, of "crlf @ behind"] unfolding newline_def by metis
  have "string_split '' '' (join '' '' [m, ''/'', ''HTTP/1.1'']) = ret (pieces [m, ''/'', ''HTTP/1.1''])"
    by (rule string_split_join) (use m(2) in auto)
  then have 2: "string_split '' '' (((m @ '' / HTTP/1.1'') # ts) ! 0) = ret [m, ''/'', ''HTTP/1.1'']"
    using m(1) by (simp add: strip_cntrl_def iscntrl_def of_char_def)
  show ?thesis using parse_unknown [OF 1 2] m(3) by simp
qed

lemma bad_round_crashes:
  assumes "unknown_method m"
  shows "serve_one fs (bad_round m behind) c = fail Uncaught"
proof -
  let ?buf = "method_request m @ replicate (1024 - length (method_request m)) NUL"
  have len: "length (method_request m) = length m + 15" "length m \<le> 1000"
    using assms by (simp_all add: method_request_def crlf_def unknown_method_def)
  have m: "\<forall>c\<in>set m. \<not> iscntrl c" using assms by (simp add: unknown_method_def)
  have cr: "no_CR (m @ '' / HTTP/1.1'')" "NUL \<notin> set (method_request m)"
    using m by (auto simp: no_CR_def method_request_def crlf_def iscntrl_def of_char_def)
  have "find_sub (crlf @ crlf) ((m @ '' / HTTP/1.1'') @ crlf @ crlf @ []) = Some (length (m @ '' / HTTP/1.1''))"
    using crlf_skip [OF cr(1), of "crlf @ crlf @ []"] find_sub_at [of "crlf @ crlf" "[]"] by simp
  then have "strstr ?buf (crlf @ crlf) = ret (Some (length m + 11))"
    using cr(2) by (simp add: strstr_def cstr_prefix) (simp add: method_request_def cstr_def)
  moreover have "copy_into (method_request m) (replicate 1024 NUL) = ret ?buf" using len by (simp add: copy_into_def)
  ultimately show ?thesis
    using method_request_uncaught [OF assms, of behind] len
    by (simp add: serve_one_def receive_headers_def bad_round_def Let_def copy_into_def)
qed

section \<open>How many bad requests the server survives\<close>

definition living :: "server \<Rightarrow> nat" where
  "living s = length (filter (\<lambda>w. alive (wstate w)) (workers s))"

text \<open>
  One client: it connects, the connection is handed to a worker, which receives it and dies on
  what the client sends (\<open>r\<close>).
\<close>

inductive lost_to :: "files \<Rightarrow> int \<Rightarrow> round \<Rightarrow> server \<Rightarrow> server \<Rightarrow> bool" for fs fd_limit r where
  lost: "server_step fs fd_limit s s1 \<Longrightarrow> main_at s1 = At_accept \<Longrightarrow>
    server_step fs fd_limit s1 s2 \<Longrightarrow> main_at s2 = Accepted fd \<Longrightarrow>
    server_step fs fd_limit s2 s3 \<Longrightarrow> main_at s3 = Chosen fd pid \<Longrightarrow>
    server_step fs fd_limit s3 s4 \<Longrightarrow> i < length (workers s4) \<Longrightarrow> workers s4 ! i = \<lparr>channel = [fd_message fd], wstate = Waiting\<rparr> \<Longrightarrow>
    server_step fs fd_limit s4 s5 \<Longrightarrow> workers s5 = (workers s4)[i := \<lparr>channel = [], wstate = Serving fd c\<rparr>] \<Longrightarrow>
    client_open c \<Longrightarrow> serve_one fs r c = fail e \<Longrightarrow>
    lost_to fs fd_limit r s (set_worker i \<lparr>channel = [], wstate = Crashed fd\<rparr> s5)"

lemma lost_reaches: "lost_to fs fd_limit r s s' \<Longrightarrow> server_reaches fs fd_limit s s'"
proof (induction rule: lost_to.induct)
  case (lost s s1 s2 fd s3 pid s4 i s5 c e)
  have "server_step fs fd_limit s5 (set_worker i \<lparr>channel = [], wstate = Crashed fd\<rparr> s5)"
    by (rule crash [OF _ _ lost.hyps(12,13)]) (use lost.hyps(8,11) in simp_all)
  then show ?case
    by (rule server_next [OF server_next [OF server_next [OF server_next [OF server_next [OF server_next [OF server_start
      lost.hyps(1)] lost.hyps(3)] lost.hyps(5)] lost.hyps(7)] lost.hyps(10)]])
qed

lemma losses_reach: "(lost_to fs fd_limit r ^^ k) s s' \<Longrightarrow> server_reaches fs fd_limit s s'"
proof (induction k arbitrary: s')
  case (Suc k)
  then obtain s1 where "(lost_to fs fd_limit r ^^ k) s s1" "lost_to fs fd_limit r s1 s'" by (auto elim: relpowp_Suc_E)
  then show ?case using Suc.IH lost_reaches rtranclp_trans by metis
qed simp

definition all_idle :: "server \<Rightarrow> bool" where
  "all_idle s \<longleftrightarrow> dropped s = [] \<and>
     (\<forall>i<length (workers s). alive (wstate (workers s ! i)) \<longrightarrow> workers s ! i = \<lparr>channel = [], wstate = Waiting\<rparr>)"

definition ready :: "int \<Rightarrow> server \<Rightarrow> bool" where
  "ready fd_limit s \<longleftrightarrow>
     pids_ok s \<and> tokens_ok s \<and> conns_ok fd_limit s \<and> main_at s = Loop_head \<and> \<not> should_stop s \<and> all_idle s"

lemma server_keeps:
  assumes "server_reaches fs maxfd s s'" "pids_ok s" "tokens_ok s" "conns_ok maxfd s" "maxfd \<le> 2 ^ 31"
  shows "pids_ok s' \<and> tokens_ok s' \<and> conns_ok maxfd s'"
  using slots.runs_inv [of fs maxfd s s'] conns.runs_inv [of fs maxfd s s'] assms by blast

lemma ready_idle:
  assumes "ready maxfd s" "i < length (workers s)"
  shows "alive (wstate (workers s ! i)) \<longleftrightarrow> client_processes s ! i \<in> set (available_clients s)"
proof -
  have t: "tokens s i = (if alive (wstate (workers s ! i)) then 1 else 0)"
    using assms by (intro tokens_okD(1)) (simp_all add: ready_def)
  have "load (workers s ! i) = 0" if "alive (wstate (workers s ! i))"
  proof -
    have "workers s ! i = \<lparr>channel = [], wstate = Waiting\<rparr>" using assms that by (simp add: ready_def all_idle_def)
    then show ?thesis by (simp add: load_def)
  qed
  then show ?thesis using t assms(1) count_list_0_iff [of "available_clients s" "client_processes s ! i"]
    by (auto simp: tokens_def ready_def all_idle_def split: if_splits)
qed

text \<open>In these states the living workers are those in the queue.\<close>

lemma living_idle:
  assumes "ready maxfd s"
  shows "living s = length (available_clients s)"
proof -
  have inv: "pids_ok s" "tokens_ok s" using assms by (auto simp: ready_def)
  let ?A = "{i. i < length (workers s) \<and> alive (wstate (workers s ! i))}"
  have "inj_on (\<lambda>i. client_processes s ! i) ?A"
    using inv(1) by (auto simp: inj_on_def pids_ok_def alive_def split: worker_state.splits)
  moreover have "(\<lambda>i. client_processes s ! i) ` ?A = set (available_clients s)"
  proof (intro set_eqI iffI)
    fix pid assume "pid \<in> (\<lambda>i. client_processes s ! i) ` ?A"
    then show "pid \<in> set (available_clients s)" using ready_idle [OF assms] by auto
  next
    fix pid assume p: "pid \<in> set (available_clients s)"
    obtain i where "i < length (workers s)" "client_processes s ! i = pid"
      using named_slot [OF inv(1) tokens_okD(2) [OF inv(2) p]] by blast
    then show "pid \<in> (\<lambda>i. client_processes s ! i) ` ?A" using ready_idle [OF assms] p by force
  qed
  ultimately have "card ?A = card (set (available_clients s))" using card_image by metis
  then show ?thesis
    using distinct_card [OF idle_distinct(1) [OF inv]] by (simp add: living_def length_filter_conv_card)
qed

lemma fresh_fd:
  assumes "length (open_sockets s) < nat maxfd"
  obtains fd where "0 \<le> fd" "fd < maxfd" "fd \<notin> set (open_sockets s)"
proof -
  have "card (set (open_sockets s)) < card {0..<maxfd}"
    using assms card_length [of "open_sockets s"] by simp
  then have "\<not> {0..<maxfd} \<subseteq> set (open_sockets s)" using card_mono [of "set (open_sockets s)" "{0..<maxfd}"] by auto
  then obtain fd where "fd \<in> {0..<maxfd}" "fd \<notin> set (open_sockets s)" by blast
  then show thesis using that [of fd] by simp
qed

text \<open>There is always a client that can do this, as long as a worker is idle.\<close>

lemma attack:
  assumes r: "ready maxfd s" and a: "available_clients s = pid # rest"
    and room: "length (open_sockets s) < nat maxfd" and maxfd: "maxfd \<le> 2 ^ 31" and bad: "\<And>c. serve_one fs r1 c = fail e"
  shows "\<exists>s'. lost_to fs maxfd r1 s s' \<and> ready maxfd s' \<and> available_clients s' = rest \<and>
    length (open_sockets s') = Suc (length (open_sockets s)) \<and> finished s' = finished s"
proof -
  have inv: "pids_ok s" "tokens_ok s" "conns_ok maxfd s" and m: "main_at s = Loop_head" "\<not> should_stop s" "all_idle s"
    using r by (auto simp: ready_def)
  obtain fd where fd: "0 \<le> fd" "fd < maxfd" "fd \<notin> set (open_sockets s)" using fresh_fd [OF room] by blast
  have fd31: "fd < 2 ^ 31" using fd maxfd by simp
  have n: "named s pid" using tokens_okD(2) [OF inv(2)] a by simp
  obtain i where i: "i < length (workers s)" "index_of pid (client_processes s) = i" "client_processes s ! i = pid"
    using named_slot [OF inv(1) n] by blast
  then have "alive (wstate (workers s ! i))" using ready_idle [OF r i(1)] a by simp
  then have w: "workers s ! i = \<lparr>channel = [], wstate = Waiting\<rparr>" using m(3) i(1) by (simp add: all_idle_def)
  define s1 where "s1 = s\<lparr>main_at := At_accept\<rparr>"
  define s2 where "s2 = s1\<lparr>main_at := Accepted fd, open_sockets := open_sockets s1 @ [fd]\<rparr>"
  define s3 where "s3 = s2\<lparr>main_at := Chosen fd pid, available_clients := rest\<rparr>"
  define s4 where "s4 = set_worker i \<lparr>channel = [fd_message fd], wstate = Waiting\<rparr> (s3\<lparr>main_at := Loop_head\<rparr>)"
  define c where "c = new_client True []"
  define s5 where "s5 = set_worker i \<lparr>channel = [], wstate = Serving fd c\<rparr> s4"
  define s6 where "s6 = set_worker i \<lparr>channel = [], wstate = Crashed fd\<rparr> s5"
  note defs = s1_def s2_def s3_def s4_def s5_def s6_def
  have 1: "server_step fs maxfd s s1" unfolding s1_def by (rule enter) (rule m(1), rule m(2))
  have 2: "server_step fs maxfd s1 s2" unfolding s2_def by (rule accept) (use fd in \<open>simp_all add: s1_def\<close>)
  have 3: "server_step fs maxfd s2 s3" unfolding s3_def by (rule take_worker) (use a in \<open>simp_all add: s1_def s2_def\<close>)
  have "hand_over True fd pid s3 = ret s4"
    using i w by (simp add: hand_over_def send_fd_def Let_def s1_def s2_def s3_def s4_def set_worker_def)
  then have 4: "server_step fs maxfd s3 s4" by (intro hand [where sent = True]) (simp_all add: s3_def)
  have 5: "server_step fs maxfd s4 s5" unfolding s5_def c_def
    by (rule receive [where m = "fd_message fd"]) (use i fd(1) fd31 in \<open>simp_all add: s1_def s2_def s3_def s4_def\<close>)
  have c: "client_open c" by (simp add: c_def new_client_def)
  have lost: "lost_to fs maxfd r1 s s6" unfolding s6_def
    by (rule lost_to.lost [OF 1 _ 2 _ 3 _ 4 _ _ 5 _ c bad]) (use i(1) in \<open>simp_all add: s1_def s2_def s3_def s4_def s5_def\<close>)
  have "all_idle s6" using m(3) i(1) by (auto simp: all_idle_def defs nth_list_update)
  moreover have "main_at s6 = Loop_head" "\<not> should_stop s6" "available_clients s6 = rest" "finished s6 = finished s"
    "length (open_sockets s6) = Suc (length (open_sockets s))"
    using m(2) by (simp_all add: defs)
  ultimately show ?thesis using lost server_keeps [OF lost_reaches [OF lost] inv maxfd] by (auto simp: ready_def)
qed

lemma attacks:
  assumes "ready maxfd s0" "length (open_sockets s0) + length (available_clients s0) \<le> nat maxfd" "maxfd \<le> 2 ^ 31"
    and "\<And>c. serve_one fs r c = fail e" "k \<le> length (available_clients s0)"
  shows "\<exists>s. (lost_to fs maxfd r ^^ k) s0 s \<and> ready maxfd s \<and> length (available_clients s) = length (available_clients s0) - k \<and>
    length (open_sockets s) = length (open_sockets s0) + k \<and> finished s = finished s0"
  using assms(5)
proof (induction k)
  case 0
  then show ?case using assms(1) by (intro exI [of _ s0]) simp
next
  case (Suc k)
  then obtain s where s: "(lost_to fs maxfd r ^^ k) s0 s" "ready maxfd s" "length (available_clients s) = length (available_clients s0) - k"
    "length (open_sockets s) = length (open_sockets s0) + k" "finished s = finished s0" by auto
  then obtain pid rest where a: "available_clients s = pid # rest" using Suc.prems by (cases "available_clients s") auto
  have "length (open_sockets s) < nat maxfd" using s(4) assms(2) Suc.prems by linarith
  from attack [OF s(2) a this assms(3,4)] obtain s' where s': "lost_to fs maxfd r s s'" "ready maxfd s'"
    "available_clients s' = rest" "length (open_sockets s') = Suc (length (open_sockets s))" "finished s' = finished s" by blast
  have "(lost_to fs maxfd r ^^ Suc k) s0 s'" using s(1) s'(1) by (rule relpowp_Suc_I)
  then show ?case using s' s(3-5) a by (intro exI [of _ s']) auto
qed

definition dead :: "server \<Rightarrow> bool" where
  "dead s \<longleftrightarrow> available_clients s = [] \<and> (\<forall>i<length (workers s). \<not> alive (wstate (workers s ! i))) \<and>
     (\<forall>fd pid. main_at s \<noteq> Chosen fd pid)"

lemma dead_step:
  assumes "server_step fs maxfd s s'" "dead s"
  shows "dead s' \<and> finished s' = finished s"
  using assms(1)
proof cases
  case (no_worker fd accepted junk)
  from no_worker(4) show ?thesis by (rule refuseE) (use assms(2) in \<open>simp add: dead_def\<close>)
next
  case (no_worker_interrupted fd accepted junk)
  from no_worker_interrupted(3) show ?thesis by (rule refuseE) (use assms(2) in \<open>simp add: dead_def\<close>)
qed (use assms(2) in \<open>auto simp: dead_def alive_def\<close>)

interpretation dead: step_invariant "server_step fs maxfd" "\<lambda>s. dead s \<and> finished s = f" for fs maxfd f
  by unfold_locales (use dead_step in metis)

lemma living_0_iff: "living s = 0 \<longleftrightarrow> (\<forall>i<length (workers s). \<not> alive (wstate (workers s ! i)))"
  by (auto simp: living_def filter_empty_conv all_set_conv_all_nth)

lemma started_ready:
  assumes "started n forks s"
  shows "ready maxfd s"
proof -
  have "workers s ! i = \<lparr>channel = [], wstate = Waiting\<rparr>" if "i < length (workers s)" "alive (wstate (workers s ! i))" for i
  proof -
    have "i < nat n" using startedD(3) [OF assms] that(1) by simp
    from started_slot [OF assms this] that(2) show ?thesis by cases simp_all
  qed
  then show ?thesis
    using started_pids_ok [OF assms] started_tokens_ok [OF assms] started_conns_ok [OF assms] startedD(5,9,12) [OF assms]
    by (simp add: ready_def all_idle_def)
qed

text \<open>
  Claim C21. A request whose first word is no method the server knows ends the worker that serves
  it, whatever the connection and whatever is behind the copy of the request in the heap. So
  any client can take the server out of service: every such request of a client takes one worker
  away, and after as many of them as there are workers alive at the start, without the server
  having been asked to stop, whatever happens no connection is ever served again: no process is
  alive, none becomes alive, and no connection is done.
\<close>

theorem bad_requests_stop_service:
  assumes "started n forks s0" "n \<le> fd_limit" "fd_limit \<le> 2 ^ 31" "unknown_method m"
  shows "(\<forall>c. serve_one fs (bad_round m behind) c = fail Uncaught) \<and>
    (\<forall>k\<le>living s0. \<exists>s. (lost_to fs fd_limit (bad_round m behind) ^^ k) s0 s \<and> living s = living s0 - k \<and> \<not> should_stop s \<and>
       (k = living s0 \<longrightarrow> (\<forall>s'. server_reaches fs fd_limit s s' \<longrightarrow> finished s' = [] \<and> living s' = 0)))"
proof (intro conjI allI impI)
  show crash: "serve_one fs (bad_round m behind) c = fail Uncaught" for c
    by (rule bad_round_crashes [OF assms(4)])
  fix k assume k: "k \<le> living s0"
  have r: "ready fd_limit s0" by (rule started_ready [OF assms(1)])
  have "length (available_clients s0) \<le> nat n"
    using idle_distinct(2) [OF started_pids_ok [OF assms(1)] started_tokens_ok [OF assms(1)]] startedD(2) [OF assms(1)] by simp
  then have room: "length (open_sockets s0) + length (available_clients s0) \<le> nat fd_limit"
    using startedD(6) [OF assms(1)] assms(2) by simp
  obtain s where s: "(lost_to fs fd_limit (bad_round m behind) ^^ k) s0 s" "ready fd_limit s"
    "length (available_clients s) = length (available_clients s0) - k" "finished s = []"
    using attacks [OF r room assms(3) crash, of k] k living_idle [OF r] startedD(7) [OF assms(1)] by auto
  have "finished s' = [] \<and> living s' = 0" if "k = living s0" "server_reaches fs fd_limit s s'" for s'
  proof -
    have "available_clients s = []" using s(3) that(1) living_idle [OF r] by simp
    moreover have "living s = 0" using living_idle [OF s(2)] calculation by simp
    ultimately have "dead s" using s(2) by (simp add: dead_def ready_def living_0_iff)
    then show ?thesis using dead.runs_inv [OF that(2), of "[]"] s(4) by (simp add: dead_def living_0_iff)
  qed
  then show "\<exists>s. (lost_to fs fd_limit (bad_round m behind) ^^ k) s0 s \<and> living s = living s0 - k \<and> \<not> should_stop s \<and>
       (k = living s0 \<longrightarrow> (\<forall>s'. server_reaches fs fd_limit s s' \<longrightarrow> finished s' = [] \<and> living s' = 0))"
    using s living_idle [OF r] living_idle [OF s(2)] by (intro exI [of _ s]) (auto simp: ready_def)
qed

theorem bad_requests_stop_service_witness:
  "\<exists>s. (lost_to Map.empty 1024 (bad_round ''FETCH'' []) ^^ 2) two_started s \<and> living s = 0 \<and> \<not> should_stop s \<and>
    (\<forall>s'. server_reaches Map.empty 1024 s s' \<longrightarrow> finished s' = [])"
proof -
  have "unknown_method ''FETCH''" by (auto simp: unknown_method_def type_to_string_def iscntrl_def of_char_def)
  moreover have "living two_started = 2" by (simp add: living_def two_started_def)
  ultimately show ?thesis
    using bad_requests_stop_service [OF two_workers_start, of 1024 "''FETCH''" Map.empty "[]"] by fastforce
qed

end
