(* ===== verification/Http_Logging.thy ===== *)
theory Http_Logging
  imports Http_Pool
begin

text \<open>
  \<open>http_server/logging\<close>: the messages the processes send to the logger process, the loggers, and
  the logger process itself. A logger is the path of its file and what it has written there;
  \<open>when\<close> formats a time.
\<close>

section \<open>Messages\<close>

datatype LogLevel = Debug | Info | Warning | Error | Fatal

record LogMessage =
  log_level :: LogLevel
  log_time :: int
  log_text :: string

text \<open>\<open>strncpy(arr, s, n)\<close>: at most \<open>n\<close> bytes of \<open>s\<close>, and zero bytes up to \<open>n\<close>.\<close>

definition strncpy :: "string \<Rightarrow> string \<Rightarrow> nat \<Rightarrow> string" where
  "strncpy arr s n = (let t = take n (cstr s) in t @ replicate (n - length t) NUL @ drop n arr)"

text \<open>\<open>junk\<close> is what the array held before.\<close>

definition createLogMessage :: "string \<Rightarrow> int \<Rightarrow> LogLevel \<Rightarrow> string \<Rightarrow> LogMessage" where
  "createLogMessage junk now level s =
     \<lparr>log_level = level, log_time = now, log_text = (strncpy junk s 255)[255 := NUL]\<rparr>"

section \<open>Loggers\<close>

definition level_strings :: "LogLevel \<Rightarrow> string" where
  "level_strings level =
     (case level of Debug \<Rightarrow> ''DEBUG'' | Info \<Rightarrow> ''INFO'' | Warning \<Rightarrow> ''WARNING'' | Error \<Rightarrow> ''ERROR'' | Fatal \<Rightarrow> ''FATAL'')"

record logger =
  log_path :: string
  log_out :: string

definition new_logger :: logger where
  "new_logger = \<lparr>log_path = ''/dev/stdout'', log_out = []\<rparr>"

text \<open>The file is truncated; \<open>opened\<close> says whether it can be opened, \<open>Inl 1\<close> is \<open>exit(1)\<close>.\<close>

definition new_file_logger :: "bool \<Rightarrow> string \<Rightarrow> int + logger" where
  "new_file_logger opened path = (if \<not> opened then Inl 1 else Inr \<lparr>log_path = path, log_out = []\<rparr>)"

definition log_line :: "(int \<Rightarrow> string) \<Rightarrow> LogLevel \<Rightarrow> int \<Rightarrow> string \<Rightarrow> string" where
  "log_line when level time s = ''['' @ when time @ ''] ['' @ level_strings level @ ''] '' @ s @ [CHR 0x0A]"

definition log_to :: "(int \<Rightarrow> string) \<Rightarrow> LogLevel \<Rightarrow> int \<Rightarrow> string \<Rightarrow> logger \<Rightarrow> logger" where
  "log_to when level time s l = l\<lparr>log_out := log_out l @ log_line when level time s\<rparr>"

text \<open>\<open>CompositeLogger\<close>.\<close>

definition add_logger :: "logger \<Rightarrow> logger list \<Rightarrow> logger list" where
  "add_logger l ls = ls @ [l]"

definition log_all :: "(int \<Rightarrow> string) \<Rightarrow> LogLevel \<Rightarrow> int \<Rightarrow> string \<Rightarrow> logger list \<Rightarrow> logger list" where
  "log_all when level time s ls = map (log_to when level time s) ls"

section \<open>The logger process\<close>

text \<open>
  \<open>start_logger_process\<close>: its number, the times of its first and last line, and what \<open>mq_receive\<close>
  gives in each turn of the loop until it is told to stop, \<open>None\<close> for \<open>-1\<close>.
\<close>

primrec logger_loop :: "(int \<Rightarrow> string) \<Rightarrow> LogMessage option list \<Rightarrow> logger list \<Rightarrow> logger list" where
  "logger_loop when [] ls = ls"
| "logger_loop when (m # ms) ls =
     (case m of
        None \<Rightarrow> logger_loop when ms ls
      | Some x \<Rightarrow> logger_loop when ms (log_all when (log_level x) (log_time x) (cstr (log_text x)) ls))"

definition start_logger_process ::
  "(int \<Rightarrow> string) \<Rightarrow> nat \<Rightarrow> int \<Rightarrow> int \<Rightarrow> LogMessage option list \<Rightarrow> logger list \<Rightarrow> logger list" where
  "start_logger_process when pid t0 t1 received ls =
     log_all when Debug t1 ''Logger process ended''
       (logger_loop when received
         (log_all when Debug t0 (''Logger process started with PID: '' @ show_nat pid) ls))"

section \<open>What is logged\<close>

text \<open>The reference: one line per message, cut behind 255 characters and before a zero byte.\<close>

definition reported :: "(int \<Rightarrow> string) \<Rightarrow> LogLevel \<times> int \<times> string \<Rightarrow> string" where
  "reported when m = (case m of (level, time, s) \<Rightarrow> log_line when level time (take 255 (takeWhile (\<lambda>c. c \<noteq> NUL) s)))"

lemma strncpy_text: "length junk = 256 \<Longrightarrow> cstr ((strncpy junk s 255)[255 := NUL]) = take 255 (cstr s)"
proof -
  assume l: "length junk = 256"
  have nz: "NUL \<notin> set (take 255 (cstr s))"
    by (auto simp: cstr_def dest!: in_set_takeD set_takeWhileD)
  let ?t = "take 255 (cstr s)"
  have "length (drop 255 junk) = Suc 0" using l by simp
  then obtain x where d: "drop 255 junk = [x]" by (auto simp only: length_Suc_conv length_0_conv)
  have "(strncpy junk s 255)[255 := NUL] = ?t @ (replicate (255 - length ?t) NUL @ [NUL])"
    using d l by (auto simp: strncpy_def Let_def list_update_append)
  also have "cstr \<dots> = ?t"
    unfolding cstr_prefix [OF nz] by (cases "255 - length ?t") (simp_all add: cstr_def)
  finally show ?thesis .
qed

lemma logger_loop_log:
  "logger_loop when ms ls =
    map (\<lambda>l. l\<lparr>log_out := log_out l @ concat (map (\<lambda>x. log_line when (log_level x) (log_time x) (cstr (log_text x)))
      (map the (filter (\<lambda>m. m \<noteq> None) ms)))\<rparr>) ls"
proof (induction ms arbitrary: ls)
  case (Cons m ms)
  then show ?case by (cases m) (simp_all add: log_all_def log_to_def comp_def)
qed simp

text \<open>
  The logger process writes to every logger, in order and nothing else, one line for
  its own start, one for each message the processes have sent, with its time, level and text,
  cut behind 255 characters and before a zero byte, and one for its end. A failed receive
  loses nothing, and what the buffers of the senders held before does not matter.
\<close>

lemma logger_reports_messages:
  assumes "filter (\<lambda>m. m \<noteq> None) received = map (\<lambda>(junk, level, time, s). Some (createLogMessage junk time level s)) sent"
    and "\<And>junk level time s. (junk, level, time, s) \<in> set sent \<Longrightarrow> length junk = 256"
  shows "start_logger_process when pid t0 t1 received ls =
    map (\<lambda>l. l\<lparr>log_out := log_out l @ log_line when Debug t0 (''Logger process started with PID: '' @ show_nat pid) @
      concat (map (\<lambda>(junk, m). reported when m) sent) @ log_line when Debug t1 ''Logger process ended''\<rparr>) ls"
proof -
  have "map (\<lambda>x. log_line when (log_level x) (log_time x) (cstr (log_text x))) (map the (filter (\<lambda>m. m \<noteq> None) received)) =
      map (\<lambda>(junk, m). reported when m) sent"
    unfolding assms(1) map_map
  proof (rule map_cong [OF refl])
    fix x assume x: "x \<in> set sent"
    obtain junk level time s where "x = (junk, level, time, s)" by (cases x)
    with x assms(2) [of junk level time s] strncpy_text [of junk s]
    show "((\<lambda>x. log_line when (log_level x) (log_time x) (cstr (log_text x))) \<circ> (the \<circ>
        (\<lambda>(junk, level, time, s). Some (createLogMessage junk time level s)))) x = (case x of (junk, m) \<Rightarrow> reported when m)"
      by (simp add: createLogMessage_def reported_def cstr_def)
  qed
  then show ?thesis
    unfolding start_logger_process_def logger_loop_log by (simp add: log_all_def log_to_def comp_def)
qed

lemma logger_reports_messages_witness:
  "start_logger_process (\<lambda>_. ''now'') 7 1 3 [None, Some (createLogMessage (replicate 256 CHR ''x'') 2 Info ''hi'')] [new_logger] =
    [new_logger\<lparr>log_out := log_line (\<lambda>_. ''now'') Debug 1 (''Logger process started with PID: '' @ show_nat 7) @
      log_line (\<lambda>_. ''now'') Info 2 ''hi'' @ log_line (\<lambda>_. ''now'') Debug 3 ''Logger process ended''\<rparr>]"
proof -
  have "filter (\<lambda>m. m \<noteq> None) [None, Some (createLogMessage (replicate 256 CHR ''x'') 2 Info ''hi'')] =
    map (\<lambda>(junk, level, time, s). Some (createLogMessage junk time level s)) [(replicate 256 CHR ''x'', Info, 2, ''hi'')]" by simp
  from logger_reports_messages [OF this, of "\<lambda>_. ''now''" 7 1 3 "[new_logger]"] show ?thesis
    by (simp add: reported_def new_logger_def)
qed

end
