(* ===== verification/Http_End.thy ===== *)
theory Http_End
  imports Http_Limits Http_Logging
begin

text \<open>
  The end of the server: what \<open>Server::run\<close> does behind its loop and what the destructor does, as
  the list of their calls. \<open>waits\<close> is what \<open>waitpid\<close> answers.
\<close>

datatype end_call =
    Report LogLevel string
  | Close_channel nat
  | Kill_quit int
  | Wait_for int
  | Sleep nat
  | SSL_CTX_free
  | ERR_free_strings
  | EVP_cleanup
  | CRYPTO_cleanup_all_ex_data
  | Mq_close string
  | Mq_unlink string
  | Close_server_socket
  | Delete_logger

definition end_worker :: "(int \<Rightarrow> int) \<Rightarrow> nat \<Rightarrow> int \<Rightarrow> end_call list" where
  "end_worker waits i pid =
     [Close_channel i, Kill_quit pid, Wait_for pid,
      Report Debug (''Child process with PID: '' @ show_int (waits pid) @ '' killed'')]"

definition leave_run :: "(int \<Rightarrow> int) \<Rightarrow> int \<Rightarrow> server \<Rightarrow> end_call list" where
  "leave_run waits logger_pid s =
     Report Info ''Server shutting down before killing child processes'' #
     concat (map (\<lambda>i. end_worker waits i (client_processes s ! i)) [0..<nat (max_connections s)]) @
     [Sleep 1, Kill_quit logger_pid, Wait_for logger_pid]"

definition destroy_server :: "end_call list" where
  "destroy_server =
     [SSL_CTX_free, ERR_free_strings, EVP_cleanup, CRYPTO_cleanup_all_ex_data,
      Mq_close ''/available'', Mq_unlink ''/available'', Mq_close ''/logger'', Mq_unlink ''/logger'',
      Close_server_socket, Delete_logger]"

text \<open>
  \<open>kill(0, SIGQUIT)\<close> signals every process of the group and so the caller too. The main process
  handles only \<open>SIGINT\<close>, so it is ended by this, before \<open>kill\<close> returns.
\<close>

fun until_killed :: "end_call list \<Rightarrow> end_call list" where
  "until_killed [] = []"
| "until_killed (x # xs) = (if x = Kill_quit 0 then [x] else x # until_killed xs)"

text \<open>Everything the main process does behind its loop.\<close>

definition server_end :: "(int \<Rightarrow> int) \<Rightarrow> int \<Rightarrow> server \<Rightarrow> end_call list" where
  "server_end waits logger_pid s = until_killed (leave_run waits logger_pid s @ destroy_server)"

lemma until_killed_all: "Kill_quit 0 \<notin> set xs \<Longrightarrow> until_killed (xs @ ys) = xs @ until_killed ys"
  by (induction xs) auto

lemma end_workers_kill: "Kill_quit p \<in> set (concat (map (\<lambda>i. end_worker waits i (f i)) xs)) \<longleftrightarrow> p \<in> f ` set xs"
  by (auto simp: end_worker_def)

lemma until_killed_workers:
  assumes "k < n" "f k = 0" "\<And>i. i < k \<Longrightarrow> f i \<noteq> 0"
  shows "until_killed (concat (map (\<lambda>i. end_worker waits i (f i)) [0..<n]) @ ys) =
    concat (map (\<lambda>i. end_worker waits i (f i)) [0..<k]) @ [Close_channel k, Kill_quit 0]"
proof -
  have "[0..<n] = [0..<k] @ k # [Suc k..<n]" using assms(1) upt_add_eq_append [of 0 k "n - k"] by (simp add: upt_conv_Cons)
  moreover have "Kill_quit 0 \<notin> set (concat (map (\<lambda>i. end_worker waits i (f i)) [0..<k]))"
    using assms(3) unfolding end_workers_kill by force
  ultimately show ?thesis by (simp add: until_killed_all end_worker_def [of _ k] assms(2) del: set_concat)
qed

text \<open>The slot of a \<open>fork\<close> that failed still holds 0.\<close>

lemma slots_at_end:
  assumes "started_from q n forks s0" "server_reaches fs fd_limit s0 s"
  shows "max_connections s = n"
    "i < nat n \<Longrightarrow> client_processes s ! i = (if the (forks i) < 0 then 0 else the (forks i))"
    "i < nat n \<Longrightarrow> the (forks i) \<noteq> 0"
    "k \<le> nat n \<Longrightarrow> \<forall>i<k. 0 < the (forks i) \<Longrightarrow>
      concat (map (\<lambda>i. end_worker waits i (client_processes s ! i)) [0..<k]) =
      concat (map (\<lambda>i. end_worker waits i (the (forks i))) [0..<k])"
proof -
  show "max_connections s = n" by (rule server_procs(3) [OF assms])
  have pid: "client_processes s ! i = (if the (forks i) < 0 then 0 else the (forks i)) \<and> the (forks i) \<noteq> 0" if "i < nat n" for i
    using started_slot [OF assms(1) that] startedD(10) [OF assms(1) that] unfolding server_procs(2) [OF assms] by (cases; auto)
  then show "i < nat n \<Longrightarrow> client_processes s ! i = (if the (forks i) < 0 then 0 else the (forks i))"
    "i < nat n \<Longrightarrow> the (forks i) \<noteq> 0" by blast+
  show "k \<le> nat n \<Longrightarrow> \<forall>i<k. 0 < the (forks i) \<Longrightarrow>
      concat (map (\<lambda>i. end_worker waits i (client_processes s ! i)) [0..<k]) =
      concat (map (\<lambda>i. end_worker waits i (the (forks i))) [0..<k])"
    using pid by (intro arg_cong [where f = concat] map_cong) auto
qed

abbreviation ended_workers :: "(int \<Rightarrow> int) \<Rightarrow> (nat \<Rightarrow> int option) \<Rightarrow> nat \<Rightarrow> end_call list" where
  "ended_workers waits forks k \<equiv>
     Report Info ''Server shutting down before killing child processes'' #
     concat (map (\<lambda>i. end_worker waits i (the (forks i))) [0..<k])"

lemma end_in_order:
  assumes start: "started_from q n forks s0" "server_reaches fs fd_limit s0 s" and logger: "0 < logger_pid"
    and all: "\<forall>i<nat n. 0 < the (forks i)"
  shows "server_end waits logger_pid s =
    ended_workers waits forks (nat n) @ [Sleep 1, Kill_quit logger_pid, Wait_for logger_pid] @ destroy_server"
proof -
  note slots = slots_at_end [OF start]
  have "Kill_quit 0 \<notin> set (leave_run waits logger_pid s)"
    using logger all slots(2,3) unfolding leave_run_def slots(1) by (auto simp: end_worker_def)
  then show ?thesis
    using slots(4) [OF order_refl all] by (simp add: server_end_def until_killed_all leave_run_def slots(1) destroy_server_def)
qed

lemma end_at_failed_fork:
  assumes start: "started_from q n forks s0" "server_reaches fs fd_limit s0 s"
    and k: "k < nat n" "the (forks k) < 0" "\<forall>i<k. 0 < the (forks i)"
  shows "server_end waits logger_pid s = ended_workers waits forks k @ [Close_channel k, Kill_quit 0]"
proof -
  note slots = slots_at_end [OF start]
  have "client_processes s ! i \<noteq> 0" if "i < k" for i
  proof -
    have "0 < the (forks i)" "i < nat n" using k(1,3) that by auto
    then show ?thesis using slots(2) [of i] by simp
  qed
  then show ?thesis
    using until_killed_workers [OF k(1), of "\<lambda>i. client_processes s ! i"] slots(2) [OF k(1)] slots(4) [of k] k
    by (simp add: server_end_def leave_run_def slots(1))
qed

lemma first_failed_fork:
  assumes "started_from q n forks s0" "\<not> (\<forall>i<nat n. 0 < the (forks i))"
  obtains k where "k < nat n" "the (forks k) < 0" "\<forall>i<k. 0 < the (forks i)"
proof -
  obtain k where k: "k < nat n" "\<not> 0 < the (forks k)" "\<forall>i<k. \<not> (i < nat n \<and> \<not> 0 < the (forks i))"
    using assms(2) exists_least_iff [of "\<lambda>i. i < nat n \<and> \<not> 0 < the (forks i)"] by blast
  moreover have "the (forks k) \<noteq> 0" using slots_at_end(3) [OF assms(1) server_start k(1)] .
  ultimately show ?thesis by (intro that [of k]) auto
qed

text \<open>
  Claim C29. If every \<open>fork\<close> has worked, the server ends in order: it closes the channel of each
  worker, signals and awaits the worker, then the logger process, and then gives back
  everything, both message queues included. But the slot of a \<open>fork\<close> that failed still holds
  0, and signalling 0 signals the whole process group: at the first such slot the main
  process ends itself, the workers behind it are not awaited, and the queues stay behind for
  the next server.
\<close>

theorem server_end_effect:
  assumes "started_from q n forks s0" "server_reaches fs fd_limit s0 s" and "0 < logger_pid"
  shows "((\<forall>i<nat n. 0 < the (forks i)) \<longrightarrow>
      server_end waits logger_pid s =
        ended_workers waits forks (nat n) @ [Sleep 1, Kill_quit logger_pid, Wait_for logger_pid] @ destroy_server) \<and>
    (\<forall>k<nat n. the (forks k) < 0 \<and> (\<forall>i<k. 0 < the (forks i)) \<longrightarrow>
      server_end waits logger_pid s = ended_workers waits forks k @ [Close_channel k, Kill_quit 0]) \<and>
    (Mq_unlink ''/available'' \<in> set (server_end waits logger_pid s) \<longleftrightarrow> (\<forall>i<nat n. 0 < the (forks i)))"
proof (intro conjI)
  show "(\<forall>i<nat n. 0 < the (forks i)) \<longrightarrow> server_end waits logger_pid s =
      ended_workers waits forks (nat n) @ [Sleep 1, Kill_quit logger_pid, Wait_for logger_pid] @ destroy_server"
    using end_in_order [OF assms] by blast
  show "\<forall>k<nat n. the (forks k) < 0 \<and> (\<forall>i<k. 0 < the (forks i)) \<longrightarrow>
      server_end waits logger_pid s = ended_workers waits forks k @ [Close_channel k, Kill_quit 0]"
    using end_at_failed_fork [OF assms(1,2)] by blast
  show "Mq_unlink ''/available'' \<in> set (server_end waits logger_pid s) \<longleftrightarrow> (\<forall>i<nat n. 0 < the (forks i))"
  proof
    assume q: "Mq_unlink ''/available'' \<in> set (server_end waits logger_pid s)"
    show "\<forall>i<nat n. 0 < the (forks i)"
    proof (rule ccontr)
      assume "\<not> (\<forall>i<nat n. 0 < the (forks i))"
      then obtain k where "k < nat n" "the (forks k) < 0" "\<forall>i<k. 0 < the (forks i)"
        using first_failed_fork [OF assms(1)] by metis
      then show False using q end_at_failed_fork [OF assms(1,2), of k waits logger_pid] by (auto simp: end_worker_def)
    qed
  next
    assume "\<forall>i<nat n. 0 < the (forks i)"
    then show "Mq_unlink ''/available'' \<in> set (server_end waits logger_pid s)"
      using end_in_order [OF assms] by (simp add: destroy_server_def)
  qed
qed

theorem server_end_effect_witness:
  "server_end (\<lambda>p. p) 99 two_started =
    Report Info ''Server shutting down before killing child processes'' #
    end_worker (\<lambda>p. p) 0 100 @ end_worker (\<lambda>p. p) 1 101 @ [Sleep 1, Kill_quit 99, Wait_for 99] @ destroy_server"
  using server_end_effect [OF two_workers_start server_start, of 99 "\<lambda>p. p"]
  by (simp add: two_workers_def upt_rec numeral_2_eq_2)

end
