(* ===== verification/Http_Setup.thy ===== *)
theory Http_Setup
  imports Http_Limits Http_Logging
begin

text \<open>
  \<open>http_server/main.cpp\<close> and the start of the server: the command line, the configuration, the
  listening socket, and \<open>Server::run\<close> up to its loop. \<open>host\<close> is what the kernel and the TLS
  library answer. \<open>Inl c\<close> is \<open>exit(c)\<close>.
\<close>

section \<open>The command line\<close>

definition tolower :: "char \<Rightarrow> char" where
  "tolower c = (if 65 \<le> (of_char c :: nat) \<and> (of_char c :: nat) \<le> 90 then char_of (of_char c + 32 :: nat) else c)"

definition strcasecmp_eq :: "string \<Rightarrow> string \<Rightarrow> bool" where
  "strcasecmp_eq s t \<longleftrightarrow> map tolower s = map tolower t"

definition usage :: "string \<Rightarrow> string" where
  "usage argv0 = concat (map (\<lambda>l. l @ [CHR 0x0A])
     [''Usage: '' @ argv0 @ '' [options]'',
      ''Options:'',
      ''  -h, --help'' @ [CHR 0x09, CHR 0x09] @ ''Show this help message and exit'',
      ''  -p, --port'' @ [CHR 0x09, CHR 0x09] @ ''Set the port number'',
      ''  -c, --connections'' @ [CHR 0x09] @ ''Set the maximum number of connections'',
      ''  -l, --log'' @ [CHR 0x09, CHR 0x09] @ ''Set the log file'',
      ''  -s, --ssl'' @ [CHR 0x09, CHR 0x09] @ ''Set the SSL certificate and private key''])"

text \<open>With the exit code comes what is printed.\<close>

fun http_args :: "string \<Rightarrow> string list \<Rightarrow> (int \<times> string) + unit" where
  "http_args argv0 [] = Inr ()"
| "http_args argv0 (arg # args) =
     (if strcasecmp_eq arg ''-h'' \<or> strcasecmp_eq arg ''--help'' then Inl (0, usage argv0)
      else if strcasecmp_eq arg ''-p'' \<or> strcasecmp_eq arg ''--port'' then http_args argv0 args
      else if strcasecmp_eq arg ''-c'' \<or> strcasecmp_eq arg ''--connections'' then http_args argv0 args
      else if strcasecmp_eq arg ''-l'' \<or> strcasecmp_eq arg ''--log'' then http_args argv0 args
      else if strcasecmp_eq arg ''-s'' \<or> strcasecmp_eq arg ''--ssl'' then http_args argv0 args
      else Inl (1, ''Unknown option: '' @ arg @ [CHR 0x0A]))"

section \<open>Configuration\<close>

datatype sock_call =
    Socket_inet6
  | Setsockopt int int int
  | Bind_any u16
  | Listen int

record host =
  logger_queue_opens :: bool
  file_opens :: "string \<Rightarrow> bool"
  ssl_context :: bool
  certificate_ok :: "string \<Rightarrow> bool"
  private_key_ok :: "string \<Rightarrow> bool"
  logger_fork :: int
  socket_result :: "sock_call \<Rightarrow> int"
  available_queue_opens :: bool
  old_queue :: "(nat \<times> int list) option"
  child_forks :: "nat \<Rightarrow> int option"
  sigaction_works :: bool

record http_setup =
  port :: u16
  server :: server
  loggers :: "logger list"
  socket_calls :: "sock_call list"

text \<open>The constructor.\<close>

definition construct_server :: "host \<Rightarrow> int + http_setup" where
  "construct_server h =
     (if \<not> logger_queue_opens h then Inl 1
      else Inr \<lparr>port = 8080, server = new_server, loggers = [], socket_calls = []\<rparr>)"

text \<open>\<open>existing\<close> is the one made before, if there is one.\<close>

definition get_instance :: "host \<Rightarrow> http_setup option \<Rightarrow> int + http_setup" where
  "get_instance h existing = (case existing of None \<Rightarrow> construct_server h | Some st \<Rightarrow> Inr st)"

definition configure_port :: "u16 \<Rightarrow> http_setup \<Rightarrow> int + http_setup" where
  "configure_port p st = (if unat p < 1024 \<or> unat p > 65535 then Inl 1 else Inr (st\<lparr>port := p\<rparr>))"

definition add_file_logger :: "host \<Rightarrow> string \<Rightarrow> http_setup \<Rightarrow> int + http_setup" where
  "add_file_logger h path st =
     (case new_file_logger (file_opens h path) path of
        Inl c \<Rightarrow> Inl c
      | Inr l \<Rightarrow> Inr (st\<lparr>loggers := add_logger l (loggers st)\<rparr>))"

definition add_console_logger :: "http_setup \<Rightarrow> http_setup" where
  "add_console_logger st = st\<lparr>loggers := add_logger new_logger (loggers st)\<rparr>"

definition configure_ssl :: "host \<Rightarrow> string \<Rightarrow> string \<Rightarrow> http_setup \<Rightarrow> int + http_setup" where
  "configure_ssl h certificate_path private_key_path st =
     (if \<not> ssl_context h then Inl 1
      else if \<not> certificate_ok h certificate_path then Inl 1
      else if \<not> private_key_ok h private_key_path then Inl 1
      else Inr st)"

section \<open>The listening socket\<close>

text \<open>The numbers of Linux.\<close>

definition SO_REUSEADDR :: int where "SO_REUSEADDR = 2"
definition SO_REUSEPORT :: int where "SO_REUSEPORT = 15"
definition IPPROTO_IPV6 :: int where "IPPROTO_IPV6 = 41"
definition IPV6_V6ONLY :: int where "IPV6_V6ONLY = 26"

definition htons :: "u16 \<Rightarrow> u16" where
  "htons p = push_bit 8 p OR drop_bit 8 p"

definition set_up_socket :: "host \<Rightarrow> http_setup \<Rightarrow> int + http_setup" where
  "set_up_socket h st =
     (let r = socket_result h;
          reuse = Setsockopt SOL_SOCKET (SO_REUSEADDR OR SO_REUSEPORT) 1;
          v6only = Setsockopt IPPROTO_IPV6 IPV6_V6ONLY 0;
          bind = Bind_any (htons (port st));
          listen = Listen (max_connections (server st))
      in if r Socket_inet6 < 0 then Inl 1
         else if r reuse \<noteq> 0 then Inl 1
         else if r v6only < 0 then Inl 1
         else if r bind < 0 then Inl 1
         else if r listen < 0 then Inl 1
         else Inr (st\<lparr>socket_calls := [Socket_inet6, reuse, v6only, bind, listen]\<rparr>))"

section \<open>Running\<close>

definition exit_bind :: "int + 'a \<Rightarrow> ('a \<Rightarrow> (int + 'b) res) \<Rightarrow> (int + 'b) res" where
  "exit_bind x f = (case x of Inl c \<Rightarrow> ret (Inl c) | Inr a \<Rightarrow> f a)"

text \<open>\<open>run\<close> in the main process, up to the loop.\<close>

definition run_server :: "host \<Rightarrow> http_setup \<Rightarrow> (int + http_setup) res" where
  "run_server h st =
     (if logger_fork h < 0 then ret (Inl 1)
      else exit_bind (set_up_socket h st) (\<lambda>st1.
           res_bind (start_client_processes (available_queue_opens h) (old_queue h) (child_forks h) (server st1)) (\<lambda>started.
           exit_bind started (\<lambda>s.
             if \<not> sigaction_works h then ret (Inl 1) else ret (Inr (st1\<lparr>server := s\<rparr>))))))"

definition http_main :: "host \<Rightarrow> string \<Rightarrow> string list \<Rightarrow> (int + http_setup) res" where
  "http_main h argv0 args =
     (case http_args argv0 args of
        Inl (c, _) \<Rightarrow> ret (Inl c)
      | Inr _ \<Rightarrow>
          exit_bind (get_instance h None) (\<lambda>st.
          exit_bind (configure_port 8080 st) (\<lambda>st1.
          let st2 = st1\<lparr>server := configure_max_connections 10 (server st1)\<rparr> in
          exit_bind (add_file_logger h ''server.log'' st2) (\<lambda>st3.
          exit_bind (configure_ssl h ''certificate.pem'' ''private.pem'' (add_console_logger st3)) (\<lambda>st4.
            run_server h st4)))))"

section \<open>What a start gives\<close>

definition option_words :: "string list" where
  "option_words = [''-p'', ''--port'', ''-c'', ''--connections'', ''-l'', ''--log'', ''-s'', ''--ssl'']"

lemma exit_bind_Inr: "exit_bind x f = ret (Inr b) \<longleftrightarrow> (\<exists>a. x = Inr a \<and> f a = ret (Inr b))"
  by (cases x) (auto simp: exit_bind_def)

lemma http_args_words:
  "http_args argv0 args = Inr () \<longleftrightarrow> (\<forall>arg\<in>set args. \<exists>w\<in>set option_words. strcasecmp_eq arg w)"
proof (induction argv0 args rule: http_args.induct)
  case (2 argv0 arg args)
  have "\<not> (\<exists>w\<in>set option_words. strcasecmp_eq arg w)" if "strcasecmp_eq arg ''-h'' \<or> strcasecmp_eq arg ''--help''"
    using that by (auto simp: strcasecmp_eq_def option_words_def tolower_def of_char_def)
  with 2 show ?case by (auto simp: option_words_def)
qed simp

lemma port_8080: "configure_port 8080 st = Inr (st\<lparr>port := 8080\<rparr>)"
  by (simp add: configure_port_def)

text \<open>
  Claim C28. The server comes to its loop only if every argument is one of the option words
  that do nothing, so a value behind an option makes it exit; and whatever the options are, it
  then listens on port 8080 with room for 10 connections, has started its workers from the forks
  on the queue \<open>/available\<close>, a new one or the one it has found, logs to \<open>server.log\<close> and the
  console, and of the two socket options it means to set it has set only \<open>SO_REUSEPORT\<close>.
\<close>

theorem server_starts_with_defaults:
  assumes "http_main h argv0 args = ret (Inr st)" "forks_ok 10 (child_forks h)"
  shows "(\<forall>arg\<in>set args. \<exists>w\<in>set option_words. strcasecmp_eq arg w) \<and>
    started_from (old_queue h) 10 (child_forks h) (server st) \<and> port st = 8080 \<and>
    map log_path (loggers st) = [''server.log'', ''/dev/stdout''] \<and>
    socket_calls st = [Socket_inet6, Setsockopt SOL_SOCKET SO_REUSEPORT 1, Setsockopt IPPROTO_IPV6 IPV6_V6ONLY 0,
      Bind_any (htons 8080), Listen 10]"
proof -
  have a: "http_args argv0 args = Inr ()" using assms(1) by (auto simp: http_main_def split: sum.splits)
  let ?st = "\<lparr>port = 8080, server = configure_max_connections 10 new_server,
    loggers = [\<lparr>log_path = ''server.log'', log_out = []\<rparr>, new_logger], socket_calls = []\<rparr>"
  have "run_server h ?st = ret (Inr st)"
    using assms(1) a unfolding http_main_def
    by (auto simp: exit_bind_Inr get_instance_def construct_server_def port_8080 add_file_logger_def new_file_logger_def configure_ssl_def
        add_console_logger_def add_logger_def Let_def split: if_splits sum.splits)
  then obtain st1 s where r: "set_up_socket h ?st = Inr st1"
    "start_client_processes (available_queue_opens h) (old_queue h) (child_forks h) (server st1) = ret (Inr s)" "st = st1\<lparr>server := s\<rparr>"
    by (auto simp: run_server_def exit_bind_Inr split: if_splits)
  have "SO_REUSEADDR OR SO_REUSEPORT = SO_REUSEPORT" by (simp add: SO_REUSEADDR_def SO_REUSEPORT_def)
  moreover from r(1) have st1: "st1 = ?st\<lparr>socket_calls := [Socket_inet6, Setsockopt SOL_SOCKET (SO_REUSEADDR OR SO_REUSEPORT) 1,
      Setsockopt IPPROTO_IPV6 IPV6_V6ONLY 0, Bind_any (htons 8080), Listen 10]\<rparr>"
    by (simp add: set_up_socket_def Let_def configure_max_connections_def split: if_splits)
  moreover have "available_queue_opens h" using r(2) by (auto simp: start_client_processes_def Let_def split: if_splits prod.splits)
  ultimately show ?thesis
    using a r(2) assms(2) by (simp add: r(3) http_args_words started_from_def new_logger_def)
qed

definition good_host :: host where
  "good_host = \<lparr>logger_queue_opens = True, file_opens = (\<lambda>_. True), ssl_context = True, certificate_ok = (\<lambda>_. True),
     private_key_ok = (\<lambda>_. True), logger_fork = 99, socket_result = (\<lambda>_. 0), available_queue_opens = True,
     old_queue = None, child_forks = (\<lambda>i. Some (100 + int i)), sigaction_works = True\<rparr>"

lemma good_old_queue: "old_queue good_host = None"
  by (simp add: good_host_def)

lemma good_forks: "forks_ok n (child_forks good_host)"
  by (auto simp: forks_ok_def good_host_def)

lemma fork_workers_runs:
  "(\<And>x. x \<in> set xs \<Longrightarrow> x \<noteq> None) \<Longrightarrow> length (available_clients s) + length xs \<le> available_room s \<Longrightarrow>
   \<exists>s'. fork_workers xs i s = ret (Inr s')"
proof (induction xs arbitrary: i s)
  case (Cons x xs)
  then obtain pid where "x = Some pid" by force
  then show ?case using Cons by (auto simp: mq_send_available_def)
qed simp

lemma good_host_starts: "\<exists>st. http_main good_host argv0 [''-p''] = ret (Inr st)"
proof -
  have a: "http_args argv0 [''-p''] = Inr ()"
    by (simp add: strcasecmp_eq_def tolower_def of_char_def)
  have f: "\<exists>s. start_client_processes True None (child_forks good_host) s0 = ret (Inr s)" if n: "0 \<le> max_connections s0" for s0
  proof -
    let ?s1 = "s0\<lparr>available_clients := [], available_nonblocking := False, available_room := nat (max_connections s0),
      client_processes := replicate (nat (max_connections s0)) 0,
      workers := replicate (nat (max_connections s0)) \<lparr>channel = [], wstate = No_process\<rparr>\<rparr>"
    have "\<exists>s. fork_workers (map (child_forks good_host) [0..<nat (max_connections s0)]) 0 ?s1 = ret (Inr s)"
      by (rule fork_workers_runs) (auto simp: good_host_def)
    then show ?thesis using n by (auto simp: start_client_processes_def available_blocks Let_def)
  qed
  let ?st = "\<lparr>port = 8080, server = configure_max_connections 10 new_server,
    loggers = [\<lparr>log_path = ''server.log'', log_out = []\<rparr>, new_logger], socket_calls = []\<rparr>"
  have m: "http_main good_host argv0 [''-p''] = run_server good_host ?st"
    by (simp del: http_args.simps add: http_main_def a exit_bind_def get_instance_def construct_server_def port_8080 add_file_logger_def new_file_logger_def
        configure_ssl_def add_console_logger_def add_logger_def Let_def good_host_def)
  obtain st1 where st1: "set_up_socket good_host ?st = Inr st1" "server st1 = configure_max_connections 10 new_server"
    by (simp add: set_up_socket_def Let_def good_host_def)
  obtain s where "start_client_processes True None (child_forks good_host) (server st1) = ret (Inr s)"
    using f [of "server st1"] st1(2) by (auto simp: configure_max_connections_def)
  then have "run_server good_host ?st = ret (Inr (st1\<lparr>server := s\<rparr>))"
    using st1(1) by (simp add: run_server_def exit_bind_def good_host_def)
  then show ?thesis using m by metis
qed

theorem server_starts_with_defaults_witness:
  "\<exists>st. http_main good_host ''server'' [''-p''] = ret (Inr st) \<and> started_from None 10 (child_forks good_host) (server st) \<and> port st = 8080"
  using good_host_starts [of "''server''"] server_starts_with_defaults [OF _ good_forks]
  by (metis good_old_queue)

end
