(* ===== verification/Http_Access.thy ===== *)
theory Http_Access
  imports Http_Setup "HOL-Library.Sublist"
begin

text \<open>
  What a worker process logs about a connection, from the bytes \<open>getsockname\<close> stores to the lines
  in the logs.
\<close>

section \<open>Addresses\<close>

text \<open>The fields of an address as they are in memory.\<close>

record sockaddr_in6 =
  sin6_port :: u16
  sin6_flowinfo :: u32
  sin6_addr :: "byte list"
  sin6_scope_id :: u32

definition AF_INET6 :: nat where
  "AF_INET6 = 10"

definition sockaddr_in6_bytes :: "sockaddr_in6 \<Rightarrow> byte list" where
  "sockaddr_in6_bytes a =
     le_bytes 2 AF_INET6 @ le_bytes 2 (unat (sin6_port a)) @ le_bytes 4 (unat (sin6_flowinfo a)) @
     sin6_addr a @ le_bytes 4 (unat (sin6_scope_id a))"

text \<open>
  The connection comes from the \<open>AF_INET6\<close> socket, but \<open>_addr\<close> is the 16 bytes of a \<open>sockaddr_in\<close>:
  \<open>getsockname\<close> stores the first 16 bytes of the address of its own end of the connection.
\<close>

definition client_addr :: "sockaddr_in6 \<Rightarrow> byte list" where
  "client_addr own = take 16 (sockaddr_in6_bytes own)"

definition ntohs :: "u16 \<Rightarrow> u16" where
  "ntohs p = push_bit 8 p OR drop_bit 8 p"

text \<open>\<open>inet_ntop(AF_INET, ...)\<close> of \<open>sin_addr\<close>.\<close>

definition get_ip :: "byte list \<Rightarrow> string" where
  "get_ip addr = join ''.'' (map (\<lambda>b. show_nat (unat b)) (take 4 (drop 4 addr)))"

definition get_port :: "byte list \<Rightarrow> string" where
  "get_port addr = show_nat (unat (ntohs (le16 (take 2 (drop 2 addr)))))"

section \<open>Messages of a worker\<close>

type_synonym report = "LogLevel \<times> string"

text \<open>\<open>errno\<close> is the text of the error.\<close>

definition recv_fd_reports :: "string \<Rightarrow> msg option \<Rightarrow> report list" where
  "recv_fd_reports errno received =
     (case received of
        None \<Rightarrow> [(Error, ''recvmsg: '' @ errno)]
      | Some m \<Rightarrow> (case msg_control m of None \<Rightarrow> [(Error, ''No control message received'')] | Some _ \<Rightarrow> []))"

definition new_client_reports :: "int \<Rightarrow> bool \<Rightarrow> int \<Rightarrow> report list" where
  "new_client_reports pid accepted ssl_error =
     (if \<not> accepted
      then [(Error, ''PID: '' @ show_int pid @ '' Failed to accept SSL connection code ('' @ show_int ssl_error @ '')'')]
      else [(Info, ''Accepted SSL connection'')])"

definition connected :: "int \<Rightarrow> byte list \<Rightarrow> report" where
  "connected pid addr =
     (Info, ''PID: '' @ show_int pid @ '', IP: '' @ get_ip addr @ '':'' @ get_port addr @ '' connected'')"

definition requested :: "byte list \<Rightarrow> string \<Rightarrow> string \<Rightarrow> report" where
  "requested addr t path = (Info, get_ip addr @ '':'' @ get_port addr @ '' -> ['' @ t @ '']: '' @ path)"

text \<open>One turn of \<open>while (client.is_open())\<close>. A fault ends the process, and what it has sent stays sent.\<close>

definition round_reports :: "int \<Rightarrow> byte list \<Rightarrow> round \<Rightarrow> client \<Rightarrow> report list" where
  "round_reports pid addr r c =
     connected pid addr #
     (case receive_headers (behind_head r) (head_read r) c new_request of
        Some (Inr (received, _, req)) \<Rightarrow>
          if \<not> received then []
          else (case get_type_as_string req of Some (Inr t) \<Rightarrow> [requested addr t (req_path req)] | _ \<Rightarrow> [])
      | _ \<Rightarrow> [])"

text \<open>Without a further round the worker waits in \<open>receive_headers\<close>.\<close>

primrec connection_reports :: "int \<Rightarrow> byte list \<Rightarrow> files \<Rightarrow> round list \<Rightarrow> client \<Rightarrow> report list" where
  "connection_reports pid addr fs [] c = (if client_open c then [connected pid addr] else [])"
| "connection_reports pid addr fs (r # rs) c =
     (if client_open c
      then round_reports pid addr r c @
        (case serve_one fs r c of Some (Inr c') \<Rightarrow> connection_reports pid addr fs rs c' | _ \<Rightarrow> [])
      else [])"

text \<open>One turn of the outer loop.\<close>

definition worker_reports ::
  "int \<Rightarrow> string \<Rightarrow> msg option \<Rightarrow> bool \<Rightarrow> int \<Rightarrow> string \<Rightarrow> byte list \<Rightarrow> files \<Rightarrow> round list \<Rightarrow> report list" where
  "worker_reports pid errno received accepted ssl_error junk addr fs rounds =
     (Debug, ''PID: '' @ show_int pid @ '' waiting for connection'') #
     recv_fd_reports errno received @
     (case take_connection accepted junk received of
        None \<Rightarrow> []
      | Some (_, c) \<Rightarrow> new_client_reports pid accepted ssl_error @ connection_reports pid addr fs rounds c)"

section \<open>The logged addresses\<close>

lemma ntohs_htons [simp]: "ntohs (htons p) = p"
  unfolding ntohs_def htons_def by (rule bit_word_eqI) (auto simp: bit_simps)

lemma client_addr_fields:
  "take 2 (drop 2 (client_addr own)) = le_bytes 2 (unat (sin6_port own))"
  "take 4 (drop 4 (client_addr own)) = le_bytes 4 (unat (sin6_flowinfo own))"
  by (simp_all add: client_addr_def sockaddr_in6_bytes_def drop_take)

lemma logged_port: "sin6_port own = htons p \<Longrightarrow> get_port (client_addr own) = show_nat (unat p)"
  unfolding get_port_def client_addr_fields u16c.dec_enc [OF TrueI] by simp

lemma zero_bytes: "le_bytes k 0 = replicate k 0"
  by (induction k) simp_all

lemma zero_dotted: "join ''.'' (map (\<lambda>b. show_nat (unat b)) (replicate 4 (0 :: byte))) = ''0.0.0.0''"
proof -
  have "show_nat 0 = ''0''" by (simp add: show_nat_def show_base.simps digit_def char_of_def bit_0)
  then show ?thesis by (simp add: numeral_eq_Suc)
qed

lemma logged_ip: "sin6_flowinfo own = 0 \<Longrightarrow> get_ip (client_addr own) = ''0.0.0.0''"
  using zero_dotted unfolding get_ip_def client_addr_fields by (simp only: zero_bytes unat_0)

section \<open>Every access is logged\<close>

text \<open>A request as a browser sends it, at once and alone.\<close>

type_synonym sent_request = "RequestType \<times> string \<times> string \<times> (string \<times> string) list"

definition sends :: "sent_request \<Rightarrow> round \<Rightarrow> bool" where
  "sends q r \<longleftrightarrow> (case q of (t, p, v, hs) \<Rightarrow>
     word_without CHR '' '' p \<and> word_without CHR '' '' v \<and> (\<forall>h\<in>set hs. good_header h) \<and> ''Content-Type'' \<notin> fst ` set hs \<and>
     length (request_text t p v hs) \<le> 1024 \<and>
     behind_head r = [] \<and> head_read r = Read_bytes (request_text t p v hs))"

definition access_reports :: "int \<Rightarrow> byte list \<Rightarrow> sent_request \<Rightarrow> report list" where
  "access_reports pid addr q = (case q of (t, p, _) \<Rightarrow> [connected pid addr, requested addr (type_to_string t) p])"

text \<open>What these say, with the text of the address.\<close>

definition access_texts :: "int \<Rightarrow> string \<Rightarrow> sent_request \<Rightarrow> report list" where
  "access_texts pid host q = (case q of (t, path, _) \<Rightarrow>
     [(Info, ''PID: '' @ show_int pid @ '', IP: '' @ host @ '' connected''),
      (Info, host @ '' -> ['' @ type_to_string t @ '']: '' @ path)])"

lemma round_reports_sent:
  assumes "sends q r"
  shows "round_reports pid addr r c = access_reports pid addr q"
proof -
  obtain t p v hs where q: "q = (t, p, v, hs)" by (cases q)
  have a: "word_without CHR '' '' p" "word_without CHR '' '' v" "\<And>h. h \<in> set hs \<Longrightarrow> good_header h"
    "''Content-Type'' \<notin> fst ` set hs" "length (request_text t p v hs) \<le> 1024"
    "behind_head r = []" "head_read r = Read_bytes (request_text t p v hs)"
    using assms by (simp_all add: sends_def q)
  obtain c1 where c1: "receive_headers [] (Read_bytes (request_text t p v hs)) c new_request =
      Some (Inr (True, c1, \<lparr>req_type = Some t, req_path = p, req_version = v, req_fields = map_of (rev hs), req_boundary = []\<rparr>))"
    using receives_request [OF a(1-5), of c] by (auto simp: ret_def)
  have t: "get_type_as_string \<lparr>req_type = Some t, req_path = p, req_version = v, req_fields = f, req_boundary = b\<rparr> =
      Some (Inr (type_to_string t))" for f b
    by (simp add: get_type_as_string_def get_type_def) (simp add: ret_def)
  show ?thesis by (simp add: round_reports_def a(6,7) c1 t access_reports_def q)
qed

lemma connection_reports_sent:
  "list_all2 sends reqs rs \<Longrightarrow> serve_connection fs rs c = ret c' \<Longrightarrow>
   \<exists>k\<le>length rs. serve_connection fs (take k rs) c = ret c' \<and>
     connection_reports pid addr fs rs c = concat (map (access_reports pid addr) (take k reqs))"
proof (induction reqs rs arbitrary: c rule: list_all2_induct)
  case Nil
  then show ?case by (auto split: if_splits)
next
  case (Cons q reqs r rs)
  show ?case
  proof (cases "client_open c")
    case False
    then show ?thesis using Cons.prems by (intro exI [of _ 0]) simp
  next
    case True
    then obtain c1 where c1: "serve_one fs r c = ret c1" "serve_connection fs rs c1 = ret c'"
      using Cons.prems by auto
    then obtain k where k: "k \<le> length rs" "serve_connection fs (take k rs) c1 = ret c'"
      "connection_reports pid addr fs rs c1 = concat (map (access_reports pid addr) (take k reqs))"
      using Cons.IH [of c1] by blast
    have "serve_one fs r c = Some (Inr c1)" using c1(1) by (simp add: ret_def)
    with True c1(1) k round_reports_sent [OF Cons.hyps(1)] show ?thesis by (intro exI [of _ "Suc k"]) simp
  qed
qed

text \<open>
  Claim C27. Every access is logged. A worker takes a connection over which a client sends
  requests; when it is done with the connection after \<open>k\<close> of them, its messages are that
  it waits, that it accepts, and for each of the \<open>k\<close> requests, in order, that the client is
  connected and what it asks for. If the queue brings the logger process what the processes
  send, each line is in every log, with the other lines around it but in this order. But
  the address in these lines is not that of the client: it is \<open>0.0.0.0\<close> and the port of the server,
  whoever the client is.
\<close>

theorem accesses_logged:
  assumes reqs: "list_all2 sends reqs rs" "serve_connection fs rs (new_client True junk) = ret c"
    and fd: "0 \<le> fd" "fd < 2 ^ 31"
    and own: "sin6_port own = htons p" "sin6_flowinfo own = 0"
    and queue: "filter (\<lambda>m. m \<noteq> None) received = map (\<lambda>(j, level, time, s). Some (createLogMessage j time level s)) sent"
      "\<And>j level time s. (j, level, time, s) \<in> set sent \<Longrightarrow> length j = 256"
    and mine: "subseq mine sent" "map (\<lambda>(j, level, time, s). (level, s)) mine =
      worker_reports pid errno (Some (fd_message fd)) True ssl_error junk (client_addr own) fs rs"
  shows "\<exists>k\<le>length rs. serve_connection fs (take k rs) (new_client True junk) = ret c \<and>
    map (\<lambda>(j, level, time, s). (level, s)) mine =
      [(Debug, ''PID: '' @ show_int pid @ '' waiting for connection''), (Info, ''Accepted SSL connection'')] @
      concat (map (access_texts pid (''0.0.0.0:'' @ show_nat (unat p))) (take k reqs)) \<and>
    (\<exists>lines. subseq (map (\<lambda>(j, m). reported when m) mine) lines \<and>
      start_logger_process when lpid t0 t1 received ls =
        map (\<lambda>l. l\<lparr>log_out := log_out l @ log_line when Debug t0 (''Logger process started with PID: '' @ show_nat lpid) @
          concat lines @ log_line when Debug t1 ''Logger process ended''\<rparr>) ls)"
proof -
  obtain k where k: "k \<le> length rs" "serve_connection fs (take k rs) (new_client True junk) = ret c"
    "connection_reports pid (client_addr own) fs rs (new_client True junk) =
      concat (map (access_reports pid (client_addr own)) (take k reqs))"
    using connection_reports_sent [OF reqs] by blast
  have a: "access_reports pid (client_addr own) = access_texts pid (''0.0.0.0:'' @ show_nat (unat p))"
    by (rule ext) (auto simp: access_reports_def access_texts_def connected_def requested_def logged_ip [OF own(2)] logged_port [OF own(1)])
  have t: "take_connection True junk (Some (fd_message fd)) = Some (fd, new_client True junk)" using fd by simp
  have "recv_fd_reports errno (Some (fd_message fd)) = []" by (simp add: recv_fd_reports_def fd_message_def)
  then have m: "map (\<lambda>(j, level, time, s). (level, s)) mine =
      [(Debug, ''PID: '' @ show_int pid @ '' waiting for connection''), (Info, ''Accepted SSL connection'')] @
      concat (map (access_texts pid (''0.0.0.0:'' @ show_nat (unat p))) (take k reqs))"
    unfolding mine(2) worker_reports_def t option.case prod.case k(3) a by (simp add: new_client_reports_def)
  have "subseq (map (\<lambda>(j, m). reported when m) mine) (map (\<lambda>(j, m). reported when m) sent)"
    by (rule subseq_map [OF mine(1)])
  from conjI [OF this logger_reports_messages [where pid = lpid and ?t0.0 = t0 and ?t1.0 = t1 and ls = ls and received = received and ?when = "when", OF queue]]
  show ?thesis by (intro exI [of _ k] conjI k(1,2) m) (rule exI)
qed

definition sample_request :: sent_request where
  "sample_request = (GET, ''/a.py'', ''HTTP/1.1'', [(''Host'', ''x'')])"

definition sample_get :: round where
  "sample_get = \<lparr>behind_head = [], head_read = Read_bytes (request_text GET ''/a.py'' ''HTTP/1.1'' [(''Host'', ''x'')]),
     stack_junk = [], body_reads = [], script_output = None\<rparr>"

definition sample_own :: sockaddr_in6 where
  "sample_own = \<lparr>sin6_port = htons 8080, sin6_flowinfo = 0, sin6_addr = replicate 15 0 @ [1], sin6_scope_id = 0\<rparr>"

lemma sample_get_sent: "sends sample_request sample_get"
  by (simp add: sends_def sample_request_def sample_get_def word_without_def good_header_def iscntrl_def of_char_def
      request_text_def type_to_string_def header_line_def crlf_def)

lemma sample_get_served: "\<exists>c. serve_connection Map.empty [sample_get] (new_client True []) = ret c"
proof -
  obtain c1 where c1: "receive_headers [] (Read_bytes (request_text GET ''/a.py'' ''HTTP/1.1'' [(''Host'', ''x'')])) (new_client True []) new_request =
      ret (True, c1, \<lparr>req_type = Some GET, req_path = ''/a.py'', req_version = ''HTTP/1.1'', req_fields = map_of (rev [(''Host'', ''x'')]), req_boundary = []\<rparr>)"
    using receives_request [of "''/a.py''" "''HTTP/1.1''" "[(''Host'', ''x'')]" GET "new_client True []"] sample_get_sent
    by (auto simp: sends_def sample_request_def)
  then have "serve_one Map.empty sample_get (new_client True []) = ret (close_client c1)"
    by (simp add: serve_one_def sample_get_def get_type_as_string_def get_type_def answer_def has_path_def is_script_def
        get_path_extension_def after_last_def execute_script_def keep_alive_def)
  then show ?thesis by (simp add: new_client_def close_client_def Let_def)
qed

theorem accesses_logged_witness:
  "\<exists>lines. subseq (map (reported (\<lambda>_. ''now''))
      [(Debug, 1, ''PID: '' @ show_int 7 @ '' waiting for connection''), (Info, 1, ''Accepted SSL connection''),
       (Info, 1, ''PID: '' @ show_int 7 @ '', IP: 0.0.0.0:'' @ show_nat 8080 @ '' connected''),
       (Info, 1, ''0.0.0.0:'' @ show_nat 8080 @ '' -> [GET]: /a.py'')]) lines"
proof -
  obtain c where c: "serve_connection Map.empty [sample_get] (new_client True []) = ret c" using sample_get_served by blast
  let ?reports = "worker_reports 7 [] (Some (fd_message 5)) True 0 [] (client_addr sample_own) Map.empty [sample_get]"
  let ?mine = "map (\<lambda>(level, s). (replicate 256 NUL, level, 1 :: int, s)) ?reports"
  let ?got = "map (\<lambda>(j, level, time, s). Some (createLogMessage j time level s)) ?mine"
  have q: "filter (\<lambda>m. m \<noteq> None) ?got = ?got" by (auto simp: filter_id_conv)
  have m: "map (\<lambda>(j, level, time, s). (level, s)) ?mine = ?reports" by (simp add: comp_def split_def)
  have sent: "list_all2 sends [sample_request] [sample_get]" using sample_get_sent by simp
  have "\<exists>k\<le>length [sample_get]. serve_connection Map.empty (take k [sample_get]) (new_client True []) = ret c \<and>
    map (\<lambda>(j, level, time, s). (level, s)) ?mine =
      [(Debug, ''PID: '' @ show_int 7 @ '' waiting for connection''), (Info, ''Accepted SSL connection'')] @
      concat (map (access_texts 7 (''0.0.0.0:'' @ show_nat (unat (8080 :: u16)))) (take k [sample_request])) \<and>
    (\<exists>lines. subseq (map (\<lambda>(j, m). reported (\<lambda>_. ''now'') m) ?mine) lines \<and>
      start_logger_process (\<lambda>_. ''now'') 9 0 2 ?got [new_logger] =
        map (\<lambda>l. l\<lparr>log_out := log_out l @ log_line (\<lambda>_. ''now'') Debug 0 (''Logger process started with PID: '' @ show_nat 9) @
          concat lines @ log_line (\<lambda>_. ''now'') Debug 2 ''Logger process ended''\<rparr>) [new_logger])"
    by (rule accesses_logged [OF sent c _ _ _ _ q _ _ m]) (auto simp: sample_own_def)
  then obtain k lines where k: "serve_connection Map.empty (take k [sample_get]) (new_client True []) = ret c"
    "?reports = [(Debug, ''PID: '' @ show_int 7 @ '' waiting for connection''), (Info, ''Accepted SSL connection'')] @
      concat (map (access_texts 7 (''0.0.0.0:'' @ show_nat (unat (8080 :: u16)))) (take k [sample_request]))"
    "subseq (map (\<lambda>(j, m). reported (\<lambda>_. ''now'') m) ?mine) lines"
    unfolding m by blast
  have "k \<noteq> 0" using k(1) by (cases k) (simp_all add: new_client_def ret_def)
  then obtain k' where k': "k = Suc k'" by (cases k) auto
  show ?thesis
    using k(3) unfolding k(2) k' by (intro exI [of _ lines]) (simp add: access_texts_def sample_request_def type_to_string_def)
qed

end
